(* ===== verification/Kernel_Prelude.thy ===== *)
theory Kernel_Prelude
  imports Main "HOL-Library.Word"
begin

text \<open>
  What the components share: the machine integers of the target (64-bit RISC-V, built with
  \<^verbatim>\<open>cargo build --release\<close>, so that \<open>+\<close>, \<open>-\<close>, \<open>*\<close> wrap and a shift
  amount is taken modulo the width), Rust's panics as values, the sequencing of fallible
  computations, and the generic facts on words, lists and options that the component
  theories rest on. The collections \<open>word_to_bits\<close> and \<open>result_simps\<close> carry the
  component proofs.
\<close>

unbundle bit_operations_syntax

named_theorems word_to_bits \<open>masks, shifts and divisions by powers of two as take\_bit and drop\_bit\<close>
named_theorems result_simps \<open>elimination rules for sequenced fallible computations\<close>

section \<open>Machine integers\<close>

type_synonym u8 = "8 word"
type_synonym u16 = "16 word"
type_synonym u32 = "32 word"
type_synonym i32 = "32 word"
type_synonym u64 = "64 word"
type_synonym i64 = "64 word"
type_synonym usize = "64 word"
type_synonym isize = "64 word"

text \<open>Rust's \<open><<\<close> in a release build: the shift amount is masked with the width minus one.\<close>

definition wrapping_shl_u32 :: "u32 \<Rightarrow> usize \<Rightarrow> u32" where
  "wrapping_shl_u32 x n = push_bit (unat n mod 32) x"

text \<open>\<open>usize::checked_add\<close>.\<close>

definition checked_add :: "usize \<Rightarrow> usize \<Rightarrow> usize option" where
  "checked_add a b = (if unat a + unat b < 2 ^ 64 then Some (a + b) else None)"

lemma checked_add_Some [simp]:
  "checked_add a b = Some c \<longleftrightarrow> unat a + unat b < 2 ^ 64 \<and> c = a + b"
  by (auto simp: checked_add_def)

text \<open>
  \<open>from_bits\<close> as the \<open>bitflags!\<close> macro documents it: the flags when every bit set is a bit of
  a declared flag, \<open>None\<close> otherwise. The first argument is the union of the declared flags.
\<close>

definition bitflags_from_bits :: "'a::len word \<Rightarrow> 'a word \<Rightarrow> 'a word option" where
  "bitflags_from_bits all b = (if b AND NOT all = 0 then Some b else None)"

text \<open>\<open>contains\<close> and \<open>from_bits_truncate\<close>.\<close>

definition bitflags_contains :: "'a::len word \<Rightarrow> 'a word \<Rightarrow> bool" where
  "bitflags_contains x f \<longleftrightarrow> x AND f = f"

definition bitflags_from_bits_truncate :: "'a::len word \<Rightarrow> 'a word \<Rightarrow> 'a word" where
  "bitflags_from_bits_truncate all b = b AND all"

lemma and_mask_take_bit [word_to_bits]:
  "(v :: 'a::len word) AND (2 ^ n - 1) = take_bit n v"
  by (simp add: take_bit_eq_mask mask_eq_exp_minus_1)

lemma and_mask_push [word_to_bits]:
  "(v :: 'a::len word) AND (push_bit n 1 - 1) = take_bit n v"
  by (simp add: take_bit_eq_mask mask_eq_exp_minus_1 push_bit_eq_mult)

lemma div_page_drop_bit [word_to_bits]: "(v :: usize) div 4096 = drop_bit 12 v"
  by (simp add: drop_bit_eq_div)

lemma and_4095_take_bit [word_to_bits]: "(v :: usize) AND 4095 = take_bit 12 v"
  using and_mask_take_bit [of v 12] by simp

lemma and_511_take_bit [word_to_bits]: "(v :: usize) AND 511 = take_bit 9 v"
  using and_mask_take_bit [of v 9] by simp

lemma unat_take_bit_less: "n < LENGTH('a) \<Longrightarrow> unat (take_bit n (v :: 'a::len word)) < 2 ^ n"
  by (simp add: unsigned_take_bit_eq take_bit_nat_less_exp)

lemma nat_top_bit: "(2::nat) ^ n \<le> u mod 2 ^ Suc n \<longleftrightarrow> odd (u div 2 ^ n)"
proof -
  have eq: "u mod 2 ^ Suc n = 2 ^ n * (u div 2 ^ n mod 2) + u mod 2 ^ n"
    using mod_mult2_eq [of u "2 ^ n" 2] by (simp only: power_Suc mult.commute)
  have lt: "u mod 2 ^ n < 2 ^ n" by simp
  show ?thesis
  proof (cases "even (u div 2 ^ n)")
    case True
    then have "u div 2 ^ n mod 2 = 0" by (simp only: even_iff_mod_2_eq_zero)
    with lt True show ?thesis unfolding eq by (simp add: not_le)
  next
    case False
    then have "u div 2 ^ n mod 2 = 1" by (simp only: odd_iff_mod_2_eq_one)
    with False show ?thesis unfolding eq by simp
  qed
qed

lemma take_bit_word_self: "unat (v :: 'a::len word) < 2 ^ n \<Longrightarrow> take_bit n v = v"
  by (simp add: word_unat_eq_iff unsigned_take_bit_eq take_bit_nat_eq_self)

lemma unat_lt2p: "unat (a :: 'a::len word) < 2 ^ LENGTH('a)"
  by (rule unsigned_less)

lemma unat_plus_nowrap:
  "unat (a :: 'a::len word) + unat b < 2 ^ LENGTH('a) \<Longrightarrow> unat (a + b) = unat a + unat b"
  by (simp add: unat_word_ariths)

lemma unat_mult_nowrap:
  "unat (a :: 'a::len word) * unat b < 2 ^ LENGTH('a) \<Longrightarrow> unat (a * b) = unat a * unat b"
  by (simp add: unat_word_ariths)

lemma unat_Suc_nowrap: "(a :: 'a::len word) < b \<Longrightarrow> unat (a + 1) = unat a + 1"
proof -
  assume "a < b"
  then have "unat a + 1 \<le> unat b" by (simp add: word_less_nat_alt)
  also have "\<dots> < 2 ^ LENGTH('a)" by (rule unat_lt2p)
  finally have "unat a + unat (1 :: 'a word) < 2 ^ LENGTH('a)" by simp
  then show ?thesis by (simp add: unat_plus_nowrap)
qed

lemma word_less_Suc_iff: "(c :: 'a::len word) \<noteq> - 1 \<Longrightarrow> i < c + 1 \<longleftrightarrow> i < c \<or> i = c"
proof -
  assume "c \<noteq> - 1"
  then have "unat (c + 1) = unat c + 1"
    by (intro unat_Suc_nowrap [of _ "- 1"]) (simp add: word_order.not_eq_extremum)
  then show ?thesis by (auto simp: word_less_nat_alt word_unat_eq_iff)
qed

lemma card_word_lessThan: "card {i :: 'a::len word. i < c} = unat c"
proof -
  have "unat ` {i. i < c} = {..<unat c}"
  proof
    show "{..<unat c} \<subseteq> unat ` {i. i < c}"
    proof
      fix n
      assume "n \<in> {..<unat c}"
      then have "n < 2 ^ LENGTH('a)"
        using unat_lt2p [of c] by (simp only: lessThan_iff)
      then have "unat (of_nat n :: 'a word) = n"
        by (simp add: unat_of_nat)
      with \<open>n \<in> {..<unat c}\<close> show "n \<in> unat ` {i. i < c}"
        by (intro image_eqI [of _ _ "of_nat n"]) (auto simp: word_less_nat_alt)
    qed
  qed (auto simp: word_less_nat_alt)
  then have "card (unat ` {i. i < c}) = unat c" by (simp only: card_lessThan)
  moreover have "inj_on unat {i. i < c}" by (auto intro!: inj_onI simp: word_unat_eq_iff)
  ultimately show ?thesis by (simp only: card_image)
qed

text \<open>A 64-bit word read as signed, and its negation.\<close>

lemma sint_cases:
  "sint (w :: 64 word) = (if unat w < 2 ^ 63 then int (unat w) else int (unat w) - 2 ^ 64)"
proof -
  have u: "uint w = int (unat w)" "0 \<le> uint w" "uint w < 2 ^ 64"
    using uint_lt2p [of w] by simp_all
  have "bit (uint w) 63 \<longleftrightarrow> odd (uint w div 2 ^ 63)" by (simp add: bit_iff_odd)
  also have "\<dots> \<longleftrightarrow> \<not> uint w < 2 ^ 63"
  proof (cases "uint w < 2 ^ 63")
    case True
    with u(2) show ?thesis by (simp add: div_pos_pos_trivial)
  next
    case False
    with u have "uint w div 2 ^ 63 = 1" by (intro int_div_pos_eq [of _ _ _ "uint w - 2 ^ 63"]) auto
    with False show ?thesis by simp
  qed
  finally have b: "bit (uint w) 63 \<longleftrightarrow> \<not> uint w < 2 ^ 63" .
  have "sint w = signed_take_bit 63 (uint w)" by (simp add: sint_uint)
  also have "\<dots> = take_bit (Suc 63) (uint w) - 2 ^ Suc 63 * of_bool (bit (uint w) 63)"
    by (rule signed_take_bit_eq_take_bit_minus)
  also have "take_bit (Suc 63) (uint w) = uint w" using u(2,3) by (intro take_bit_int_eq_self) simp_all
  finally have "sint w = (if uint w < 2 ^ 63 then uint w else uint w - 2 ^ 64)"
    unfolding b by (cases "uint w < 2 ^ 63") simp_all
  moreover have "unat w < 2 ^ 63 \<longleftrightarrow> int (unat w) < int (2 ^ 63)" by (simp only: of_nat_less_iff)
  ultimately show ?thesis by simp
qed

lemma unat_minus_word: "unat (- w :: 64 word) = (if w = 0 then 0 else 2 ^ 64 - unat w)"
proof (cases "w = 0")
  case False
  then have "unat w > 0" "unat w < 2 ^ 64" using unat_lt2p [of w] by (simp_all add: unat_gt_0)
  moreover have "unat (- w) < 2 ^ 64" using unat_lt2p [of "- w"] by simp
  moreover have "(unat (- w) + unat w) mod 2 ^ 64 = 0"
    using unat_word_ariths(1) [of "- w" w] by simp
  then obtain k where "unat (- w) + unat w = 2 ^ 64 * k" by auto
  moreover from calculation have "k = 1" by (cases k; cases "k - 1") auto
  ultimately show ?thesis using False by simp
qed simp

section \<open>Panics and fallible computations\<close>

text \<open>
  A Rust panic stops the kernel (\<open>lang_items.rs\<close> shuts the machine down), so a fallible
  operation of the model returns \<open>Inl\<close> of the reason or \<open>Inr\<close> of its result, and the
  reason is never caught.
\<close>

datatype panic =
    Unwrap_None          \<comment> \<open>\<open>unwrap\<close> on \<open>None\<close> or \<open>Err\<close>\<close>
  | Assert_Failed        \<comment> \<open>\<open>assert!\<close>, \<open>assert_eq!\<close>\<close>
  | Index_Out_Of_Range   \<comment> \<open>slice or \<open>Vec\<close> indexing\<close>
  | Explicit_Panic       \<comment> \<open>\<open>panic!\<close>, \<open>expect\<close>, \<open>todo!\<close>\<close>
  | Borrow_Conflict      \<comment> \<open>\<open>RefCell::borrow_mut\<close> while borrowed\<close>

type_synonym 'a result = "panic + 'a"

definition rbind :: "'e + 'a \<Rightarrow> ('a \<Rightarrow> 'e + 'b) \<Rightarrow> 'e + 'b" where
  "rbind m f = (case m of Inl e \<Rightarrow> Inl e | Inr x \<Rightarrow> f x)"

definition unwrap :: "'a option \<Rightarrow> 'a result" where
  "unwrap x = (case x of None \<Rightarrow> Inl Unwrap_None | Some y \<Rightarrow> Inr y)"

definition rassert :: "bool \<Rightarrow> unit result" where
  "rassert b = (if b then Inr () else Inl Assert_Failed)"

text \<open>\<open>xs[i]\<close> with its bounds check.\<close>

definition index_at :: "'a list \<Rightarrow> nat \<Rightarrow> 'a result" where
  "index_at xs i = (if i < length xs then Inr (xs ! i) else Inl Index_Out_Of_Range)"

text \<open>\<open>xs[i] = v\<close> with its bounds check.\<close>

definition store_at :: "'a list \<Rightarrow> nat \<Rightarrow> 'a \<Rightarrow> 'a list result" where
  "store_at xs i v = (if i < length xs then Inr (xs[i := v]) else Inl Index_Out_Of_Range)"

text \<open>The slice \<open>xs[a..b]\<close>: both \<open>a <= b\<close> and \<open>b <= len\<close> are checked.\<close>

definition slice_at :: "'a list \<Rightarrow> nat \<Rightarrow> nat \<Rightarrow> 'a list result" where
  "slice_at xs a b = (if a \<le> b \<and> b \<le> length xs then Inr (take (b - a) (drop a xs))
                      else Inl Index_Out_Of_Range)"

lemma rbind_simps [simp]:
  "rbind (Inr x) f = f x"
  "rbind (Inl e) f = Inl e"
  by (simp_all add: rbind_def)

lemma rbind_Inr_iff [result_simps]:
  "rbind m f = Inr y \<longleftrightarrow> (\<exists>x. m = Inr x \<and> f x = Inr y)"
  by (cases m) auto

lemma rbind_assoc: "rbind (rbind m f) g = rbind m (\<lambda>x. rbind (f x) g)"
  by (cases m) auto

lemma rbind_cong [fundef_cong]:
  "m = m' \<Longrightarrow> (\<And>x. m' = Inr x \<Longrightarrow> f x = f' x) \<Longrightarrow> rbind m f = rbind m' f'"
  by (cases m') auto

lemma unwrap_simps [simp]: "unwrap (Some x) = Inr x" "unwrap None = Inl Unwrap_None"
  by (simp_all add: unwrap_def)

lemma unwrap_Inr_iff [result_simps]: "unwrap m = Inr x \<longleftrightarrow> m = Some x"
  by (cases m) auto

lemma rassert_simps [simp]: "rassert True = Inr ()" "rassert False = Inl Assert_Failed"
  by (simp_all add: rassert_def)

lemma rassert_Inr_iff [result_simps]: "rassert b = Inr u \<longleftrightarrow> b"
  by (simp add: rassert_def)

lemma index_at_Inr_iff [result_simps]: "index_at xs i = Inr x \<longleftrightarrow> i < length xs \<and> x = xs ! i"
  by (auto simp: index_at_def)

lemma store_at_Inr_iff [result_simps]:
  "store_at xs i v = Inr ys \<longleftrightarrow> i < length xs \<and> ys = xs[i := v]"
  by (auto simp: store_at_def)

lemma slice_at_Inr_iff [result_simps]:
  "slice_at xs a b = Inr ys \<longleftrightarrow> a \<le> b \<and> b \<le> length xs \<and> ys = take (b - a) (drop a xs)"
  by (auto simp: slice_at_def)

text \<open>
  A fallible computation that may also run forever is \<open>'a result option\<close>, \<open>None\<close> standing for
  not returning.
\<close>

definition obind :: "'a result option \<Rightarrow> ('a \<Rightarrow> 'b result option) \<Rightarrow> 'b result option" where
  "obind m f = (case m of None \<Rightarrow> None | Some r \<Rightarrow> (case r of Inl e \<Rightarrow> Some (Inl e) | Inr x \<Rightarrow> f x))"

abbreviation oret :: "'a \<Rightarrow> 'a result option" where
  "oret x \<equiv> Some (Inr x)"

lemma obind_simps [simp]:
  "obind (Some (Inr x)) f = f x"
  "obind (Some (Inl e)) f = Some (Inl e)"
  "obind None f = None"
  by (simp_all add: obind_def)

lemma obind_Inr_iff [result_simps]:
  "obind m f = Some (Inr y) \<longleftrightarrow> (\<exists>x. m = Some (Inr x) \<and> f x = Some (Inr y))"
  by (auto simp: obind_def split: option.splits sum.splits)

text \<open>Elimination rules, for sequences whose steps are analysed by cases.\<close>

lemma obindE:
  assumes "obind m f = Some (Inr y)"
  obtains x where "m = Some (Inr x)" "f x = Some (Inr y)"
  using assms by (auto simp: obind_Inr_iff)

lemma rbindE:
  assumes "rbind m f = Inr y"
  obtains x where "m = Inr x" "f x = Inr y"
  using assms by (auto simp: rbind_Inr_iff)

text \<open>A \<open>for\<close> loop over a list whose body may panic.\<close>

fun rfold :: "('a \<Rightarrow> 's \<Rightarrow> 'e + 's) \<Rightarrow> 'a list \<Rightarrow> 's \<Rightarrow> 'e + 's" where
  "rfold f [] s = Inr s"
| "rfold f (x # xs) s = rbind (f x s) (rfold f xs)"

lemma rfold_append: "rfold f (xs @ ys) s = rbind (rfold f xs s) (rfold f ys)"
  by (induction xs arbitrary: s) (simp_all add: rbind_assoc cong: rbind_cong)

text \<open>The invariant rule for such a loop.\<close>

lemma rfold_inv:
  assumes "rfold f xs s = Inr t" and "I s"
    and "\<And>x s s'. x \<in> set xs \<Longrightarrow> I s \<Longrightarrow> f x s = Inr s' \<Longrightarrow> I s'"
  shows "I t"
  using assms
proof (induction xs arbitrary: s)
  case Nil
  then show ?case by simp
next
  case (Cons x xs)
  from Cons.prems(1) obtain s' where s': "f x s = Inr s'" "rfold f xs s' = Inr t"
    by (auto simp: result_simps)
  show ?case
    by (rule Cons.IH [OF s'(2)]) (use Cons.prems s'(1) in auto)
qed

text \<open>The invariant rule that also tracks the elements already processed.\<close>

lemma rfold_inv_prefix:
  assumes "rfold f xs s = Inr t" and "I [] s"
    and "\<And>x ys zs s s'. xs = ys @ x # zs \<Longrightarrow> I ys s \<Longrightarrow> f x s = Inr s' \<Longrightarrow> I (ys @ [x]) s'"
  shows "I xs t"
proof -
  have "I (ys @ xs') t" if "rfold f xs' s = Inr t" "I ys s" "xs = ys @ xs'" for xs' ys s
    using that
  proof (induction xs' arbitrary: ys s)
    case Nil
    then show ?case by simp
  next
    case (Cons x xs')
    from Cons.prems(1) obtain s' where s': "f x s = Inr s'" "rfold f xs' s' = Inr t"
      by (auto simp: result_simps)
    from assms(3) [OF Cons.prems(3,2) s'(1)] have "I (ys @ [x]) s'" .
    from Cons.IH [OF s'(2) this] Cons.prems(3) show ?case by simp
  qed
  from this [OF assms(1) assms(2)] show ?thesis by simp
qed

section \<open>Slots and positions in vectors\<close>

text \<open>
  \<open>iter().position(|x| p(x))\<close>, \<open>iter().enumerate().find(...)\<close> and
  \<open>(0..v.len()).find(...)\<close>: the first index whose element satisfies the predicate.
\<close>

fun position :: "('a \<Rightarrow> bool) \<Rightarrow> 'a list \<Rightarrow> nat option" where
  "position p [] = None"
| "position p (x # xs) = (if p x then Some 0 else map_option Suc (position p xs))"

lemma position_None_iff: "position p xs = None \<longleftrightarrow> (\<forall>x \<in> set xs. \<not> p x)"
  by (induction xs) auto

lemma position_SomeD:
  "position p xs = Some i \<Longrightarrow> i < length xs \<and> p (xs ! i) \<and> (\<forall>j < i. \<not> p (xs ! j))"
proof (induction xs arbitrary: i)
  case Nil
  then show ?case by simp
next
  case (Cons x xs)
  then show ?case
    by (cases i) (auto split: if_splits simp: less_Suc_eq_0_disj)
qed

lemma position_Some_iff:
  "position p xs = Some i \<longleftrightarrow> i < length xs \<and> p (xs ! i) \<and> (\<forall>j < i. \<not> p (xs ! j))"
proof
  assume r: "i < length xs \<and> p (xs ! i) \<and> (\<forall>j < i. \<not> p (xs ! j))"
  then have "position p xs \<noteq> None" by (auto simp: position_None_iff)
  then obtain k where k: "position p xs = Some k" by auto
  from position_SomeD [OF k] r have "k = i" by (metis linorder_neqE_nat)
  with k show "position p xs = Some i" by simp
qed (rule position_SomeD)

text \<open>\<open>Vec::remove(i)\<close>.\<close>

definition remove_nth :: "nat \<Rightarrow> 'a list \<Rightarrow> 'a list" where
  "remove_nth i xs = take i xs @ drop (Suc i) xs"

lemma length_remove_nth [simp]: "i < length xs \<Longrightarrow> length (remove_nth i xs) = length xs - 1"
  by (simp add: remove_nth_def)

lemma set_remove_nth_subset: "set (remove_nth i xs) \<subseteq> set xs"
  using set_take_subset [of i xs] set_drop_subset [of "Suc i" xs] by (auto simp: remove_nth_def)

lemma list_split_at: "i < length xs \<Longrightarrow> xs = take i xs @ xs ! i # drop (Suc i) xs"
  by (simp add: id_take_nth_drop)

lemma map_remove1_inj: "inj f \<Longrightarrow> map f (remove1 x xs) = remove1 (f x) (map f xs)"
  by (induction xs) (simp_all add: inj_eq)

end
