(* ===== verification/Address.thy ===== *)
theory Address
  imports Kernel_Prelude
begin

text \<open>
  Addresses and page numbers: \<open>os/src/mm/address.rs\<close>, with the constants of
  \<open>os/src/hal/arch/riscv/config.rs\<close>. The four newtypes keep the source's constructors;
  their derived order is the order of the wrapped \<open>usize\<close>. The lemmas give the page
  arithmetic in terms of \<open>take_bit\<close>/\<open>drop_bit\<close>, the uniqueness of the three page-table
  indexes, the sign extension of the 39-bit virtual addresses, and the page sequence a
  \<open>VPNRange\<close> iterates over.
\<close>

section \<open>Constants\<close>

definition PAGE_SIZE :: usize where "PAGE_SIZE = 0x1000"
definition PAGE_SIZE_BITS :: nat where "PAGE_SIZE_BITS = 0xc"
definition USER_STACK_SIZE :: usize where "USER_STACK_SIZE = PAGE_SIZE * 2"
definition KERNEL_STACK_SIZE :: usize where "KERNEL_STACK_SIZE = PAGE_SIZE * 2"
definition TRAMPOLINE :: usize where "TRAMPOLINE = (- 1) - PAGE_SIZE + 1"
definition TRAP_CONTEXT_BASE :: usize where "TRAP_CONTEXT_BASE = TRAMPOLINE - PAGE_SIZE"
definition MEMORY_END :: usize where "MEMORY_END = 0x88000000"
definition UserStackBase :: usize where
  "UserStackBase = TRAP_CONTEXT_BASE - 8 * (PAGE_SIZE + USER_STACK_SIZE)"

definition PA_WIDTH_SV39 :: nat where "PA_WIDTH_SV39 = 56"
definition VA_WIDTH_SV39 :: nat where "VA_WIDTH_SV39 = 39"
definition PPN_WIDTH_SV39 :: nat where "PPN_WIDTH_SV39 = PA_WIDTH_SV39 - PAGE_SIZE_BITS"
definition VPN_WIDTH_SV39 :: nat where "VPN_WIDTH_SV39 = VA_WIDTH_SV39 - PAGE_SIZE_BITS"

lemmas config_defs =
  PAGE_SIZE_def PAGE_SIZE_BITS_def USER_STACK_SIZE_def KERNEL_STACK_SIZE_def TRAMPOLINE_def
  TRAP_CONTEXT_BASE_def MEMORY_END_def UserStackBase_def
  PA_WIDTH_SV39_def VA_WIDTH_SV39_def PPN_WIDTH_SV39_def VPN_WIDTH_SV39_def

section \<open>The newtypes and their order\<close>

datatype PhysAddr = PhysAddr (pa0: usize)
datatype VirtAddr = VirtAddr (va0: usize)
datatype PhysPageNum = PhysPageNum (ppn0: usize)
datatype VirtPageNum = VirtPageNum (vpn0: usize)

instantiation PhysAddr :: linorder
begin
definition less_eq_PhysAddr :: "PhysAddr \<Rightarrow> PhysAddr \<Rightarrow> bool" where
  "a \<le> b \<longleftrightarrow> pa0 a \<le> pa0 b"
definition less_PhysAddr :: "PhysAddr \<Rightarrow> PhysAddr \<Rightarrow> bool" where
  "a < b \<longleftrightarrow> pa0 a < pa0 b"
instance
  by standard (auto simp: less_eq_PhysAddr_def less_PhysAddr_def PhysAddr.expand)
end

instantiation VirtAddr :: linorder
begin
definition less_eq_VirtAddr :: "VirtAddr \<Rightarrow> VirtAddr \<Rightarrow> bool" where
  "a \<le> b \<longleftrightarrow> va0 a \<le> va0 b"
definition less_VirtAddr :: "VirtAddr \<Rightarrow> VirtAddr \<Rightarrow> bool" where
  "a < b \<longleftrightarrow> va0 a < va0 b"
instance
  by standard (auto simp: less_eq_VirtAddr_def less_VirtAddr_def VirtAddr.expand)
end

instantiation PhysPageNum :: linorder
begin
definition less_eq_PhysPageNum :: "PhysPageNum \<Rightarrow> PhysPageNum \<Rightarrow> bool" where
  "a \<le> b \<longleftrightarrow> ppn0 a \<le> ppn0 b"
definition less_PhysPageNum :: "PhysPageNum \<Rightarrow> PhysPageNum \<Rightarrow> bool" where
  "a < b \<longleftrightarrow> ppn0 a < ppn0 b"
instance
  by standard (auto simp: less_eq_PhysPageNum_def less_PhysPageNum_def PhysPageNum.expand)
end

instantiation VirtPageNum :: linorder
begin
definition less_eq_VirtPageNum :: "VirtPageNum \<Rightarrow> VirtPageNum \<Rightarrow> bool" where
  "a \<le> b \<longleftrightarrow> vpn0 a \<le> vpn0 b"
definition less_VirtPageNum :: "VirtPageNum \<Rightarrow> VirtPageNum \<Rightarrow> bool" where
  "a < b \<longleftrightarrow> vpn0 a < vpn0 b"
instance
  by standard (auto simp: less_eq_VirtPageNum_def less_VirtPageNum_def VirtPageNum.expand)
end

lemmas newtype_order =
  less_eq_PhysAddr_def less_PhysAddr_def less_eq_VirtAddr_def less_VirtAddr_def
  less_eq_PhysPageNum_def less_PhysPageNum_def less_eq_VirtPageNum_def less_VirtPageNum_def

lemma newtype_conv:
  "a = PhysAddr v \<longleftrightarrow> pa0 a = v"
  "b = VirtAddr v \<longleftrightarrow> va0 b = v"
  "p = PhysPageNum v \<longleftrightarrow> ppn0 p = v"
  "q = VirtPageNum v \<longleftrightarrow> vpn0 q = v"
  by (cases a, simp, cases b, simp, cases p, simp, cases q, simp)

section \<open>Conversions\<close>

text \<open>\<open>impl From<usize> for T\<close>: mask to the width of \<open>T\<close>.\<close>

definition PhysAddr_from :: "usize \<Rightarrow> PhysAddr" where
  "PhysAddr_from v = PhysAddr (v AND (push_bit PA_WIDTH_SV39 1 - 1))"

definition PhysPageNum_from :: "usize \<Rightarrow> PhysPageNum" where
  "PhysPageNum_from v = PhysPageNum (v AND (push_bit PPN_WIDTH_SV39 1 - 1))"

definition VirtAddr_from :: "usize \<Rightarrow> VirtAddr" where
  "VirtAddr_from v = VirtAddr (v AND (push_bit VA_WIDTH_SV39 1 - 1))"

definition VirtPageNum_from :: "usize \<Rightarrow> VirtPageNum" where
  "VirtPageNum_from v = VirtPageNum (v AND (push_bit VPN_WIDTH_SV39 1 - 1))"

text \<open>\<open>impl From<T> for usize\<close>; only \<open>VirtAddr\<close> does more than unwrap.\<close>

definition usize_from_PhysAddr :: "PhysAddr \<Rightarrow> usize" where
  "usize_from_PhysAddr v = pa0 v"

definition usize_from_PhysPageNum :: "PhysPageNum \<Rightarrow> usize" where
  "usize_from_PhysPageNum v = ppn0 v"

definition usize_from_VirtAddr :: "VirtAddr \<Rightarrow> usize" where
  "usize_from_VirtAddr v =
     (if va0 v \<ge> push_bit (VA_WIDTH_SV39 - 1) 1
      then va0 v OR NOT (push_bit VA_WIDTH_SV39 1 - 1)
      else va0 v)"

definition usize_from_VirtPageNum :: "VirtPageNum \<Rightarrow> usize" where
  "usize_from_VirtPageNum v = vpn0 v"

section \<open>Methods of \<open>VirtAddr\<close> and \<open>PhysAddr\<close>\<close>

definition VirtAddr_floor :: "VirtAddr \<Rightarrow> VirtPageNum" where
  "VirtAddr_floor a = VirtPageNum (va0 a div PAGE_SIZE)"

definition VirtAddr_ceil :: "VirtAddr \<Rightarrow> VirtPageNum" where
  "VirtAddr_ceil a =
     (if va0 a = 0 then VirtPageNum 0 else VirtPageNum ((va0 a - 1 + PAGE_SIZE) div PAGE_SIZE))"

definition VirtAddr_page_offset :: "VirtAddr \<Rightarrow> usize" where
  "VirtAddr_page_offset a = va0 a AND (PAGE_SIZE - 1)"

definition VirtAddr_aligned :: "VirtAddr \<Rightarrow> bool" where
  "VirtAddr_aligned a \<longleftrightarrow> VirtAddr_page_offset a = 0"

definition VirtPageNum_from_VirtAddr :: "VirtAddr \<Rightarrow> VirtPageNum result" where
  "VirtPageNum_from_VirtAddr v =
     rbind (rassert (VirtAddr_page_offset v = 0)) (\<lambda>_. Inr (VirtAddr_floor v))"

definition VirtAddr_from_VirtPageNum :: "VirtPageNum \<Rightarrow> VirtAddr" where
  "VirtAddr_from_VirtPageNum v = VirtAddr (push_bit PAGE_SIZE_BITS (vpn0 v))"

definition PhysAddr_floor :: "PhysAddr \<Rightarrow> PhysPageNum" where
  "PhysAddr_floor a = PhysPageNum (pa0 a div PAGE_SIZE)"

definition PhysAddr_ceil :: "PhysAddr \<Rightarrow> PhysPageNum" where
  "PhysAddr_ceil a =
     (if pa0 a = 0 then PhysPageNum 0 else PhysPageNum ((pa0 a - 1 + PAGE_SIZE) div PAGE_SIZE))"

definition PhysAddr_page_offset :: "PhysAddr \<Rightarrow> usize" where
  "PhysAddr_page_offset a = pa0 a AND (PAGE_SIZE - 1)"

definition PhysAddr_aligned :: "PhysAddr \<Rightarrow> bool" where
  "PhysAddr_aligned a \<longleftrightarrow> PhysAddr_page_offset a = 0"

definition PhysPageNum_from_PhysAddr :: "PhysAddr \<Rightarrow> PhysPageNum result" where
  "PhysPageNum_from_PhysAddr v =
     rbind (rassert (PhysAddr_page_offset v = 0)) (\<lambda>_. Inr (PhysAddr_floor v))"

definition PhysAddr_from_PhysPageNum :: "PhysPageNum \<Rightarrow> PhysAddr" where
  "PhysAddr_from_PhysPageNum v = PhysAddr (push_bit PAGE_SIZE_BITS (ppn0 v))"

section \<open>The page-table indexes of a virtual page number\<close>

text \<open>\<open>for i in (0..3).rev() { idx[i] = vpn & 511; vpn >>= 9; }\<close>\<close>

definition indexes :: "VirtPageNum \<Rightarrow> usize list" where
  "indexes v =
     fst (fold (\<lambda>i (idx, vpn). (idx[i := vpn AND 511], drop_bit 9 vpn)) (rev [0..<3])
            ([0, 0, 0], vpn0 v))"

section \<open>Ranges of page numbers\<close>

definition VirtPageNum_step :: "VirtPageNum \<Rightarrow> VirtPageNum" where
  "VirtPageNum_step v = VirtPageNum (vpn0 v + 1)"

definition PhysPageNum_step :: "PhysPageNum \<Rightarrow> PhysPageNum" where
  "PhysPageNum_step v = PhysPageNum (ppn0 v + 1)"

record VPNRange =
  range_l :: VirtPageNum
  range_r :: VirtPageNum

definition SimpleRange_new :: "VirtPageNum \<Rightarrow> VirtPageNum \<Rightarrow> VPNRange result" where
  "SimpleRange_new start end' =
     rbind (rassert (start \<le> end')) (\<lambda>_. Inr \<lparr>range_l = start, range_r = end'\<rparr>)"

text \<open>\<open>SimpleRangeIterator::next\<close>: the item produced and the iterator advanced.\<close>

record SimpleRangeIterator =
  it_current :: VirtPageNum
  it_end :: VirtPageNum

definition SimpleRangeIterator_next ::
  "SimpleRangeIterator \<Rightarrow> VirtPageNum option \<times> SimpleRangeIterator" where
  "SimpleRangeIterator_next it =
     (if it_current it = it_end it then (None, it)
      else (Some (it_current it), it\<lparr>it_current := VirtPageNum_step (it_current it)\<rparr>))"

text \<open>
  \<open>for vpn in range\<close>: the items \<open>next\<close> yields until it returns \<open>None\<close>. The distance to
  the end, as a wrapping difference, decreases, so the loop ends for every pair of bounds.
\<close>

function iterate_range :: "SimpleRangeIterator \<Rightarrow> VirtPageNum list" where
  "iterate_range it =
     (case SimpleRangeIterator_next it of
        (None, _) \<Rightarrow> []
      | (Some v, it') \<Rightarrow> v # iterate_range it')"
  by pat_completeness auto
termination
proof (relation "measure (\<lambda>it. unat (vpn0 (it_end it) - vpn0 (it_current it)))", goal_cases)
  case 1
  show ?case by simp
next
  case (2 it p it' v)
  then have ne: "it_current it \<noteq> it_end it"
    and it': "it' = it\<lparr>it_current := VirtPageNum_step (it_current it)\<rparr>"
    by (auto simp: SimpleRangeIterator_next_def split: if_splits)
  from ne have "vpn0 (it_end it) - vpn0 (it_current it) \<noteq> 0"
    by (metis VirtPageNum.expand eq_iff_diff_eq_0)
  then have "unat (vpn0 (it_end it) - vpn0 (it_current it) - 1)
      < unat (vpn0 (it_end it) - vpn0 (it_current it))"
    by (simp add: unat_minus_one unat_gt_0)
  then show ?case
    by (simp add: it' VirtPageNum_step_def diff_diff_eq)
qed

declare iterate_range.simps [simp del]

definition vpns_of :: "VPNRange \<Rightarrow> VirtPageNum list" where
  "vpns_of r = iterate_range \<lparr>it_current = range_l r, it_end = range_r r\<rparr>"

definition align_up :: "usize \<Rightarrow> usize \<Rightarrow> usize" where
  "align_up addr align = (addr + align - 1) AND NOT (align - 1)"

section \<open>The arithmetic in terms of bits\<close>

lemma from_take_bit [word_to_bits]:
  "PhysAddr_from v = PhysAddr (take_bit 56 v)"
  "PhysPageNum_from v = PhysPageNum (take_bit 44 v)"
  "VirtAddr_from v = VirtAddr (take_bit 39 v)"
  "VirtPageNum_from v = VirtPageNum (take_bit 27 v)"
  by (simp_all only: PhysAddr_from_def PhysPageNum_from_def VirtAddr_from_def
        VirtPageNum_from_def and_mask_push) (simp_all add: config_defs)

lemma offset_take_bit [word_to_bits]:
  "VirtAddr_page_offset a = take_bit 12 (va0 a)"
  "PhysAddr_page_offset b = take_bit 12 (pa0 b)"
  using and_4095_take_bit
  by (simp_all add: VirtAddr_page_offset_def PhysAddr_page_offset_def config_defs)

lemma floor_drop_bit [word_to_bits]:
  "VirtAddr_floor a = VirtPageNum (drop_bit 12 (va0 a))"
  "PhysAddr_floor b = PhysPageNum (drop_bit 12 (pa0 b))"
  by (simp_all add: VirtAddr_floor_def PhysAddr_floor_def config_defs div_page_drop_bit)

lemma from_vpn_push_bit [word_to_bits]:
  "VirtAddr_from_VirtPageNum v = VirtAddr (push_bit 12 (vpn0 v))"
  "PhysAddr_from_PhysPageNum w = PhysAddr (push_bit 12 (ppn0 w))"
  by (simp_all add: VirtAddr_from_VirtPageNum_def PhysAddr_from_PhysPageNum_def config_defs)

lemma PhysPageNum_from_id [simp]: "unat v < 2 ^ 44 \<Longrightarrow> PhysPageNum_from v = PhysPageNum v"
  by (simp add: from_take_bit take_bit_word_self)

lemma unat_floor: "unat (vpn0 (VirtAddr_floor a)) = unat (va0 a) div 4096"
  by (simp add: VirtAddr_floor_def config_defs unat_div)

lemma unat_ceil:
  assumes "unat (va0 a) \<le> 2 ^ 64 - 4096"
  shows "unat (vpn0 (VirtAddr_ceil a)) = (unat (va0 a) + 4095) div 4096"
proof (cases "va0 a = 0")
  case True
  then show ?thesis by (simp add: VirtAddr_ceil_def)
next
  case False
  then have "unat (va0 a - 1) = unat (va0 a) - 1" and "0 < unat (va0 a)"
    by (simp_all add: unat_minus_one unat_gt_0)
  moreover from this assms have "unat (va0 a - 1 + 4096) = unat (va0 a) - 1 + 4096"
    by (subst unat_plus_nowrap) simp_all
  ultimately have "unat (va0 a - 1 + 4096) = unat (va0 a) + 4095"
    by simp
  with False show ?thesis
    by (simp add: VirtAddr_ceil_def config_defs unat_div)
qed

section \<open>The three page-table indexes determine the page number\<close>

lemma indexes_eq:
  "indexes v = [take_bit 9 (drop_bit 18 (vpn0 v)), take_bit 9 (drop_bit 9 (vpn0 v)),
     take_bit 9 (vpn0 v)]"
  by (simp add: indexes_def and_511_take_bit numeral_3_eq_3)

lemma indexes_less: "i \<in> set (indexes v) \<Longrightarrow> unat i < 512"
  using unat_take_bit_less [of 9, where 'a = 64] by (auto simp: indexes_eq)

lemma vpn_from_indexes:
  assumes "unat (vpn0 v) < 2 ^ 27"
  shows "vpn0 v = push_bit 18 (indexes v ! 0) OR push_bit 9 (indexes v ! 1) OR indexes v ! 2"
proof -
  have "vpn0 v = take_bit 27 (vpn0 v)" using assms by (simp add: take_bit_word_self)
  then have high: "bit (vpn0 v) n \<Longrightarrow> n < 27" for n by (metis bit_take_bit_iff)
  show ?thesis
  proof (rule bit_word_eqI)
    fix n :: nat
    consider "n < 9" | "9 \<le> n" "n < 18" | "18 \<le> n" "n < 27" | "27 \<le> n" by linarith
    then show "bit (vpn0 v) n
        = bit (push_bit 18 (indexes v ! 0) OR push_bit 9 (indexes v ! 1) OR indexes v ! 2) n"
      by cases (use high [of n] in \<open>auto simp: indexes_eq bit_simps\<close>)
  qed
qed

lemma indexes_inj:
  assumes "unat (vpn0 v) < 2 ^ 27" and "unat (vpn0 w) < 2 ^ 27"
  shows "indexes v = indexes w \<longleftrightarrow> v = w"
  using vpn_from_indexes [OF assms(1)] vpn_from_indexes [OF assms(2)]
  by (metis VirtPageNum.expand)

text \<open>
  Round trip of the index split: the three indexes of a 27-bit page number are below 512,
  determine the page number, and two page numbers share all three only if they are equal.
\<close>

lemma indexes_roundtrip:
  assumes "unat (vpn0 v) < 2 ^ 27" and "unat (vpn0 w) < 2 ^ 27"
  shows "(\<forall>i \<in> set (indexes v). unat i < 512)
    \<and> vpn0 v = push_bit 18 (indexes v ! 0) OR push_bit 9 (indexes v ! 1) OR indexes v ! 2
    \<and> (indexes v = indexes w \<longleftrightarrow> v = w)"
  using vpn_from_indexes [OF assms(1)] indexes_inj [OF assms] indexes_less by simp

lemma indexes_roundtrip_witness:
  "indexes (VirtPageNum 0x80200) \<noteq> indexes (VirtPageNum 0x80201)"
  using indexes_roundtrip [of "VirtPageNum 0x80200" "VirtPageNum 0x80201"] by simp

section \<open>Sign extension of virtual addresses\<close>

lemma sign_bit_ge:
  "push_bit 38 1 \<le> take_bit 39 (x :: usize) \<longleftrightarrow> bit x 38"
proof -
  have "bit (unat x) 38 \<longleftrightarrow> bit x 38" by (simp add: bit_unsigned_iff)
  then have "bit x 38 \<longleftrightarrow> odd (unat x div 2 ^ 38)"
    by (simp only: bit_iff_odd)
  moreover have "unat (take_bit 39 x) = unat x mod 2 ^ Suc 38"
    by (simp only: unsigned_take_bit_eq take_bit_nat_def) simp
  moreover have "unat (push_bit 38 1 :: usize) = 2 ^ 38" by simp
  ultimately show ?thesis by (simp only: word_le_nat_alt nat_top_bit)
qed

lemma sign_extend_bits:
  "(if bit x 38 then take_bit 39 x OR NOT (mask 39) else take_bit 39 x)
     = signed_take_bit 38 (x :: usize)"
proof (rule bit_word_eqI)
  fix n :: nat
  assume n: "n < LENGTH(64)"
  have "n < 39 \<longleftrightarrow> n < 38 \<or> n = 38" by linarith
  then show "bit (if bit x 38 then take_bit 39 x OR NOT (mask 39) else take_bit 39 x) n
      = bit (signed_take_bit 38 x) n"
    using n
    by (cases "n = 38")
      (simp_all add: signed_take_bit_def bit_or_iff bit_take_bit_iff bit_not_iff bit_mask_iff)
qed

lemma usize_from_VirtAddr_from:
  "usize_from_VirtAddr (VirtAddr_from x) = signed_take_bit 38 x"
proof -
  have "push_bit 39 1 - 1 = (mask 39 :: usize)" by (simp add: mask_eq_exp_minus_1)
  then show ?thesis
    using sign_bit_ge [of x] sign_extend_bits [of x]
    by (simp only: usize_from_VirtAddr_def from_take_bit VA_WIDTH_SV39_def VirtAddr.sel) simp
qed

text \<open>
  A virtual page number obtained from an address names the page of that address: the address
  is the page base plus the page offset.
\<close>

lemma floor_offset_decomp:
  "va0 a = va0 (VirtAddr_from_VirtPageNum (VirtAddr_floor a)) + VirtAddr_page_offset a"
proof -
  have "va0 a = push_bit 12 (drop_bit 12 (va0 a)) + take_bit 12 (va0 a)"
    by (rule bits_ident [symmetric])
  then show ?thesis by (simp only: word_to_bits VirtAddr.sel VirtPageNum.sel)
qed

section \<open>The pages a range iterates over\<close>

lemma iterate_range_step:
  "iterate_range \<lparr>it_current = l, it_end = r\<rparr> =
     (if l = r then [] else l # iterate_range \<lparr>it_current = VirtPageNum_step l, it_end = r\<rparr>)"
  by (subst iterate_range.simps) (simp add: SimpleRangeIterator_next_def)

lemma unat_step:
  "l < r \<Longrightarrow> unat (vpn0 (VirtPageNum_step l)) = Suc (unat (vpn0 l))"
  by (simp add: VirtPageNum_step_def less_VirtPageNum_def word_less_nat_alt unat_Suc_nowrap)

lemma iterate_range_map:
  "l \<le> r \<Longrightarrow> map (unat \<circ> vpn0) (iterate_range \<lparr>it_current = l, it_end = r\<rparr>)
     = [unat (vpn0 l)..<unat (vpn0 r)]"
proof (induction "unat (vpn0 r) - unat (vpn0 l)" arbitrary: l)
  case 0
  then have "l = r"
    by (simp add: newtype_order word_le_nat_alt VirtPageNum.expand word_unat_eq_iff)
  then show ?case by (subst iterate_range_step) simp
next
  case (Suc n)
  then have lt: "l < r" by (auto simp: newtype_order word_less_nat_alt)
  then have lt': "unat (vpn0 l) < unat (vpn0 r)" by (simp add: newtype_order word_less_nat_alt)
  have "VirtPageNum_step l \<le> r"
    using lt' by (simp add: less_eq_VirtPageNum_def word_le_nat_alt unat_step [OF lt])
  moreover have "n = unat (vpn0 r) - unat (vpn0 (VirtPageNum_step l))"
    using Suc.hyps(2) by (simp add: unat_step [OF lt])
  ultimately have "map (unat \<circ> vpn0) (iterate_range \<lparr>it_current = VirtPageNum_step l, it_end = r\<rparr>)
      = [Suc (unat (vpn0 l))..<unat (vpn0 r)]"
    using Suc.hyps(1) by (simp add: unat_step [OF lt])
  then show ?case
    using lt lt' by (subst iterate_range_step) (simp add: upt_conv_Cons)
qed

lemma vpns_of_map:
  "range_l r \<le> range_r r \<Longrightarrow>
     map (unat \<circ> vpn0) (vpns_of r) = [unat (vpn0 (range_l r))..<unat (vpn0 (range_r r))]"
  by (simp add: vpns_of_def iterate_range_map)

lemma vpns_of_distinct: "range_l r \<le> range_r r \<Longrightarrow> distinct (vpns_of r)"
  using vpns_of_map [of r] by (metis distinct_map distinct_upt)

lemma vpns_of_set:
  assumes "range_l r \<le> range_r r"
  shows "set (vpns_of r) = {v. range_l r \<le> v \<and> v < range_r r}"
proof -
  have inj: "inj (unat \<circ> vpn0)"
    by (auto intro!: injI simp: VirtPageNum.expand word_unat_eq_iff)
  have "(unat \<circ> vpn0) ` set (vpns_of r) = {unat (vpn0 (range_l r))..<unat (vpn0 (range_r r))}"
    using vpns_of_map [OF assms] by (metis set_map set_upt)
  then have "v \<in> set (vpns_of r) \<longleftrightarrow>
      (unat \<circ> vpn0) v \<in> {unat (vpn0 (range_l r))..<unat (vpn0 (range_r r))}" for v
    by (metis inj inj_image_mem_iff)
  then show ?thesis by (auto simp: newtype_order word_le_nat_alt word_less_nat_alt)
qed

lemma vpns_of_length:
  "range_l r \<le> range_r r \<Longrightarrow>
     length (vpns_of r) = unat (vpn0 (range_r r)) - unat (vpn0 (range_l r))"
  using vpns_of_map [of r] by (metis length_map length_upt)

text \<open>A page-aligned round-up: the least multiple of the page size not below the address.\<close>

lemma align_up_page:
  assumes "unat a + 4095 < 2 ^ 64"
  shows "unat (align_up a PAGE_SIZE) = (unat a + 4095) div 4096 * 4096"
proof -
  have "align_up a PAGE_SIZE = (a + 4095) AND NOT (mask 12)"
    by (simp add: align_up_def config_defs mask_eq_exp_minus_1 add.commute)
  also have "\<dots> = push_bit 12 (drop_bit 12 (a + 4095))"
    by (rule bit_word_eqI) (auto simp: bit_simps)
  also have "\<dots> = (a + 4095) div 4096 * 4096"
    by (simp add: push_bit_eq_mult drop_bit_eq_div)
  finally have eq: "align_up a PAGE_SIZE = (a + 4095) div 4096 * 4096" .
  have q: "unat ((a + 4095) div 4096) = (unat a + 4095) div 4096"
    using assms by (subst unat_div) (simp add: unat_plus_nowrap)
  moreover have "(unat a + 4095) div 4096 * 4096 < 2 ^ 64"
    using assms div_times_less_eq_dividend [of "unat a + 4095" 4096] by linarith
  ultimately show ?thesis
    unfolding eq by (subst unat_mult_nowrap) simp_all
qed
end
