(* ===== verification/Id_Allocator.thy ===== *)
theory Id_Allocator
  imports Address
begin

text \<open>
  The recycling identifier allocator that hands out process ids, thread ids and kernel-stack
  ids (\<open>RecycleAllocator\<close> of \<open>os/src/task/pid.rs\<close>, and its copy in
  \<open>os/src/hal/arch/riscv/kernel_stack.rs\<close>), with the address layouts computed from those
  ids. The locale \<open>allocator\<close> is the contract an allocator offers its clients, who hold
  handles and drop each of them once; it is also interpreted by the frame allocator.
\<close>

section \<open>The contract of an allocator\<close>

text \<open>
  A client's history: it asks for an identifier, and holds it until it drops it. The state is
  the allocator's with the list of identifiers held. A history step does not exist where the
  allocator panics, so that a lemma saying that every drop of a held handle is a step says
  that it does not panic.
\<close>

inductive client_step ::
  "('s \<Rightarrow> ('i \<times> 's) option) \<Rightarrow> ('s \<Rightarrow> 'i \<Rightarrow> 's result) \<Rightarrow> 's \<times> 'i list \<Rightarrow> 's \<times> 'i list \<Rightarrow> bool"
  for alloc dealloc
where
  Take: "alloc s = Some (i, s') \<Longrightarrow> client_step alloc dealloc (s, hs) (s', i # hs)"
| Drop: "i \<in> set hs \<Longrightarrow> dealloc s i = Inr s' \<Longrightarrow>
     client_step alloc dealloc (s, hs) (s', remove1 i hs)"

locale allocator =
  fixes invar :: "'s \<Rightarrow> bool"
    and live :: "'s \<Rightarrow> 'i set"
    and room :: "'s \<Rightarrow> bool"
    and alloc :: "'s \<Rightarrow> ('i \<times> 's) option"
    and dealloc :: "'s \<Rightarrow> 'i \<Rightarrow> 's result"
  assumes alloc_room: "invar s \<Longrightarrow> room s \<Longrightarrow> alloc s \<noteq> None"
    and alloc_fresh: "invar s \<Longrightarrow> room s \<Longrightarrow> alloc s = Some (i, s') \<Longrightarrow>
          i \<notin> live s \<and> live s' = insert i (live s) \<and> invar s'"
    and dealloc_live: "invar s \<Longrightarrow> i \<in> live s \<Longrightarrow>
          \<exists>s'. dealloc s i = Inr s' \<and> live s' = live s - {i} \<and> invar s' \<and> room s'"
begin

text \<open>The handles a client holds are exactly the live identifiers, each held once.\<close>

definition held :: "'s \<times> 'i list \<Rightarrow> bool" where
  "held = (\<lambda>(s, hs). invar s \<and> distinct hs \<and> set hs = live s)"

lemma held_step:
  assumes "client_step alloc dealloc (s, hs) (s', hs')" and "held (s, hs)" and "room s"
  shows "held (s', hs')"
  using assms(1)
proof (cases rule: client_step.cases)
  case (Take i)
  then show ?thesis
    using alloc_fresh [of s i s'] assms(2,3) by (auto simp: held_def)
next
  case (Drop i)
  then show ?thesis
    using dealloc_live [of s i] assms(2) by (auto simp: held_def)
qed

lemma held_run:
  assumes "(\<lambda>x y. client_step alloc dealloc x y \<and> room (fst x))\<^sup>*\<^sup>* x y" and "held x"
  shows "held y"
  using assms
proof (induction rule: rtranclp_induct)
  case (step y z)
  then show ?case by (cases y, cases z) (auto intro: held_step)
qed simp

text \<open>Dropping a held handle does not panic, and the next request is then served.\<close>

lemma drop_ok:
  assumes "held (s, hs)" and "i \<in> set hs"
  shows "\<exists>s'. dealloc s i = Inr s' \<and> held (s', remove1 i hs) \<and> alloc s' \<noteq> None"
proof -
  obtain s' where "dealloc s i = Inr s'" "live s' = live s - {i}" "invar s'" "room s'"
    using assms dealloc_live [of s i] by (auto simp: held_def)
  then show ?thesis
    using assms alloc_room [of s'] by (auto simp: held_def)
qed

end

text \<open>An allocator that also detects the release of an identifier that is not live.\<close>

locale checked_allocator = allocator +
  assumes dealloc_dead: "invar s \<Longrightarrow> i \<notin> live s \<Longrightarrow> \<exists>p. dealloc s i = Inl p"
begin

lemma no_double_free:
  assumes "invar s" and "i \<in> live s" and "dealloc s i = Inr s'"
  shows "\<exists>p. dealloc s' i = Inl p"
  using assms dealloc_live [of s i] dealloc_dead [of s' i] by auto

end

section \<open>\<open>RecycleAllocator\<close>\<close>

record RecycleAllocator =
  ra_current :: usize
  ra_recycled :: "usize list"

definition RecycleAllocator_new :: RecycleAllocator where
  "RecycleAllocator_new = \<lparr>ra_current = 0, ra_recycled = []\<rparr>"

text \<open>\<open>Vec::pop\<close> takes the last element.\<close>

definition RecycleAllocator_alloc :: "RecycleAllocator \<Rightarrow> usize \<times> RecycleAllocator" where
  "RecycleAllocator_alloc s =
     (if ra_recycled s \<noteq> []
      then (last (ra_recycled s), s\<lparr>ra_recycled := butlast (ra_recycled s)\<rparr>)
      else (let s' = s\<lparr>ra_current := ra_current s + 1\<rparr> in (ra_current s' - 1, s')))"

definition RecycleAllocator_dealloc :: "RecycleAllocator \<Rightarrow> usize \<Rightarrow> RecycleAllocator result" where
  "RecycleAllocator_dealloc s id' =
     rbind (rassert (id' < ra_current s)) (\<lambda>_.
     rbind (rassert (\<not> list_ex (\<lambda>i. i = id') (ra_recycled s))) (\<lambda>_.
     Inr (s\<lparr>ra_recycled := ra_recycled s @ [id']\<rparr>)))"

definition ra_invar :: "RecycleAllocator \<Rightarrow> bool" where
  "ra_invar s \<longleftrightarrow> distinct (ra_recycled s) \<and> list_all (\<lambda>i. i < ra_current s) (ra_recycled s)"

definition ra_live :: "RecycleAllocator \<Rightarrow> usize set" where
  "ra_live s = {i. i < ra_current s} - set (ra_recycled s)"

text \<open>The counter wraps after \<open>2 ^ 64\<close> identifiers without any being returned.\<close>

definition ra_room :: "RecycleAllocator \<Rightarrow> bool" where
  "ra_room s \<longleftrightarrow> ra_recycled s \<noteq> [] \<or> ra_current s \<noteq> - 1"

lemmas ra_defs =
  RecycleAllocator_new_def RecycleAllocator_alloc_def RecycleAllocator_dealloc_def
  ra_invar_def ra_live_def ra_room_def

interpretation ra: checked_allocator ra_invar ra_live ra_room
  "\<lambda>s. Some (RecycleAllocator_alloc s)" RecycleAllocator_dealloc
proof unfold_locales
  fix s i s'
  assume inv: "ra_invar s" and room: "ra_room s"
    and a: "Some (RecycleAllocator_alloc s) = Some (i, s')"
  show "i \<notin> ra_live s \<and> ra_live s' = insert i (ra_live s) \<and> ra_invar s'"
  proof (cases "ra_recycled s" rule: rev_cases)
    case Nil
    then show ?thesis
      using inv room a by (auto simp: ra_defs word_less_Suc_iff)
  next
    case (snoc xs x)
    then show ?thesis
      using inv a by (auto simp: ra_defs)
  qed
qed (auto simp: ra_defs rassert_def list_all_iff list_ex_iff)

lemma ra_card_live: "ra_invar s \<Longrightarrow> card (ra_live s) + length (ra_recycled s) = unat (ra_current s)"
proof -
  assume inv: "ra_invar s"
  then have sub: "set (ra_recycled s) \<subseteq> {i. i < ra_current s}"
    by (auto simp: ra_invar_def list_all_iff)
  have "card (set (ra_recycled s)) \<le> card {i. i < ra_current s}"
    using sub by (intro card_mono) auto
  moreover have "card (set (ra_recycled s)) = length (ra_recycled s)"
    using inv by (simp add: ra_invar_def distinct_card)
  ultimately show ?thesis
    using sub by (simp add: ra_live_def card_Diff_subset card_word_lessThan)
qed

lemma ra_room_of_length:
  assumes "ra.held (s, hs)" and "length hs < 2 ^ 64 - 1"
  shows "ra_room s"
proof (rule ccontr)
  assume "\<not> ra_room s"
  then have full: "ra_recycled s = []" "ra_current s = - 1" by (simp_all add: ra_room_def)
  have held: "ra_invar s" "distinct hs" "set hs = ra_live s"
    using assms(1) by (simp_all only: ra.held_def case_prod_conv)
  have "length hs = card (ra_live s)" using distinct_card [OF held(2)] held(3) by simp
  also have "\<dots> = unat (- 1 :: usize)" using ra_card_live [OF held(1)] full by simp
  finally have "length hs = unat (- 1 :: usize)" .
  then show False using assms(2) by (simp add: unsigned_minus_1_eq_mask mask_eq_exp_minus_1)
qed

section \<open>Handles\<close>

text \<open>
  \<open>pid_alloc\<close> wraps the identifier in a \<open>PidHandle\<close>, whose \<open>drop\<close> returns it to the
  allocator.
\<close>

definition IDLE_PID :: usize where "IDLE_PID = 0"

datatype PidHandle = PidHandle (pid0: usize)

definition pid_alloc :: "RecycleAllocator \<Rightarrow> PidHandle \<times> RecycleAllocator" where
  "pid_alloc s = (case RecycleAllocator_alloc s of (i, s') \<Rightarrow> (PidHandle i, s'))"

definition PidHandle_drop :: "PidHandle \<Rightarrow> RecycleAllocator \<Rightarrow> RecycleAllocator result" where
  "PidHandle_drop h s = RecycleAllocator_dealloc s (pid0 h)"

abbreviation pid_history ::
  "RecycleAllocator \<times> PidHandle list \<Rightarrow> RecycleAllocator \<times> PidHandle list \<Rightarrow> bool" where
  "pid_history \<equiv> client_step (\<lambda>s. Some (pid_alloc s)) (\<lambda>s h. PidHandle_drop h s)"

lemma pid_history_ids:
  assumes "pid_history (s, hs) (s', hs')"
  shows "client_step (\<lambda>s. Some (RecycleAllocator_alloc s)) RecycleAllocator_dealloc
    (s, map pid0 hs) (s', map pid0 hs')"
  using assms
proof (cases rule: client_step.cases)
  case (Take i)
  then show ?thesis
    by (auto simp: pid_alloc_def split: prod.splits intro: client_step.Take)
next
  case (Drop i)
  have "inj pid0" by (auto intro: injI PidHandle.expand)
  then have "map pid0 (remove1 i hs) = remove1 (pid0 i) (map pid0 hs)"
    by (rule map_remove1_inj)
  then show ?thesis
    using Drop client_step.Drop [of "pid0 i" "map pid0 hs" RecycleAllocator_dealloc s s']
    by (simp add: PidHandle_drop_def)
qed

text \<open>
  A bounded history: at most \<open>2 ^ 64 - 1\<close> handles are ever held at once.
\<close>

definition pid_step ::
  "RecycleAllocator \<times> PidHandle list \<Rightarrow> RecycleAllocator \<times> PidHandle list \<Rightarrow> bool" where
  "pid_step x y \<longleftrightarrow> pid_history x y \<and> length (snd x) < 2 ^ 64 - 1"

lemma pid_run_held:
  assumes "pid_step\<^sup>*\<^sup>* (RecycleAllocator_new, []) x"
  shows "ra.held (fst x, map pid0 (snd x))"
  using assms
proof (induction rule: rtranclp_induct)
  case base
  show ?case by (simp add: ra.held_def) (simp add: ra_defs)
next
  case (step y z)
  obtain s hs s' hs' where yz: "y = (s, hs)" "z = (s', hs')" by (cases y, cases z)
  have h: "ra.held (s, map pid0 hs)" using step.IH by (simp add: yz pid_step_def)
  have "ra_room s"
    using step.hyps(2) by (intro ra_room_of_length [OF h]) (simp add: yz pid_step_def)
  moreover have "pid_history (s, hs) (s', hs')"
    using step.hyps(2) by (simp add: yz pid_step_def)
  ultimately have "ra.held (s', map pid0 hs')"
    by (intro ra.held_step [OF pid_history_ids h])
  then show ?case by (simp add: yz)
qed

text \<open>
  C14. Process ids are unique while in use. In every history of \<open>pid_alloc\<close> and of drops of
  handles held, starting from the empty allocator and holding fewer than \<open>2 ^ 64 - 1\<close> handles at
  a time: no two handles held carry the same id; dropping any of them does not panic; and the
  next \<open>pid_alloc\<close> returns an id that none of the handles carries.
\<close>

theorem pid_handles_unique:
  assumes "pid_step\<^sup>*\<^sup>* (RecycleAllocator_new, []) (s, hs)" and "length hs < 2 ^ 64 - 1"
  shows "distinct (map pid0 hs)
    \<and> (\<forall>h \<in> set hs. \<exists>s'. PidHandle_drop h s = Inr s')
    \<and> fst (pid_alloc s) \<notin> set hs"
proof -
  have h: "ra.held (s, map pid0 hs)" using pid_run_held [OF assms(1)] by simp
  have "ra_room s" using assms(2) by (intro ra_room_of_length [OF h]) simp
  obtain i s' where a: "RecycleAllocator_alloc s = (i, s')" by (cases "RecycleAllocator_alloc s")
  then have "i \<notin> pid0 ` set hs"
    using h \<open>ra_room s\<close> ra.alloc_fresh [of s i s'] by (auto simp: ra.held_def)
  then have "fst (pid_alloc s) \<notin> set hs" using a by (force simp: pid_alloc_def)
  moreover have "\<exists>s'. PidHandle_drop h s = Inr s'" if "h \<in> set hs" for h
    using ra.drop_ok [OF h, of "pid0 h"] that by (auto simp: PidHandle_drop_def)
  ultimately show ?thesis using h by (simp add: ra.held_def)
qed

lemma pid_run_two:
  "pid_step\<^sup>*\<^sup>* (RecycleAllocator_new, [])
     (\<lparr>ra_current = 2, ra_recycled = []\<rparr>, [PidHandle 1, PidHandle 0])"
proof -
  have "pid_step (RecycleAllocator_new, []) (\<lparr>ra_current = 1, ra_recycled = []\<rparr>, [PidHandle 0])"
    by (simp add: pid_step_def client_step.Take pid_alloc_def ra_defs)
  moreover have "pid_step (\<lparr>ra_current = 1, ra_recycled = []\<rparr>, [PidHandle 0])
      (\<lparr>ra_current = 2, ra_recycled = []\<rparr>, [PidHandle 1, PidHandle 0])"
    by (simp add: pid_step_def client_step.Take pid_alloc_def ra_defs)
  ultimately show ?thesis by (rule converse_rtranclp_into_rtranclp [OF _ r_into_rtranclp])
qed

theorem pid_handles_unique_witness:
  "distinct (map pid0 [PidHandle 1, PidHandle 0])
    \<and> fst (pid_alloc \<lparr>ra_current = 2, ra_recycled = []\<rparr>) \<notin> set [PidHandle 1, PidHandle 0]"
  using pid_handles_unique [OF pid_run_two] by simp

section \<open>Address layouts computed from identifiers\<close>

datatype KernelStack = KernelStack (kstack0: usize)

definition kernel_stack_position :: "usize \<Rightarrow> usize \<times> usize" where
  "kernel_stack_position kstack_id =
     (let top = TRAMPOLINE - kstack_id * (KERNEL_STACK_SIZE + PAGE_SIZE);
          bottom = top - KERNEL_STACK_SIZE
      in (bottom, top))"

definition KernelStack_get_top :: "KernelStack \<Rightarrow> usize" where
  "KernelStack_get_top k = snd (kernel_stack_position (kstack0 k))"

definition trap_cx_bottom_from_tid :: "usize \<Rightarrow> usize" where
  "trap_cx_bottom_from_tid tid = TRAP_CONTEXT_BASE - tid * PAGE_SIZE"

definition ustack_bottom_from_tid :: "usize \<Rightarrow> usize" where
  "ustack_bottom_from_tid tid = UserStackBase + tid * (PAGE_SIZE + USER_STACK_SIZE)"

text \<open>
  The layout in naturals: a kernel-stack id below \<open>2 ^ 24\<close> keeps its stack in the upper half
  of the 39-bit address space, so that no subtraction wraps.
\<close>

lemma unat_kernel_stack_offset:
  "unat i < 2 ^ 24 \<Longrightarrow> unat (i * (KERNEL_STACK_SIZE + PAGE_SIZE)) = unat i * 12288"
  by (simp add: config_defs unat_mult_nowrap)

lemma kernel_stack_unat:
  assumes "unat i < 2 ^ 24"
  shows "unat (snd (kernel_stack_position i)) = 0xFFFFFFFFFFFFF000 - unat i * 12288"
    and "unat (fst (kernel_stack_position i)) = 0xFFFFFFFFFFFFD000 - unat i * 12288"
proof -
  let ?d = "i * (KERNEL_STACK_SIZE + PAGE_SIZE)"
  have d: "unat ?d = unat i * 12288" using assms by (rule unat_kernel_stack_offset)
  have pos: "kernel_stack_position i = (0xFFFFFFFFFFFFD000 - ?d, 0xFFFFFFFFFFFFF000 - ?d)"
    by (simp add: kernel_stack_position_def config_defs)
  have le: "?d \<le> 0xFFFFFFFFFFFFD000" "?d \<le> 0xFFFFFFFFFFFFF000"
    using assms unfolding word_le_nat_alt d by simp_all
  show "unat (snd (kernel_stack_position i)) = 0xFFFFFFFFFFFFF000 - unat i * 12288"
    unfolding pos snd_conv unat_sub [OF le(2)] d by simp
  show "unat (fst (kernel_stack_position i)) = 0xFFFFFFFFFFFFD000 - unat i * 12288"
    unfolding pos fst_conv unat_sub [OF le(1)] d by simp
qed

text \<open>
  C39. Kernel stacks never overlap and are separated by a guard page: for kernel-stack ids
  \<open>i < j\<close> (below \<open>2 ^ 24\<close>) both stacks lie in the upper half of the SV39 space, at or below
  the trampoline, each is \<open>KERNEL_STACK_SIZE\<close> bytes, and the top of the stack of \<open>j\<close> is at
  least one page below the bottom of the stack of \<open>i\<close>.
\<close>

theorem kernel_stacks_disjoint:
  assumes "i < j" and "unat j < 2 ^ 24"
  shows "(case (kernel_stack_position i, kernel_stack_position j) of ((b, t), (b', t')) \<Rightarrow>
      unat t' + unat PAGE_SIZE \<le> unat b
      \<and> unat t = unat b + unat KERNEL_STACK_SIZE \<and> unat t' = unat b' + unat KERNEL_STACK_SIZE
      \<and> t \<le> TRAMPOLINE \<and> 2 ^ 64 - 2 ^ 38 \<le> unat b')"
proof -
  have "unat i < unat j" using assms(1) by (simp add: word_less_nat_alt)
  with assms(2) show ?thesis
    using kernel_stack_unat [of i] kernel_stack_unat [of j]
    by (auto simp: config_defs word_le_nat_alt split: prod.splits)
qed

theorem kernel_stacks_disjoint_witness:
  "unat (snd (kernel_stack_position 4)) + unat PAGE_SIZE \<le> unat (fst (kernel_stack_position 3))"
  using kernel_stacks_disjoint [of 3 4] by (simp split: prod.splits)

text \<open>
  The two areas a thread gets in its process's address space (\<open>alloc_user_res\<close> of
  \<open>task/task.rs\<close> maps them): its user stack and its trap-context page, as half-open ranges.
\<close>

definition thread_areas :: "usize \<Rightarrow> (usize \<times> usize) list" where
  "thread_areas tid =
     [(ustack_bottom_from_tid tid, ustack_bottom_from_tid tid + USER_STACK_SIZE),
      (trap_cx_bottom_from_tid tid, trap_cx_bottom_from_tid tid + PAGE_SIZE)]"

definition disjoint_area :: "usize \<times> usize \<Rightarrow> usize \<times> usize \<Rightarrow> bool" where
  "disjoint_area a b \<longleftrightarrow> snd a \<le> fst b \<or> snd b \<le> fst a"

fun disjoint_areas :: "(usize \<times> usize) list \<Rightarrow> bool" where
  "disjoint_areas [] \<longleftrightarrow> True"
| "disjoint_areas (a # as) \<longleftrightarrow> list_all (disjoint_area a) as \<and> disjoint_areas as"

definition process_areas :: "nat \<Rightarrow> (usize \<times> usize) list" where
  "process_areas n = concat (map (thread_areas \<circ> of_nat) [0..<n])"

lemma disjoint_areas_append:
  "disjoint_areas (as @ bs) \<Longrightarrow> disjoint_areas as \<and> disjoint_areas bs"
  by (induction as) auto

lemma process_areas_Suc: "process_areas (Suc n) = process_areas n @ thread_areas (of_nat n)"
  by (simp add: process_areas_def)

lemma process_areas_prefix: "n \<le> m \<Longrightarrow> \<exists>bs. process_areas m = process_areas n @ bs"
  by (induction m rule: dec_induct) (auto simp: process_areas_Suc)

lemma layout_numerals:
  "TRAP_CONTEXT_BASE = 0xFFFFFFFFFFFFE000" "UserStackBase = 0xFFFFFFFFFFFE6000"
  "PAGE_SIZE = 0x1000" "USER_STACK_SIZE = 0x2000"
  by (simp_all add: config_defs)

lemmas areas_simps =
  thread_areas_def disjoint_area_def ustack_bottom_from_tid_def trap_cx_bottom_from_tid_def
  layout_numerals

lemma six_threads_disjoint: "disjoint_areas (process_areas 6)"
proof -
  have "process_areas 6 = concat (map thread_areas [0, 1, 2, 3, 4, 5])"
    by (simp add: process_areas_def upt_rec)
  moreover have "disjoint_areas (concat (map thread_areas [0, 1, 2, 3, 4, 5]))"
    by (simp add: areas_simps)
  ultimately show ?thesis by simp
qed

lemma thread_six_collides: "\<not> disjoint_areas (thread_areas 6)"
  by (simp add: areas_simps)

text \<open>
  C40. A process has room for six threads: the user stacks and trap-context pages of the thread
  ids \<open>0, ..., n - 1\<close> are pairwise disjoint exactly when \<open>n \<le> 6\<close>. The stack of thread 6
  covers its own trap-context page and that of thread 5.
\<close>

theorem thread_areas_disjoint_iff: "disjoint_areas (process_areas n) \<longleftrightarrow> n \<le> 6"
proof
  assume "n \<le> 6"
  then obtain bs where "process_areas 6 = process_areas n @ bs"
    using process_areas_prefix by blast
  then show "disjoint_areas (process_areas n)"
    using six_threads_disjoint disjoint_areas_append by metis
next
  assume d: "disjoint_areas (process_areas n)"
  show "n \<le> 6"
  proof (rule ccontr)
    assume "\<not> n \<le> 6"
    then obtain bs where "process_areas n = process_areas (Suc 6) @ bs"
      using process_areas_prefix [of "Suc 6" n] by auto
    then have "process_areas n = process_areas 6 @ thread_areas 6 @ bs"
      by (simp only: process_areas_Suc append_assoc) simp
    then show False
      using d thread_six_collides disjoint_areas_append by metis
  qed
qed

end
