(* ===== verification/Phys_Memory.thy ===== *)
theory Phys_Memory
  imports Address
begin

text \<open>
  Physical memory as the kernel sees it through its identity mapping: a byte per address, read
  and written through \<open>PhysPageNum::get_bytes_array\<close>, \<open>get_pte_array\<close> and
  \<open>PhysAddr::get_ref\<close>/\<open>get_mut\<close> of \<open>os/src/mm/address.rs\<close>. The lemmas say how a write to
  a page shows in reads of the same and of other pages; they are what the page-table and
  address-space proofs rest on.
\<close>

section \<open>Bytes\<close>

type_synonym memory = "usize \<Rightarrow> u8"

definition read_bytes :: "memory \<Rightarrow> usize \<Rightarrow> nat \<Rightarrow> u8 list" where
  "read_bytes m a n = map (\<lambda>i. m (a + of_nat i)) [0..<n]"

definition write_bytes :: "memory \<Rightarrow> usize \<Rightarrow> u8 list \<Rightarrow> memory" where
  "write_bytes m a bs =
     (\<lambda>x. if unat (x - a) < length bs then bs ! unat (x - a) else m x)"

text \<open>
  \<open>ppn.get_bytes_array()\<close> is the slice of the 4096 bytes at the page's base;
  \<open>PhysPageNum_get_bytes_array\<close> is its contents and \<open>PhysPageNum_copy_from_slice\<close> the
  effect of assigning to its bytes \<open>off .. off + len\<close>, with the bounds check of the slice.
\<close>

definition PhysPageNum_get_bytes_array :: "memory \<Rightarrow> PhysPageNum \<Rightarrow> u8 list" where
  "PhysPageNum_get_bytes_array m p = read_bytes m (pa0 (PhysAddr_from_PhysPageNum p)) 4096"

definition PhysPageNum_copy_from_slice ::
  "memory \<Rightarrow> PhysPageNum \<Rightarrow> nat \<Rightarrow> u8 list \<Rightarrow> memory result" where
  "PhysPageNum_copy_from_slice m p off bs =
     (if off + length bs \<le> 4096
      then Inr (write_bytes m (pa0 (PhysAddr_from_PhysPageNum p) + of_nat off) bs)
      else Inl Index_Out_Of_Range)"

section \<open>Little-endian words\<close>

definition to_le_bytes :: "u64 \<Rightarrow> u8 list" where
  "to_le_bytes v = map (\<lambda>i. ucast (drop_bit (8 * i) v)) [0..<8]"

definition from_le_bytes :: "u8 list \<Rightarrow> u64" where
  "from_le_bytes bs = foldr (\<lambda>b acc. ucast b OR push_bit 8 acc) bs 0"

definition read_u64 :: "memory \<Rightarrow> usize \<Rightarrow> u64" where
  "read_u64 m a = from_le_bytes (read_bytes m a 8)"

definition write_u64 :: "memory \<Rightarrow> usize \<Rightarrow> u64 \<Rightarrow> memory" where
  "write_u64 m a v = write_bytes m a (to_le_bytes v)"

lemma length_to_le_bytes [simp]: "length (to_le_bytes v) = 8"
  by (simp add: to_le_bytes_def)

lemma length_read_bytes [simp]: "length (read_bytes m a n) = n"
  by (simp add: read_bytes_def)

lemma nth_read_bytes [simp]: "i < n \<Longrightarrow> read_bytes m a n ! i = m (a + of_nat i)"
  by (simp add: read_bytes_def)

lemma from_le_bytes_Nil [simp]: "from_le_bytes [] = 0"
  by (simp add: from_le_bytes_def)

lemma from_le_bytes_Cons: "from_le_bytes (b # bs) = ucast b OR push_bit 8 (from_le_bytes bs)"
  by (simp add: from_le_bytes_def)

lemma bit_from_le_bytes:
  "length bs \<le> 8 \<Longrightarrow> bit (from_le_bytes bs) n \<longleftrightarrow> n < 8 * length bs \<and> bit (bs ! (n div 8)) (n mod 8)"
proof (induction bs arbitrary: n)
  case (Cons b bs)
  show ?case
  proof (cases "n < 8")
    case True
    then show ?thesis
      by (auto simp: from_le_bytes_Cons bit_or_iff bit_ucast_iff bit_push_bit_iff)
  next
    case False
    then obtain k where k: "n = k + 8" by (metis add.commute le_Suc_ex not_less)
    have "\<not> bit b n" using False by (auto dest: bit_imp_le_length)
    then have "bit (from_le_bytes (b # bs)) n \<longleftrightarrow> n < 64 \<and> bit (from_le_bytes bs) k"
      by (simp add: k from_le_bytes_Cons bit_or_iff bit_ucast_iff bit_push_bit_iff)
    moreover have "(k + 8) div 8 = Suc (k div 8)" by simp
    ultimately show ?thesis
      using Cons.IH [of k] Cons.prems by (auto simp: k)
  qed
qed simp

lemma from_le_to_le [simp]: "from_le_bytes (to_le_bytes v) = v"
proof (rule bit_word_eqI)
  fix n
  assume "n < LENGTH(64)"
  then have n: "n < 64" by simp
  then have "n div 8 < 8" by (simp add: div_less_iff_less_mult)
  then have "to_le_bytes v ! (n div 8) = ucast (drop_bit (8 * (n div 8)) v)"
    by (simp add: to_le_bytes_def del: upt_rec_numeral)
  moreover have "8 * (n div 8) + n mod 8 = n" and "n mod 8 < 8" by simp_all
  ultimately show "bit (from_le_bytes (to_le_bytes v)) n = bit v n"
    using n by (simp only: bit_from_le_bytes length_to_le_bytes bit_ucast_iff bit_drop_bit_eq o_apply) simp
qed

section \<open>Pages\<close>

text \<open>The address of byte \<open>k\<close> of the page with number \<open>p\<close>.\<close>

definition page_addr :: "PhysPageNum \<Rightarrow> nat \<Rightarrow> usize" where
  "page_addr p k = pa0 (PhysAddr_from_PhysPageNum p) + of_nat k"

text \<open>Page numbers a physical address can hold: 56-bit addresses have 44-bit page numbers.\<close>

definition ppn_ok :: "PhysPageNum \<Rightarrow> bool" where
  "ppn_ok p \<longleftrightarrow> unat (ppn0 p) < 2 ^ 44"

lemma unat_page_addr:
  assumes "ppn_ok p" and "k < 4096"
  shows "unat (page_addr p k) = unat (ppn0 p) * 4096 + k"
proof -
  have "unat (push_bit 12 (ppn0 p)) = unat (ppn0 p) * 4096"
    using assms(1) unat_mult_nowrap [of "ppn0 p" 4096]
    by (simp add: ppn_ok_def push_bit_eq_mult mult.commute)
  moreover have "unat (of_nat k :: usize) = k"
    using assms(2) by (simp add: unat_of_nat)
  ultimately show ?thesis
    using assms unat_plus_nowrap [of "push_bit 12 (ppn0 p)" "of_nat k"]
    by (simp add: page_addr_def from_vpn_push_bit ppn_ok_def)
qed

lemma page_addr_eq_iff:
  assumes "ppn_ok p" "ppn_ok q" "k < 4096" "l < 4096"
  shows "page_addr p k = page_addr q l \<longleftrightarrow> p = q \<and> k = l"
proof
  assume "page_addr p k = page_addr q l"
  then have eq: "unat (ppn0 p) * 4096 + k = unat (ppn0 q) * 4096 + l"
    using unat_page_addr assms by metis
  then have "k = l"
    using assms(3,4) by (metis mod_mult_self3 mod_less)
  with eq show "p = q \<and> k = l"
    by (auto simp: word_unat_eq_iff intro: PhysPageNum.expand)
qed simp

lemma page_addr_add: "page_addr p k + of_nat l = page_addr p (k + l)"
  by (simp add: page_addr_def add.assoc)

lemma page_addr_diff:
  assumes "off \<le> k" and "k < 4096"
  shows "unat (page_addr p k - page_addr p off) = k - off"
proof -
  have "page_addr p k = page_addr p off + of_nat (k - off)"
    using assms(1) page_addr_add [of p off "k - off"] by simp
  then have "page_addr p k - page_addr p off = of_nat (k - off)" by (simp only: add_diff_cancel_left')
  then show ?thesis using assms(2) by (simp only: unat_of_nat) simp
qed

text \<open>
  A write of \<open>bs\<close> at offset \<open>off\<close> of a page, without leaving the page, changes the bytes
  \<open>off .. off + length bs\<close> of that page and nothing else.
\<close>

lemma write_bytes_page:
  assumes "ppn_ok p" "ppn_ok q" "off + length bs \<le> 4096" "k < 4096"
  shows "write_bytes m (page_addr p off) bs (page_addr q k) =
    (if p = q \<and> off \<le> k \<and> k < off + length bs then bs ! (k - off) else m (page_addr q k))"
proof -
  let ?d = "unat (page_addr q k - page_addr p off)"
  have in_range: "?d < length bs \<longleftrightarrow> p = q \<and> off \<le> k \<and> k < off + length bs"
    if "bs \<noteq> []"
  proof
    assume d: "?d < length bs"
    have "page_addr q k = page_addr p off + of_nat ?d" by simp
    also have "\<dots> = page_addr p (off + ?d)" by (rule page_addr_add)
    finally have "p = q \<and> off + ?d = k"
      using assms d by (subst (asm) page_addr_eq_iff) auto
    with d show "p = q \<and> off \<le> k \<and> k < off + length bs" by auto
  next
    assume r: "p = q \<and> off \<le> k \<and> k < off + length bs"
    then show "?d < length bs" using assms page_addr_diff [of off k q] by auto
  qed
  then show ?thesis
    using assms(4) page_addr_diff [of off k q]
    by (cases "bs = []") (auto simp: write_bytes_def)
qed

lemmas ptr_defs = page_addr_def PhysPageNum_get_bytes_array_def PhysPageNum_copy_from_slice_def

text \<open>The contents of a page after a write to it or to another page.\<close>

lemma nth_get_bytes_array:
  "k < 4096 \<Longrightarrow> PhysPageNum_get_bytes_array m p ! k = m (page_addr p k)"
  by (simp add: ptr_defs)

lemma length_get_bytes_array [simp]: "length (PhysPageNum_get_bytes_array m p) = 4096"
  by (simp add: ptr_defs)

lemma copy_from_slice_eq:
  "off + length bs \<le> 4096 \<Longrightarrow>
     PhysPageNum_copy_from_slice m p off bs = Inr (write_bytes m (page_addr p off) bs)"
  by (simp add: ptr_defs)

lemma get_bytes_write_other:
  assumes "ppn_ok p" "ppn_ok q" "p \<noteq> q" "off + length bs \<le> 4096"
  shows "PhysPageNum_get_bytes_array (write_bytes m (page_addr p off) bs) q
     = PhysPageNum_get_bytes_array m q"
  using assms by (intro nth_equalityI) (simp_all add: nth_get_bytes_array write_bytes_page)

lemma get_bytes_write_same:
  assumes "ppn_ok p" "off + length bs \<le> 4096"
  shows "PhysPageNum_get_bytes_array (write_bytes m (page_addr p off) bs) p
     = take off (PhysPageNum_get_bytes_array m p) @ bs
         @ drop (off + length bs) (PhysPageNum_get_bytes_array m p)"
  using assms
  by (intro nth_equalityI)
    (auto simp: nth_get_bytes_array write_bytes_page nth_append)

section \<open>The page-table slots of a page\<close>

text \<open>\<open>&mut ppn.get_pte_array()[idx]\<close> is the address of the \<open>idx\<close>-th of 512 eight-byte entries.\<close>

definition pte_ref :: "PhysPageNum \<Rightarrow> usize \<Rightarrow> usize result" where
  "pte_ref p idx = (if idx < 512 then Inr (pa0 (PhysAddr_from_PhysPageNum p) + 8 * idx)
                    else Inl Index_Out_Of_Range)"

lemma pte_ref_page_addr:
  assumes "unat i < 512"
  shows "pte_ref p i = Inr (page_addr p (8 * unat i))"
  using assms by (simp add: pte_ref_def page_addr_def word_less_nat_alt)

definition pte_read :: "memory \<Rightarrow> PhysPageNum \<Rightarrow> usize \<Rightarrow> u64" where
  "pte_read m p i = read_u64 m (page_addr p (8 * unat i))"

lemma read_u64_write_page:
  assumes "ppn_ok p" "ppn_ok q" "off + length bs \<le> 4096" "l + 8 \<le> 4096"
    and "p \<noteq> q \<or> off + length bs \<le> l \<or> l + 8 \<le> off"
  shows "read_u64 (write_bytes m (page_addr p off) bs) (page_addr q l) = read_u64 m (page_addr q l)"
proof -
  have "read_bytes (write_bytes m (page_addr p off) bs) (page_addr q l) 8 = read_bytes m (page_addr q l) 8"
    using assms by (intro nth_equalityI) (auto simp: page_addr_add write_bytes_page)
  then show ?thesis by (simp add: read_u64_def)
qed

lemma read_write_u64_same:
  assumes "ppn_ok p" "l + 8 \<le> 4096"
  shows "read_u64 (write_u64 m (page_addr p l) v) (page_addr p l) = v"
proof -
  have "read_bytes (write_u64 m (page_addr p l) v) (page_addr p l) 8 = to_le_bytes v"
    using assms
    by (intro nth_equalityI) (auto simp: page_addr_add write_u64_def write_bytes_page)
  then show ?thesis by (simp add: read_u64_def)
qed

text \<open>The two laws of the slots: a read of a slot sees the last write to it, and no other.\<close>

lemma pte_read_write:
  assumes "ppn_ok p" "ppn_ok q" "unat i < 512" "unat j < 512"
  shows "pte_read (write_u64 m (page_addr p (8 * unat i)) v) q j =
    (if p = q \<and> i = j then v else pte_read m q j)"
proof (cases "p = q \<and> i = j")
  case True
  then show ?thesis using assms by (simp add: pte_read_def read_write_u64_same)
next
  case False
  have "p \<noteq> q \<or> unat i \<noteq> unat j" using False by (auto simp: word_unat_eq_iff)
  then have "p \<noteq> q \<or> 8 * unat i + 8 \<le> 8 * unat j \<or> 8 * unat j + 8 \<le> 8 * unat i" by linarith
  then show ?thesis
    using False assms read_u64_write_page [of p q "8 * unat i" "to_le_bytes v" "8 * unat j" m]
    by (auto simp: pte_read_def write_u64_def)
qed

lemma write_u64_other_page:
  assumes "ppn_ok p" "ppn_ok q" "p \<noteq> q" "unat i < 512"
  shows "PhysPageNum_get_bytes_array (write_u64 m (page_addr p (8 * unat i)) v) q
     = PhysPageNum_get_bytes_array m q"
  using assms by (simp add: write_u64_def get_bytes_write_other)

section \<open>Pages left alone\<close>

definition same_page :: "memory \<Rightarrow> memory \<Rightarrow> PhysPageNum \<Rightarrow> bool" where
  "same_page m m' p \<longleftrightarrow> PhysPageNum_get_bytes_array m' p = PhysPageNum_get_bytes_array m p"

lemma same_page_refl [simp, intro]: "same_page m m p"
  by (simp add: same_page_def)

lemma same_page_trans [trans]: "same_page m m' p \<Longrightarrow> same_page m' m'' p \<Longrightarrow> same_page m m'' p"
  by (simp add: same_page_def)

lemma pte_read_bytes:
  assumes "unat i < 512"
  shows "pte_read m p i
    = from_le_bytes (take 8 (drop (8 * unat i) (PhysPageNum_get_bytes_array m p)))"
proof -
  have "read_bytes m (page_addr p (8 * unat i)) 8
      = take 8 (drop (8 * unat i) (PhysPageNum_get_bytes_array m p))"
    using assms by (intro nth_equalityI) (auto simp: nth_get_bytes_array page_addr_add)
  then show ?thesis by (simp add: pte_read_def read_u64_def)
qed

lemma pte_read_same_page: "same_page m m' p \<Longrightarrow> unat i < 512 \<Longrightarrow> pte_read m' p i = pte_read m p i"
  by (simp add: pte_read_bytes same_page_def)

lemma same_page_write_u64:
  "ppn_ok p \<Longrightarrow> ppn_ok q \<Longrightarrow> p \<noteq> q \<Longrightarrow> unat i < 512 \<Longrightarrow>
     same_page m (write_u64 m (page_addr p (8 * unat i)) v) q"
  by (simp add: same_page_def write_u64_other_page)

lemma same_page_write_bytes:
  "ppn_ok p \<Longrightarrow> ppn_ok q \<Longrightarrow> p \<noteq> q \<Longrightarrow> off + length bs \<le> 4096 \<Longrightarrow>
     same_page m (write_bytes m (page_addr p off) bs) q"
  by (simp add: same_page_def get_bytes_write_other)

lemma pte_read_zero_page:
  assumes "PhysPageNum_get_bytes_array m p = replicate 4096 0" "unat i < 512"
  shows "pte_read m p i = 0"
proof -
  have "min 8 (4096 - 8 * unat i) = 8" using assms(2) by linarith
  then have "pte_read m p i = from_le_bytes (replicate 8 0)"
    using assms by (simp add: pte_read_bytes)
  then show ?thesis by (simp add: numeral_eq_Suc from_le_bytes_Cons)
qed

end
