(* ===== verification/Frame_Allocator.thy ===== *)
theory Frame_Allocator
  imports Id_Allocator Phys_Memory
begin

text \<open>
  The physical frame allocator of \<open>os/src/mm/frame_allocator.rs\<close>: \<open>StackFrameAllocator\<close>, the
  global \<open>FRAME_ALLOCATOR\<close> (a field of the memory state \<open>mm\<close>) and the owning handle
  \<open>FrameTracker\<close>, whose creation clears the frame and whose drop returns it. The allocator
  interprets the contract \<open>allocator\<close>: frames handed out are not in use, and a frame in use can
  be returned once.
\<close>

section \<open>\<open>StackFrameAllocator\<close>\<close>

record StackFrameAllocator =
  fa_current :: usize
  fa_end :: usize
  fa_recycled :: "usize list"

definition StackFrameAllocator_new :: StackFrameAllocator where
  "StackFrameAllocator_new = \<lparr>fa_current = 0, fa_end = 0, fa_recycled = []\<rparr>"

definition StackFrameAllocator_init ::
  "StackFrameAllocator \<Rightarrow> PhysPageNum \<Rightarrow> PhysPageNum \<Rightarrow> StackFrameAllocator" where
  "StackFrameAllocator_init s l r = s\<lparr>fa_current := ppn0 l, fa_end := ppn0 r\<rparr>"

text \<open>\<open>None\<close> leaves the allocator as it was; \<open>Some\<close> carries the frame and the new state.\<close>

definition StackFrameAllocator_alloc ::
  "StackFrameAllocator \<Rightarrow> (PhysPageNum \<times> StackFrameAllocator) option" where
  "StackFrameAllocator_alloc s =
     (if fa_recycled s \<noteq> []
      then Some (PhysPageNum_from (last (fa_recycled s)), s\<lparr>fa_recycled := butlast (fa_recycled s)\<rparr>)
      else if fa_current s = fa_end s then None
      else (let s' = s\<lparr>fa_current := fa_current s + 1\<rparr>
            in Some (PhysPageNum_from (fa_current s' - 1), s')))"

definition StackFrameAllocator_alloc_more ::
  "StackFrameAllocator \<Rightarrow> usize \<Rightarrow> (PhysPageNum list \<times> StackFrameAllocator) option" where
  "StackFrameAllocator_alloc_more s pages =
     (if fa_current s + pages \<ge> fa_end s then None
      else (let s' = s\<lparr>fa_current := fa_current s + pages\<rparr>;
                arr = map of_nat [1..<unat (pages + 1)];
                v = map (\<lambda>x. PhysPageNum_from (fa_current s' - x)) arr
            in Some (v, s')))"

definition StackFrameAllocator_dealloc ::
  "StackFrameAllocator \<Rightarrow> PhysPageNum \<Rightarrow> StackFrameAllocator result" where
  "StackFrameAllocator_dealloc s ppn =
     (if ppn0 ppn \<ge> fa_current s \<or> list_ex (\<lambda>v. v = ppn0 ppn) (fa_recycled s)
      then Inl Explicit_Panic
      else Inr (s\<lparr>fa_recycled := fa_recycled s @ [ppn0 ppn]\<rparr>))"

text \<open>
  The invariant of an allocator that was initialised with frames from \<open>l\<close> on, the frames in
  use, and the condition under which it can serve a request.
\<close>

definition fa_invar :: "usize \<Rightarrow> StackFrameAllocator \<Rightarrow> bool" where
  "fa_invar l s \<longleftrightarrow> l \<le> fa_current s \<and> fa_current s \<le> fa_end s \<and> unat (fa_end s) \<le> 2 ^ 44
     \<and> distinct (fa_recycled s) \<and> list_all (\<lambda>v. l \<le> v \<and> v < fa_current s) (fa_recycled s)"

definition fa_live :: "usize \<Rightarrow> StackFrameAllocator \<Rightarrow> PhysPageNum set" where
  "fa_live l s = {p. l \<le> ppn0 p \<and> ppn0 p < fa_current s \<and> ppn0 p \<notin> set (fa_recycled s)}"

definition fa_room :: "StackFrameAllocator \<Rightarrow> bool" where
  "fa_room s \<longleftrightarrow> fa_recycled s \<noteq> [] \<or> fa_current s \<noteq> fa_end s"

lemmas fa_defs =
  StackFrameAllocator_alloc_def StackFrameAllocator_dealloc_def fa_invar_def fa_live_def fa_room_def

lemma fa_new_init:
  "l \<le> r \<Longrightarrow> unat (ppn0 r) \<le> 2 ^ 44 \<Longrightarrow>
     fa_invar (ppn0 l) (StackFrameAllocator_init StackFrameAllocator_new l r)
     \<and> fa_live (ppn0 l) (StackFrameAllocator_init StackFrameAllocator_new l r) = {}"
  by (auto simp: StackFrameAllocator_init_def StackFrameAllocator_new_def fa_defs newtype_order)

lemma fa_alloc_recycled:
  assumes "fa_invar l s" and "fa_recycled s = xs @ [x]"
  shows "StackFrameAllocator_alloc s = Some (PhysPageNum x, s\<lparr>fa_recycled := xs\<rparr>)"
proof -
  have "unat x < 2 ^ 44" using assms by (simp add: fa_invar_def word_le_nat_alt word_less_nat_alt)
  then show ?thesis by (simp add: StackFrameAllocator_alloc_def assms(2))
qed

lemma fa_alloc_current:
  assumes "fa_invar l s" and "fa_recycled s = []" and "fa_current s \<noteq> fa_end s"
  shows "StackFrameAllocator_alloc s =
    Some (PhysPageNum (fa_current s), s\<lparr>fa_current := fa_current s + 1\<rparr>)"
    and "fa_current s < fa_end s" and "fa_current s \<noteq> - 1"
proof -
  show lt: "fa_current s < fa_end s" using assms(1,3) by (simp add: fa_invar_def order.strict_iff_order)
  then have "unat (fa_current s) < 2 ^ 44"
    using assms(1) by (simp add: fa_invar_def word_less_nat_alt)
  then show "StackFrameAllocator_alloc s =
      Some (PhysPageNum (fa_current s), s\<lparr>fa_current := fa_current s + 1\<rparr>)"
    using assms(2,3) by (simp add: StackFrameAllocator_alloc_def)
  show "fa_current s \<noteq> - 1" using lt by (metis word_order.extremum_strict)
qed

interpretation fa: allocator "fa_invar l" "fa_live l" fa_room
  StackFrameAllocator_alloc StackFrameAllocator_dealloc for l
proof unfold_locales
  fix s
  show "fa_room s \<Longrightarrow> StackFrameAllocator_alloc s \<noteq> None"
    by (auto simp: fa_room_def StackFrameAllocator_alloc_def Let_def)
next
  fix s i s'
  assume inv: "fa_invar l s" and room: "fa_room s" and a: "StackFrameAllocator_alloc s = Some (i, s')"
  show "i \<notin> fa_live l s \<and> fa_live l s' = insert i (fa_live l s) \<and> fa_invar l s'"
  proof (cases "fa_recycled s" rule: rev_cases)
    case Nil
    then have ne: "fa_current s \<noteq> fa_end s" using room by (simp add: fa_room_def)
    note c = fa_alloc_current [OF inv Nil ne]
    have "fa_current s + 1 \<le> fa_end s"
      using c(2) unat_Suc_nowrap [OF c(2)] by (simp add: word_le_nat_alt word_less_nat_alt)
    moreover have "l \<le> fa_current s + 1"
      using inv unat_Suc_nowrap [OF c(2)] by (simp add: fa_invar_def word_le_nat_alt)
    ultimately show ?thesis
      using inv Nil a c by (auto simp: fa_invar_def fa_live_def word_less_Suc_iff newtype_conv)
  next
    case (snoc xs x)
    then show ?thesis
      using inv a fa_alloc_recycled [OF inv snoc]
      by (auto simp: fa_invar_def fa_live_def newtype_conv)
  qed
next
  fix s i
  assume "fa_invar l s" "i \<in> fa_live l s"
  then show "\<exists>s'. StackFrameAllocator_dealloc s i = Inr s' \<and> fa_live l s' = fa_live l s - {i}
      \<and> fa_invar l s' \<and> fa_room s'"
    by (auto simp: fa_defs list_ex_iff intro: PhysPageNum.expand)
qed

text \<open>
  \<open>alloc_more\<close> takes the pages right above \<open>current\<close>, highest first, when more than enough
  remain; it never looks at the recycled ones.
\<close>

lemma alloc_more_frames:
  assumes inv: "fa_invar l s" and fit: "unat (fa_current s) + unat pages < unat (fa_end s)"
  shows "\<exists>s'. StackFrameAllocator_alloc_more s pages =
      Some (rev (map (\<lambda>i. PhysPageNum (fa_current s + of_nat i)) [0..<unat pages]), s')
    \<and> s' = s\<lparr>fa_current := fa_current s + pages\<rparr> \<and> fa_invar l s'"
proof -
  let ?c = "fa_current s + pages"
  have lim: "unat (fa_end s) \<le> 2 ^ 44" using inv by (simp add: fa_invar_def)
  have c: "unat ?c = unat (fa_current s) + unat pages"
    using fit lim by (intro unat_plus_nowrap) simp
  have p1: "unat (pages + 1) = Suc (unat pages)"
    using fit lim unat_plus_nowrap [of pages 1] by simp
  have elem: "PhysPageNum_from (?c - of_nat (Suc i)) = PhysPageNum (fa_current s + of_nat (unat pages - Suc i))"
    if "i < unat pages" for i
  proof -
    have "?c - of_nat (Suc i) = fa_current s + of_nat (unat pages - Suc i)"
      using that by (simp add: of_nat_diff)
    moreover have "unat (fa_current s + of_nat (unat pages - Suc i)) < 2 ^ 44"
    proof -
      have "unat (of_nat (unat pages - Suc i) :: usize) \<le> unat pages"
        using unat_lt2p [of pages] by (simp add: unat_of_nat)
      then show ?thesis using fit lim by (subst unat_plus_nowrap) simp_all
    qed
    ultimately show ?thesis by (simp only: PhysPageNum_from_id)
  qed
  let ?v = "map (\<lambda>x. PhysPageNum_from (?c - x)) (map of_nat [1..<unat (pages + 1)])"
  let ?w = "rev (map (\<lambda>i. PhysPageNum (fa_current s + of_nat i)) [0..<unat pages])"
  have "?v = ?w"
  proof (rule nth_equalityI)
    show "length ?v = length ?w" by (simp add: p1 del: upt_Suc)
    fix i
    assume "i < length ?v"
    then have i: "i < unat pages" by (simp add: p1 del: upt_Suc)
    then have "?v ! i = PhysPageNum_from (?c - of_nat (Suc i))"
      by (simp add: p1 del: upt_Suc of_nat_Suc)
    also have "\<dots> = PhysPageNum (fa_current s + of_nat (unat pages - Suc i))" using i by (rule elem)
    also have "\<dots> = ?w ! i" using i by (simp add: rev_nth del: of_nat_Suc)
    finally show "?v ! i = ?w ! i" .
  qed
  moreover have "\<not> fa_end s \<le> ?c" using fit by (simp add: c word_le_nat_alt)
  moreover have "fa_invar l (s\<lparr>fa_current := ?c\<rparr>)"
    using inv fit by (auto simp: fa_invar_def word_le_nat_alt word_less_nat_alt c list_all_iff)
  ultimately show ?thesis by (simp add: StackFrameAllocator_alloc_more_def Let_def)
qed

section \<open>The memory state and \<open>FrameTracker\<close>\<close>

text \<open>
  The global state the memory subsystem works on: the contents of physical memory and
  \<open>FRAME_ALLOCATOR\<close>.
\<close>

record mm =
  mm_mem :: memory
  mm_alloc :: StackFrameAllocator

datatype FrameTracker = FrameTracker (ft_ppn: PhysPageNum)

definition FrameTracker_new :: "PhysPageNum \<Rightarrow> memory \<Rightarrow> FrameTracker \<times> memory" where
  "FrameTracker_new ppn m =
     (FrameTracker ppn, write_bytes m (pa0 (PhysAddr_from_PhysPageNum ppn)) (replicate 4096 0))"

definition frame_alloc :: "mm \<Rightarrow> (FrameTracker \<times> mm) option" where
  "frame_alloc st =
     (case StackFrameAllocator_alloc (mm_alloc st) of
        None \<Rightarrow> None
      | Some (ppn, a) \<Rightarrow>
          (case FrameTracker_new ppn (mm_mem st) of
             (f, m) \<Rightarrow> Some (f, \<lparr>mm_mem = m, mm_alloc = a\<rparr>)))"

text \<open>\<open>frame_alloc_more\<close> builds a tracker, and so clears the frame, for each page in turn.\<close>

definition frame_alloc_more :: "usize \<Rightarrow> mm \<Rightarrow> (FrameTracker list \<times> mm) option" where
  "frame_alloc_more num st =
     (case StackFrameAllocator_alloc_more (mm_alloc st) num of
        None \<Rightarrow> None
      | Some (ppns, a) \<Rightarrow>
          Some (fold (\<lambda>t (fs, st). (case FrameTracker_new t (mm_mem st) of
                   (f, m) \<Rightarrow> (fs @ [f], st\<lparr>mm_mem := m\<rparr>))) ppns ([], st\<lparr>mm_alloc := a\<rparr>)))"

definition frame_dealloc :: "PhysPageNum \<Rightarrow> mm \<Rightarrow> mm result" where
  "frame_dealloc ppn st =
     rbind (StackFrameAllocator_dealloc (mm_alloc st) ppn) (\<lambda>a. Inr (st\<lparr>mm_alloc := a\<rparr>))"

definition FrameTracker_drop :: "FrameTracker \<Rightarrow> mm \<Rightarrow> mm result" where
  "FrameTracker_drop f st = frame_dealloc (ft_ppn f) st"

text \<open>\<open>init_frame_allocator\<close>, with the linker symbol \<open>ekernel\<close> as an argument.\<close>

definition init_frame_allocator :: "usize \<Rightarrow> mm \<Rightarrow> mm" where
  "init_frame_allocator ekernel st =
     st\<lparr>mm_alloc := StackFrameAllocator_init (mm_alloc st)
          (PhysAddr_ceil (PhysAddr_from ekernel)) (PhysAddr_floor (PhysAddr_from MEMORY_END))\<rparr>"

lemma fa_alloc_room: "StackFrameAllocator_alloc s = Some (p, s') \<Longrightarrow> fa_room s"
  by (auto simp: StackFrameAllocator_alloc_def fa_room_def split: if_splits)

text \<open>The number of frames that can still be handed out.\<close>

definition fa_free :: "StackFrameAllocator \<Rightarrow> nat" where
  "fa_free s = length (fa_recycled s) + (unat (fa_end s) - unat (fa_current s))"

lemma fa_room_free: "fa_invar l s \<Longrightarrow> fa_room s \<longleftrightarrow> 0 < fa_free s"
  by (cases "fa_recycled s")
    (auto simp: fa_room_def fa_free_def fa_invar_def word_le_nat_alt word_unat_eq_iff)

lemma fa_alloc_free:
  assumes inv: "fa_invar l s" and alloc: "StackFrameAllocator_alloc s = Some (p, s')"
  shows "fa_free s' + 1 = fa_free s"
proof (cases "fa_recycled s" rule: rev_cases)
  case Nil
  then have ne: "fa_current s \<noteq> fa_end s"
    using fa_alloc_room [OF alloc] by (simp add: fa_room_def)
  note c = fa_alloc_current [OF inv Nil ne]
  show ?thesis
    using alloc c(1,2) unat_Suc_nowrap [OF c(2)] Nil by (auto simp: fa_free_def word_less_nat_alt)
next
  case (snoc xs x)
  then show ?thesis
    using alloc fa_alloc_recycled [OF inv snoc] by (auto simp: fa_free_def)
qed

lemma frame_alloc_free:
  "fa_invar l (mm_alloc st) \<Longrightarrow> frame_alloc st = Some (f, st') \<Longrightarrow>
     fa_free (mm_alloc st') + 1 = fa_free (mm_alloc st)"
  by (auto simp: frame_alloc_def split: option.splits prod.splits dest: fa_alloc_free)

lemma fa_live_ok: "fa_invar l s \<Longrightarrow> p \<in> fa_live l s \<Longrightarrow> ppn_ok p"
  by (auto simp: fa_invar_def fa_live_def ppn_ok_def word_le_nat_alt word_less_nat_alt)

text \<open>
  What a successful \<open>frame_alloc\<close> does: \<open>fresh_frame l st p st'\<close> says that \<open>p\<close> was not in use
  and is in use after, that it reads as zero, and that no other page changed.
\<close>

definition fresh_frame :: "usize \<Rightarrow> mm \<Rightarrow> PhysPageNum \<Rightarrow> mm \<Rightarrow> bool" where
  "fresh_frame l st p st' \<longleftrightarrow> ppn_ok p
     \<and> p \<notin> fa_live l (mm_alloc st) \<and> fa_live l (mm_alloc st') = insert p (fa_live l (mm_alloc st))
     \<and> fa_invar l (mm_alloc st')
     \<and> PhysPageNum_get_bytes_array (mm_mem st') p = replicate 4096 0
     \<and> (\<forall>q. ppn_ok q \<longrightarrow> q \<noteq> p \<longrightarrow> same_page (mm_mem st) (mm_mem st') q)"

lemma frame_alloc_spec:
  assumes inv: "fa_invar l (mm_alloc st)" and alloc: "frame_alloc st = Some (f, st')"
  shows "fresh_frame l st (ft_ppn f) st'"
proof -
  obtain p a where a: "StackFrameAllocator_alloc (mm_alloc st) = Some (p, a)"
    and f: "f = FrameTracker p" "st' = \<lparr>mm_mem = write_bytes (mm_mem st) (page_addr p 0) (replicate 4096 0),
        mm_alloc = a\<rparr>"
    using alloc by (auto simp: frame_alloc_def FrameTracker_new_def page_addr_def split: option.splits)
  note al = fa.alloc_fresh [OF inv fa_alloc_room [OF a] a]
  then have ok: "ppn_ok p" using fa_live_ok [of l a p] by simp
  have "PhysPageNum_get_bytes_array (mm_mem st') p = replicate 4096 0"
    using get_bytes_write_same [OF ok, of 0 "replicate 4096 0" "mm_mem st"] by (simp add: f)
  then show ?thesis
    using al ok by (auto simp: fresh_frame_def f same_page_write_bytes)
qed

lemma frame_alloc_None: "frame_alloc st = None \<longleftrightarrow> \<not> fa_room (mm_alloc st)"
  by (auto simp: frame_alloc_def fa_room_def StackFrameAllocator_alloc_def FrameTracker_new_def Let_def)

text \<open>
  C37. Frame allocation is safe: a frame returned by \<open>frame_alloc\<close> was not in use, is recorded as
  in use, contains only zeros, and no other page of memory changed; a request fails only when no
  frame is left.
\<close>

theorem frame_alloc_fresh_zeroed:
  assumes "fa_invar l (mm_alloc st)"
  shows "case frame_alloc st of
      None \<Rightarrow> fa_recycled (mm_alloc st) = [] \<and> fa_current (mm_alloc st) = fa_end (mm_alloc st)
    | Some (f, st') \<Rightarrow>
        ft_ppn f \<notin> fa_live l (mm_alloc st)
        \<and> fa_live l (mm_alloc st') = insert (ft_ppn f) (fa_live l (mm_alloc st))
        \<and> PhysPageNum_get_bytes_array (mm_mem st') (ft_ppn f) = replicate 4096 0
        \<and> (\<forall>q. ppn_ok q \<longrightarrow> q \<noteq> ft_ppn f \<longrightarrow>
             PhysPageNum_get_bytes_array (mm_mem st') q = PhysPageNum_get_bytes_array (mm_mem st) q)
        \<and> fa_invar l (mm_alloc st')"
  using frame_alloc_spec [OF assms] frame_alloc_None [of st]
  by (auto simp: fresh_frame_def same_page_def fa_room_def split: option.splits)

theorem frame_alloc_fresh_zeroed_witness:
  "case frame_alloc \<lparr>mm_mem = (\<lambda>_. 1),
       mm_alloc = \<lparr>fa_current = 0x80400, fa_end = 0x88000, fa_recycled = [0x80300]\<rparr>\<rparr> of
      None \<Rightarrow> False
    | Some (f, st') \<Rightarrow> PhysPageNum_get_bytes_array (mm_mem st') (ft_ppn f) = replicate 4096 0"
  using frame_alloc_fresh_zeroed [of "0x80200" "\<lparr>mm_mem = (\<lambda>_. 1),
       mm_alloc = \<lparr>fa_current = 0x80400, fa_end = 0x88000, fa_recycled = [0x80300]\<rparr>\<rparr>"]
  by (auto simp: fa_invar_def split: option.splits)

text \<open>
  C13. A client that holds frame trackers and drops each of them once never sees the same frame
  twice and never makes the allocator panic: in every history from the initial state the frames
  held are distinct, they are exactly the frames in use, and each can be dropped, after which a
  frame is available again.
\<close>

theorem frame_trackers_unique:
  assumes "l \<le> r" and "unat (ppn0 r) \<le> 2 ^ 44"
    and "(client_step StackFrameAllocator_alloc StackFrameAllocator_dealloc)\<^sup>*\<^sup>*
      (StackFrameAllocator_init StackFrameAllocator_new l r, []) (s, hs)"
  shows "distinct hs \<and> set hs = fa_live (ppn0 l) s
    \<and> (\<forall>p \<in> set hs. \<exists>s'. StackFrameAllocator_dealloc s p = Inr s' \<and> StackFrameAllocator_alloc s' \<noteq> None)"
proof -
  have h: "fa.held (ppn0 l) (s, hs)"
    using assms(3)
  proof (induction rule: rtranclp_induct2)
    case refl
    show ?case using fa_new_init [OF assms(1,2)] by (simp add: fa.held_def)
  next
    case (step s hs s' hs')
    show ?case
      using step.hyps(2)
    proof (cases rule: client_step.cases)
      case (Take i)
      then show ?thesis using fa.held_step [OF step.hyps(2) step.IH] fa_alloc_room by blast
    next
      case (Drop i)
      then show ?thesis using fa.drop_ok [OF step.IH, of i] by auto
    qed
  qed
  then have "distinct hs \<and> set hs = fa_live (ppn0 l) s" by (simp add: fa.held_def)
  moreover have "\<exists>s'. StackFrameAllocator_dealloc s p = Inr s' \<and> StackFrameAllocator_alloc s' \<noteq> None"
    if "p \<in> set hs" for p
    using fa.drop_ok [OF h that] by auto
  ultimately show ?thesis by simp
qed

theorem frame_trackers_unique_witness:
  "fa_live 0x80400 \<lparr>fa_current = 0x80401, fa_end = 0x88000, fa_recycled = []\<rparr> = {PhysPageNum 0x80400}"
proof -
  have "client_step StackFrameAllocator_alloc StackFrameAllocator_dealloc
      (StackFrameAllocator_init StackFrameAllocator_new (PhysPageNum 0x80400) (PhysPageNum 0x88000), [])
      (\<lparr>fa_current = 0x80401, fa_end = 0x88000, fa_recycled = []\<rparr>, [PhysPageNum 0x80400])"
    by (intro client_step.Take)
      (simp add: StackFrameAllocator_init_def StackFrameAllocator_new_def StackFrameAllocator_alloc_def)
  then show ?thesis
    using frame_trackers_unique [OF _ _ r_into_rtranclp, of "PhysPageNum 0x80400" "PhysPageNum 0x88000"
        "\<lparr>fa_current = 0x80401, fa_end = 0x88000, fa_recycled = []\<rparr>" "[PhysPageNum 0x80400]"]
    by (simp add: newtype_order)
qed

text \<open>
  The release check rejects what was never handed out above the range or twice, but not a frame
  below the managed range: such a frame is accepted and handed out by the next request.
\<close>

lemma dealloc_below_range:
  assumes "fa_invar l s" and "ppn0 p < l" and "ppn_ok p"
  shows "\<exists>s'. StackFrameAllocator_dealloc s p = Inr s' \<and> StackFrameAllocator_alloc s' = Some (p, s)"
proof -
  have "ppn0 p < fa_current s" using assms(1,2) by (auto simp: fa_invar_def)
  moreover have "ppn0 p \<notin> set (fa_recycled s)"
    using assms(1,2) by (auto simp: fa_invar_def list_all_iff)
  ultimately show ?thesis
    using assms(3) by (simp add: StackFrameAllocator_dealloc_def StackFrameAllocator_alloc_def
        list_ex_iff ppn_ok_def not_le)
qed

text \<open>A request for exactly the frames left above \<open>current\<close> is refused.\<close>

lemma alloc_more_exact_fit:
  "fa_current s + pages = fa_end s \<Longrightarrow> StackFrameAllocator_alloc_more s pages = None"
  by (simp add: StackFrameAllocator_alloc_more_def)

end
