(* ===== verification/Page_Table.thy ===== *)
theory Page_Table
  imports Frame_Allocator
begin

text \<open>
  The SV39 page table of \<open>os/src/hal/arch/riscv/sv39.rs\<close>: page-table entries, the walk with and
  without creation of missing tables, \<open>map\<close>, \<open>unmap\<close> and the translations. A \<open>&mut
  PageTableEntry\<close> is the physical address of the entry. The invariant \<open>pt_inv\<close> says that the
  tables reachable from the root form a tree of frames owned by the page table; under it a page
  table refines a finite map from virtual page numbers to entries (\<open>lookup\<close>), which \<open>map\<close> and
  \<open>unmap\<close> update at one point.
\<close>

section \<open>Flags and entries\<close>

definition PTE_V :: u8 where "PTE_V = 1"
definition PTE_R :: u8 where "PTE_R = 2"
definition PTE_W :: u8 where "PTE_W = 4"
definition PTE_X :: u8 where "PTE_X = 8"
definition PTE_U :: u8 where "PTE_U = 16"
definition PTE_G :: u8 where "PTE_G = 32"
definition PTE_A :: u8 where "PTE_A = 64"
definition PTE_D :: u8 where "PTE_D = 128"

definition PTEFlags_all :: u8 where
  "PTEFlags_all = PTE_V OR PTE_R OR PTE_W OR PTE_X OR PTE_U OR PTE_G OR PTE_A OR PTE_D"

lemmas pte_flag_defs =
  PTE_V_def PTE_R_def PTE_W_def PTE_X_def PTE_U_def PTE_G_def PTE_A_def PTE_D_def

definition MapPermission_R :: u8 where "MapPermission_R = 2"
definition MapPermission_W :: u8 where "MapPermission_W = 4"
definition MapPermission_X :: u8 where "MapPermission_X = 8"
definition MapPermission_U :: u8 where "MapPermission_U = 16"

definition MapPermission_all :: u8 where
  "MapPermission_all = MapPermission_R OR MapPermission_W OR MapPermission_X OR MapPermission_U"

lemmas perm_defs =
  MapPermission_R_def MapPermission_W_def MapPermission_X_def MapPermission_U_def
  MapPermission_all_def

datatype PageTableEntry = PageTableEntry (pte_bits: usize)

definition PageTableEntry_new :: "PhysPageNum \<Rightarrow> u8 \<Rightarrow> PageTableEntry" where
  "PageTableEntry_new ppn flags = PageTableEntry (push_bit 10 (ppn0 ppn) OR ucast flags)"

definition PageTableEntry_empty :: PageTableEntry where
  "PageTableEntry_empty = PageTableEntry 0"

definition PageTableEntry_ppn :: "PageTableEntry \<Rightarrow> PhysPageNum" where
  "PageTableEntry_ppn e = PhysPageNum_from (drop_bit 10 (pte_bits e) AND (push_bit 44 1 - 1))"

text \<open>All eight bits are declared flags, so the \<open>unwrap\<close> of \<open>flags()\<close> cannot fail.\<close>

definition PageTableEntry_flags :: "PageTableEntry \<Rightarrow> u8" where
  "PageTableEntry_flags e = the (bitflags_from_bits PTEFlags_all (ucast (pte_bits e)))"

definition PageTableEntry_is_valid :: "PageTableEntry \<Rightarrow> bool" where
  "PageTableEntry_is_valid e \<longleftrightarrow> PageTableEntry_flags e AND PTE_V \<noteq> 0"

definition PageTableEntry_readable :: "PageTableEntry \<Rightarrow> bool" where
  "PageTableEntry_readable e \<longleftrightarrow> PageTableEntry_flags e AND PTE_R \<noteq> 0"

definition PageTableEntry_writable :: "PageTableEntry \<Rightarrow> bool" where
  "PageTableEntry_writable e \<longleftrightarrow> PageTableEntry_flags e AND PTE_W \<noteq> 0"

definition PageTableEntry_executable :: "PageTableEntry \<Rightarrow> bool" where
  "PageTableEntry_executable e \<longleftrightarrow> PageTableEntry_flags e AND PTE_X \<noteq> 0"

section \<open>The page table\<close>

record SV39PageTable =
  root_ppn :: PhysPageNum
  frames :: "FrameTracker list"

definition SV39_new :: "mm \<Rightarrow> (SV39PageTable \<times> mm) result" where
  "SV39_new st =
     rbind (unwrap (frame_alloc st)) (\<lambda>(frame, st').
     Inr (\<lparr>root_ppn = ft_ppn frame, frames = [frame]\<rparr>, st'))"

definition SV39_new_kernel :: "mm \<Rightarrow> (SV39PageTable \<times> mm) result" where
  "SV39_new_kernel st =
     rbind (unwrap (frame_alloc st)) (\<lambda>(frame, st').
     Inr (\<lparr>root_ppn = ft_ppn frame, frames = [frame]\<rparr>, st'))"

definition SV39_from_token :: "usize \<Rightarrow> SV39PageTable" where
  "SV39_from_token satp =
     \<lparr>root_ppn = PhysPageNum_from (satp AND (push_bit 44 1 - 1)), frames = []\<rparr>"

definition SV39_token :: "SV39PageTable \<Rightarrow> usize" where
  "SV39_token pt = push_bit 60 8 OR ppn0 (root_ppn pt)"

text \<open>
  \<open>&mut ppn.get_pte_array()[idx]\<close>: the address of an entry. The indexes are masked with 511
  (\<open>indexes_less\<close>), so that the bounds check of the 512-entry slice always passes.
\<close>

definition pte_slot :: "PhysPageNum \<Rightarrow> usize \<Rightarrow> usize" where
  "pte_slot ppn idx = pa0 (PhysAddr_from_PhysPageNum ppn) + 8 * idx"

definition pte_load :: "memory \<Rightarrow> usize \<Rightarrow> PageTableEntry" where
  "pte_load m a = PageTableEntry (read_u64 m a)"

definition pte_store :: "memory \<Rightarrow> usize \<Rightarrow> PageTableEntry \<Rightarrow> memory" where
  "pte_store m a e = write_u64 m a (pte_bits e)"

text \<open>
  The loop of \<open>find_pte_create\<close> over the enumerated indexes; \<open>create_table\<close> is its body's
  \<open>if !pte.is_valid()\<close>.
\<close>

definition create_table ::
  "usize \<Rightarrow> FrameTracker list \<Rightarrow> mm \<Rightarrow> (FrameTracker list \<times> mm) result" where
  "create_table pte fs st =
     (if \<not> PageTableEntry_is_valid (pte_load (mm_mem st) pte)
      then rbind (unwrap (frame_alloc st)) (\<lambda>(frame, st').
           Inr (fs @ [frame],
                st'\<lparr>mm_mem := pte_store (mm_mem st') pte (PageTableEntry_new (ft_ppn frame) PTE_V)\<rparr>))
      else Inr (fs, st))"

fun find_pte_create_loop ::
  "(nat \<times> usize) list \<Rightarrow> PhysPageNum \<Rightarrow> FrameTracker list \<Rightarrow> mm
     \<Rightarrow> (usize option \<times> FrameTracker list \<times> mm) result" where
  "find_pte_create_loop [] ppn fs st = Inr (None, fs, st)"
| "find_pte_create_loop ((i, idx) # idxs) ppn fs st =
     (let pte = pte_slot ppn idx in
      if i = 2 then Inr (Some pte, fs, st)
      else
        rbind (create_table pte fs st) (\<lambda>(fs', st').
        find_pte_create_loop idxs (PageTableEntry_ppn (pte_load (mm_mem st') pte)) fs' st'))"

definition SV39_find_pte_create ::
  "SV39PageTable \<Rightarrow> VirtPageNum \<Rightarrow> mm \<Rightarrow> (usize option \<times> SV39PageTable \<times> mm) result" where
  "SV39_find_pte_create pt vpn st =
     rbind (find_pte_create_loop (enumerate 0 (indexes vpn)) (root_ppn pt) (frames pt) st)
       (\<lambda>(r, fs, st'). Inr (r, pt\<lparr>frames := fs\<rparr>, st'))"

fun find_pte_loop :: "(nat \<times> usize) list \<Rightarrow> PhysPageNum \<Rightarrow> memory \<Rightarrow> usize option" where
  "find_pte_loop [] ppn m = None"
| "find_pte_loop ((i, idx) # idxs) ppn m =
     (let pte = pte_slot ppn idx in
      if i = 2 then Some pte
      else if \<not> PageTableEntry_is_valid (pte_load m pte) then None
      else find_pte_loop idxs (PageTableEntry_ppn (pte_load m pte)) m)"

definition SV39_find_pte :: "SV39PageTable \<Rightarrow> VirtPageNum \<Rightarrow> memory \<Rightarrow> usize option" where
  "SV39_find_pte pt vpn m = find_pte_loop (enumerate 0 (indexes vpn)) (root_ppn pt) m"

definition SV39_map ::
  "SV39PageTable \<Rightarrow> VirtPageNum \<Rightarrow> PhysPageNum \<Rightarrow> u8 \<Rightarrow> mm \<Rightarrow> (SV39PageTable \<times> mm) result" where
  "SV39_map pt vpn ppn flags st =
     rbind (SV39_find_pte_create pt vpn st) (\<lambda>(r, pt', st').
     rbind (unwrap r) (\<lambda>pte.
     rbind (rassert (\<not> PageTableEntry_is_valid (pte_load (mm_mem st') pte))) (\<lambda>_.
     rbind (unwrap (bitflags_from_bits PTEFlags_all flags)) (\<lambda>fl.
     Inr (pt', st'\<lparr>mm_mem := pte_store (mm_mem st') pte (PageTableEntry_new ppn (fl OR PTE_V))\<rparr>)))))"

definition SV39_unmap :: "SV39PageTable \<Rightarrow> VirtPageNum \<Rightarrow> mm \<Rightarrow> mm result" where
  "SV39_unmap pt vpn st =
     rbind (unwrap (SV39_find_pte pt vpn (mm_mem st))) (\<lambda>pte.
     rbind (rassert (PageTableEntry_is_valid (pte_load (mm_mem st) pte))) (\<lambda>_.
     Inr (st\<lparr>mm_mem := pte_store (mm_mem st) pte PageTableEntry_empty\<rparr>)))"

definition SV39_translate :: "SV39PageTable \<Rightarrow> VirtPageNum \<Rightarrow> memory \<Rightarrow> PageTableEntry option" where
  "SV39_translate pt vpn m = map_option (pte_load m) (SV39_find_pte pt vpn m)"

definition SV39_translate_va :: "SV39PageTable \<Rightarrow> VirtAddr \<Rightarrow> memory \<Rightarrow> PhysAddr option" where
  "SV39_translate_va pt va m =
     map_option (\<lambda>pte.
        let aligned_pa = PhysAddr_from_PhysPageNum (PageTableEntry_ppn (pte_load m pte));
            offset = VirtAddr_page_offset va;
            aligned_pa_usize = usize_from_PhysAddr aligned_pa
        in PhysAddr_from (aligned_pa_usize + offset))
       (SV39_find_pte pt (VirtAddr_floor va) m)"

section \<open>Entries\<close>

lemma PTEFlags_all_eq: "PTEFlags_all = - 1"
  by (simp add: PTEFlags_all_def pte_flag_defs)

lemma PTEFlags_from_bits [simp]: "bitflags_from_bits PTEFlags_all b = Some b"
  by (simp add: bitflags_from_bits_def PTEFlags_all_eq)

lemma flags_eq: "PageTableEntry_flags e = ucast (pte_bits e)"
  by (simp add: PageTableEntry_flags_def)

lemma and_1_word: "w AND 1 \<noteq> 0 \<longleftrightarrow> bit (w :: 'a::len word) 0"
  by (simp add: and_one_eq odd_iff_mod_2_eq_one bit_0 even_iff_mod_2_eq_zero)

lemma is_valid_bit: "PageTableEntry_is_valid e \<longleftrightarrow> bit (pte_bits e) 0"
  by (simp add: PageTableEntry_is_valid_def flags_eq PTE_V_def and_1_word bit_ucast_iff)

lemma is_valid_empty [simp]: "\<not> PageTableEntry_is_valid (PageTableEntry 0)"
  "\<not> PageTableEntry_is_valid PageTableEntry_empty"
  by (simp_all add: is_valid_bit PageTableEntry_empty_def)

lemma is_valid_new [simp]: "PageTableEntry_is_valid (PageTableEntry_new p (fl OR PTE_V))"
  "PageTableEntry_is_valid (PageTableEntry_new p PTE_V)"
  by (simp_all add: is_valid_bit PageTableEntry_new_def PTE_V_def bit_simps)

lemma ppn_bits: "PageTableEntry_ppn e = PhysPageNum (take_bit 44 (drop_bit 10 (pte_bits e)))"
  by (simp only: PageTableEntry_ppn_def and_mask_push from_take_bit take_bit_take_bit) simp

lemma ppn_new [simp]:
  assumes "ppn_ok p"
  shows "PageTableEntry_ppn (PageTableEntry_new p fl) = p"
proof -
  have high: "n < 44" if "bit (ppn0 p) n" for n
    using assms that take_bit_word_self [of "ppn0 p" 44] by (metis bit_take_bit_iff ppn_ok_def)
  have "take_bit 44 (drop_bit 10 (push_bit 10 (ppn0 p) OR ucast fl)) = ppn0 p"
    by (rule bit_word_eqI) (auto simp: bit_simps dest: high bit_imp_le_length)
  then show ?thesis
    by (simp only: ppn_bits PageTableEntry_new_def PageTableEntry.sel PhysPageNum.collapse)
qed

lemma flags_new [simp]: "PageTableEntry_flags (PageTableEntry_new p fl) = fl"
  by (rule bit_word_eqI) (auto simp: flags_eq PageTableEntry_new_def bit_simps)

lemma ppn_ok_PageTableEntry_ppn [simp]: "ppn_ok (PageTableEntry_ppn e)"
  using unat_take_bit_less [of 44 "drop_bit 10 (pte_bits e)"]
  by (simp only: ppn_bits ppn_ok_def PhysPageNum.sel) simp

section \<open>The tree of tables\<close>

text \<open>\<open>node m r is\<close>: the table reached from the table \<open>r\<close> by following the indexes \<open>is\<close>.\<close>

definition entry :: "memory \<Rightarrow> PhysPageNum \<Rightarrow> usize \<Rightarrow> PageTableEntry" where
  "entry m p i = PageTableEntry (pte_read m p i)"

fun node :: "memory \<Rightarrow> PhysPageNum \<Rightarrow> usize list \<Rightarrow> PhysPageNum option" where
  "node m p [] = Some p"
| "node m p (i # is) =
     (if PageTableEntry_is_valid (entry m p i) then node m (PageTableEntry_ppn (entry m p i)) is
      else None)"

lemma slot_page_addr: "unat i < 512 \<Longrightarrow> pte_slot p i = page_addr p (8 * unat i)"
  by (simp add: pte_slot_def page_addr_def)

lemma load_slot: "unat i < 512 \<Longrightarrow> pte_load m (pte_slot p i) = entry m p i"
  by (simp add: pte_load_def entry_def pte_read_def slot_page_addr)

lemma entry_store:
  "ppn_ok p \<Longrightarrow> ppn_ok q \<Longrightarrow> unat i < 512 \<Longrightarrow> unat j < 512 \<Longrightarrow>
     entry (pte_store m (pte_slot p i) e) q j = (if p = q \<and> i = j then e else entry m q j)"
  by (simp add: entry_def pte_store_def slot_page_addr pte_read_write)

lemma same_page_store:
  "ppn_ok p \<Longrightarrow> ppn_ok q \<Longrightarrow> p \<noteq> q \<Longrightarrow> unat i < 512 \<Longrightarrow>
     same_page m (pte_store m (pte_slot p i) e) q"
  by (simp add: pte_store_def slot_page_addr same_page_write_u64)

lemma entry_same_page: "same_page m m' p \<Longrightarrow> unat i < 512 \<Longrightarrow> entry m' p i = entry m p i"
  by (simp add: entry_def pte_read_same_page)

lemma node_append:
  "node m p (is @ js) = (case node m p is of None \<Rightarrow> None | Some q \<Rightarrow> node m q js)"
  by (induction "is" arbitrary: p) auto

lemma node_snoc:
  "node m p (is @ [i]) = (case node m p is of None \<Rightarrow> None
     | Some q \<Rightarrow> if PageTableEntry_is_valid (entry m q i) then Some (PageTableEntry_ppn (entry m q i))
                else None)"
  by (simp add: node_append split: option.splits)

lemma node_cong:
  assumes "\<And>js i ks q. is = js @ i # ks \<Longrightarrow> node m p js = Some q \<Longrightarrow> entry m' q i = entry m q i"
  shows "node m' p is = node m p is"
  using assms
proof (induction "is" rule: rev_induct)
  case (snoc i "is")
  have "node m' p is = node m p is"
    using snoc.prems by (intro snoc.IH) simp
  moreover have "entry m' q i = entry m q i" if "node m p is = Some q" for q
    using snoc.prems [of "is" i "[]" q] that by simp
  ultimately show ?case by (simp add: node_snoc split: option.splits)
qed simp

declare node.simps(2) [simp del]

text \<open>The paths that lead to a table: at most two indexes, each below 512.\<close>

definition is_path :: "usize list \<Rightarrow> bool" where
  "is_path is \<longleftrightarrow> length is \<le> 2 \<and> list_all (\<lambda>i. unat i < 512) is"

lemma is_path_prefix: "is_path (is @ js) \<Longrightarrow> is_path is"
  by (simp add: is_path_def)

lemma is_path_indexes:
  obtains i j k where "indexes v = [i, j, k]" "is_path [i, j]" "unat k < 512"
proof
  show "indexes v = [indexes v ! 0, indexes v ! 1, indexes v ! 2]" by (simp add: indexes_eq)
  show "is_path [indexes v ! 0, indexes v ! 1]" "unat (indexes v ! 2) < 512"
    using indexes_less [of _ v] by (simp_all add: is_path_def indexes_eq)
qed

text \<open>
  \<open>pt_tree m r T\<close>: the tables reachable from \<open>r\<close> lie in \<open>T\<close> and no table is reachable by two
  paths.
\<close>

definition pt_tree :: "memory \<Rightarrow> PhysPageNum \<Rightarrow> PhysPageNum set \<Rightarrow> bool" where
  "pt_tree m r T \<longleftrightarrow>
     (\<forall>is p. is_path is \<longrightarrow> node m r is = Some p \<longrightarrow> p \<in> T \<and> ppn_ok p)
     \<and> (\<forall>is js p. is_path is \<longrightarrow> is_path js \<longrightarrow> node m r is = Some p \<longrightarrow> node m r js = Some p \<longrightarrow> is = js)"

lemma pt_treeD:
  assumes "pt_tree m r T" "is_path is" "node m r is = Some p"
  shows "p \<in> T" "ppn_ok p" "is_path js \<Longrightarrow> node m r js = Some p \<Longrightarrow> js = is"
  using assms unfolding pt_tree_def by blast+

text \<open>The finite map a page table stands for: the valid leaf entries.\<close>

definition lookup :: "memory \<Rightarrow> PhysPageNum \<Rightarrow> VirtPageNum \<Rightarrow> PageTableEntry option" where
  "lookup m r v =
     (case node m r [indexes v ! 0, indexes v ! 1] of
        None \<Rightarrow> None
      | Some p \<Rightarrow> (let e = entry m p (indexes v ! 2) in if PageTableEntry_is_valid e then Some e else None))"

text \<open>A write to a leaf entry leaves the tables in place and changes the map at one point.\<close>

lemma leaf_store_node:
  assumes tree: "pt_tree m r T" and leaf: "is_path [i, j]" "node m r [i, j] = Some p" and k: "unat k < 512"
    and js: "is_path js"
  shows "node (pte_store m (pte_slot p k) e) r js = node m r js"
proof (rule node_cong)
  fix ks a ls q
  assume split: "js = ks @ a # ls" and q: "node m r ks = Some q"
  have path: "is_path ks" and len: "length ks < 2" and a: "unat a < 512"
    using js unfolding split is_path_def by auto
  have "p \<noteq> q"
  proof
    assume "p = q"
    then have "ks = [i, j]" using pt_treeD(3) [OF tree leaf path] q by simp
    with len show False by simp
  qed
  then show "entry (pte_store m (pte_slot p k) e) q a = entry m q a"
    using pt_treeD(2) [OF tree leaf] pt_treeD(2) [OF tree path q] a k by (simp add: entry_store)
qed

lemma leaf_store_tree:
  assumes "pt_tree m r T" "is_path [i, j]" "node m r [i, j] = Some p" "unat k < 512"
  shows "pt_tree (pte_store m (pte_slot p k) e) r T"
  using assms(1) leaf_store_node [OF assms] unfolding pt_tree_def by simp

lemma leaf_store_lookup:
  assumes tree: "pt_tree m r T" and v: "indexes v = [i, j, k]"
    and leaf: "is_path [i, j]" "node m r [i, j] = Some p" and k: "unat k < 512"
  shows "lookup (pte_store m (pte_slot p k) e) r w =
    (if indexes w = indexes v then (if PageTableEntry_is_valid e then Some e else None)
     else lookup m r w)"
proof -
  obtain a b c where w: "indexes w = [a, b, c]" and ab: "is_path [a, b]" and c: "unat c < 512"
    by (rule is_path_indexes)
  have n: "node (pte_store m (pte_slot p k) e) r [a, b] = node m r [a, b]"
    using leaf_store_node [OF tree leaf k ab] .
  show ?thesis
  proof (cases "node m r [a, b]")
    case None
    then have "[a, b] \<noteq> [i, j]" using leaf(2) by auto
    then show ?thesis using None n by (auto simp: lookup_def v w)
  next
    case (Some q)
    then have "entry (pte_store m (pte_slot p k) e) q c = (if p = q \<and> k = c then e else entry m q c)"
      using pt_treeD(2) [OF tree leaf] pt_treeD(2) [OF tree ab Some] k c by (simp add: entry_store)
    moreover have "p = q \<longleftrightarrow> [a, b] = [i, j]"
      using pt_treeD(3) [OF tree leaf ab] Some leaf(2) by auto
    ultimately show ?thesis using Some n by (auto simp: lookup_def v w Let_def)
  qed
qed

text \<open>
  Adding a table: \<open>f\<close> is a cleared page outside the tree, and the invalid entry \<open>k\<close> of the
  table at \<open>is\<close> is made to point to it. One path is added and the map stays the same.
\<close>

definition extends ::
  "memory \<Rightarrow> PhysPageNum \<Rightarrow> PhysPageNum set \<Rightarrow> usize list \<Rightarrow> PhysPageNum \<Rightarrow> usize \<Rightarrow> PhysPageNum \<Rightarrow> memory \<Rightarrow> bool"
where
  "extends m r T is p k f m1 \<longleftrightarrow> pt_tree m r T \<and> is_path (is @ [k]) \<and> node m r is = Some p
     \<and> \<not> PageTableEntry_is_valid (entry m p k) \<and> f \<notin> T \<and> ppn_ok f
     \<and> PhysPageNum_get_bytes_array m1 f = replicate 4096 0
     \<and> (\<forall>q. ppn_ok q \<longrightarrow> q \<noteq> f \<longrightarrow> same_page m m1 q)"

abbreviation link_table :: "memory \<Rightarrow> PhysPageNum \<Rightarrow> usize \<Rightarrow> PhysPageNum \<Rightarrow> memory" where
  "link_table m1 p k f \<equiv> pte_store m1 (pte_slot p k) (PageTableEntry_new f PTE_V)"

lemma extendsD:
  assumes "extends m r T is p k f m1"
  shows "pt_tree m r T" "is_path is" "length is < 2" "unat k < 512" "node m r is = Some p"
    "p \<in> T" "ppn_ok p" "p \<noteq> f" "ppn_ok f" "f \<notin> T"
proof -
  show tree: "pt_tree m r T" and path: "is_path is" and "length is < 2" "unat k < 512"
    and node: "node m r is = Some p" and "ppn_ok f" and "f \<notin> T"
    using assms unfolding extends_def is_path_def by simp_all
  show "p \<in> T" "ppn_ok p" by (rule pt_treeD [OF tree path node])+
  with \<open>f \<notin> T\<close> show "p \<noteq> f" by blast
qed

lemma extends_entry:
  assumes ext: "extends m r T is p k f m1" and i: "unat i < 512"
  shows "q \<in> T \<Longrightarrow> ppn_ok q \<Longrightarrow> entry (link_table m1 p k f) q i =
      (if p = q \<and> k = i then PageTableEntry_new f PTE_V else entry m q i)"
    and "entry (link_table m1 p k f) f i = PageTableEntry 0"
proof -
  note d = extendsD [OF ext]
  show "entry (link_table m1 p k f) q i =
      (if p = q \<and> k = i then PageTableEntry_new f PTE_V else entry m q i)"
    if q: "q \<in> T" "ppn_ok q"
  proof -
    have "same_page m m1 q" using ext q d(10) unfolding extends_def by metis
    then show ?thesis using d q i by (simp add: entry_store entry_same_page)
  qed
  have "pte_read m1 f i = 0"
    using ext i by (intro pte_read_zero_page) (simp_all add: extends_def)
  then show "entry (link_table m1 p k f) f i = PageTableEntry 0"
    using d i entry_store [of p f k i] by (simp add: entry_def)
qed

lemma extends_node:
  assumes ext: "extends m r T is p k f m1" and js: "is_path js"
  shows "node (link_table m1 p k f) r js = (if js = is @ [k] then Some f else node m r js)"
proof -
  note d = extendsD [OF ext]
  let ?m = "link_table m1 p k f"
  have off_path: "node ?m r js = node m r js"
    if "is_path js" and off: "\<And>ls. js \<noteq> is @ k # ls" for js
  proof (rule node_cong)
    fix ks a ls q
    assume split: "js = ks @ a # ls" and q: "node m r ks = Some q"
    have path: "is_path ks" and a: "unat a < 512" using that(1) unfolding split is_path_def by auto
    have "\<not> (p = q \<and> k = a)"
    proof
      assume "p = q \<and> k = a"
      then have "js = is @ k # ls"
        using pt_treeD(3) [OF d(1,2,5) path] q split by simp
      with off show False by blast
    qed
    then show "entry ?m q a = entry m q a"
      using extends_entry(1) [OF ext a] pt_treeD(1,2) [OF d(1) path q] by auto
  qed
  have "node ?m r is = Some p"
    using off_path [OF d(2)] d(5) by simp
  moreover have "entry ?m p k = PageTableEntry_new f PTE_V"
    using extends_entry(1) [OF ext d(4) d(6,7)] by simp
  ultimately have new: "node ?m r (is @ [k]) = Some f"
    using d(9) by (simp add: node_snoc)
  show ?thesis
  proof (cases "\<exists>ls. js = is @ k # ls")
    case False
    then show ?thesis using off_path [OF js] by auto
  next
    case True
    then obtain ls where ls: "js = is @ k # ls" by blast
    have none: "node m r (is @ k # ls) = None"
      using ext d(5) by (simp add: node_append node.simps(2) extends_def)
    show ?thesis
    proof (cases ls)
      case Nil
      then show ?thesis using new ls by simp
    next
      case (Cons a as)
      then have "unat a < 512" using js unfolding ls is_path_def by auto
      then have "node ?m f (a # as) = None"
        using extends_entry(2) [OF ext] by (simp add: node.simps(2))
      then have "node ?m r ((is @ [k]) @ ls) = None"
        using new unfolding Cons node_append by simp
      then show ?thesis using none ls Cons by simp
    qed
  qed
qed

lemma extends_tree:
  assumes ext: "extends m r T is p k f m1"
  shows "pt_tree (link_table m1 p k f) r (insert f T)"
proof -
  note d = extendsD [OF ext]
  have "f \<noteq> q" if "node m r js = Some q" "is_path js" for q js
    using pt_treeD(1) [OF d(1) that(2,1)] d(10) by auto
  then show ?thesis
    using d(1,9) unfolding pt_tree_def by (auto simp: extends_node [OF ext] split: if_splits)
qed

lemma extends_lookup:
  assumes ext: "extends m r T is p k f m1"
  shows "lookup (link_table m1 p k f) r w = lookup m r w"
proof -
  note d = extendsD [OF ext]
  obtain a b c where w: "indexes w = [a, b, c]" and ab: "is_path [a, b]" and c: "unat c < 512"
    by (rule is_path_indexes)
  show ?thesis
  proof (cases "[a, b] = is @ [k]")
    case True
    have "node m r (is @ [k]) = None"
      using ext d(5) by (simp add: node_snoc extends_def)
    then have "node m r [a, b] = None" by (simp only: True)
    moreover have "node (link_table m1 p k f) r [a, b] = Some f"
      using True extends_node [OF ext ab] by simp
    ultimately show ?thesis
      using extends_entry(2) [OF ext c] by (simp add: lookup_def w)
  next
    case False
    then have same: "node (link_table m1 p k f) r [a, b] = node m r [a, b]"
      using extends_node [OF ext ab] by (simp only: if_False)
    show ?thesis
    proof (cases "node m r [a, b]")
      case None
      then show ?thesis using same by (simp add: lookup_def w)
    next
      case (Some q)
      have "p \<noteq> q"
        using pt_treeD(3) [OF d(1,2,5) ab] Some d(3) by auto
      then have "entry (link_table m1 p k f) q c = entry m q c"
        using extends_entry(1) [OF ext c] pt_treeD(1,2) [OF d(1) ab Some] by simp
      then show ?thesis using same Some by (simp add: lookup_def w)
    qed
  qed
qed

section \<open>The invariant and the walk that creates tables\<close>

abbreviation tables :: "FrameTracker list \<Rightarrow> PhysPageNum set" where
  "tables fs \<equiv> ft_ppn ` set fs"

definition tree_inv :: "usize \<Rightarrow> PhysPageNum \<Rightarrow> FrameTracker list \<Rightarrow> mm \<Rightarrow> bool" where
  "tree_inv l r fs st \<longleftrightarrow> fa_invar l (mm_alloc st) \<and> pt_tree (mm_mem st) r (tables fs)
     \<and> tables fs \<subseteq> fa_live l (mm_alloc st) \<and> distinct (map ft_ppn fs)"

definition pt_inv :: "usize \<Rightarrow> SV39PageTable \<Rightarrow> mm \<Rightarrow> bool" where
  "pt_inv l pt st \<longleftrightarrow> tree_inv l (root_ppn pt) (frames pt) st"

text \<open>
  What the walk does besides finding the entry: it takes new frames \<open>fs'\<close> into the tree, keeps
  the map, and changes no page but those of the tree.
\<close>

definition grown ::
  "usize \<Rightarrow> PhysPageNum \<Rightarrow> FrameTracker list \<Rightarrow> mm \<Rightarrow> FrameTracker list \<Rightarrow> mm \<Rightarrow> bool" where
  "grown l r fs st fs' st' \<longleftrightarrow> tree_inv l r (fs @ fs') st'
     \<and> (\<forall>w. lookup (mm_mem st') r w = lookup (mm_mem st) r w)
     \<and> fa_live l (mm_alloc st') = fa_live l (mm_alloc st) \<union> tables fs'
     \<and> tables fs' \<inter> fa_live l (mm_alloc st) = {}
     \<and> fa_free (mm_alloc st') + length fs' = fa_free (mm_alloc st)
     \<and> (\<forall>q. ppn_ok q \<longrightarrow> q \<notin> tables (fs @ fs') \<longrightarrow> same_page (mm_mem st) (mm_mem st') q)"

lemma grown_refl: "tree_inv l r fs st \<Longrightarrow> grown l r fs st [] st"
  by (simp add: grown_def)

lemma grown_trans:
  assumes "grown l r fs st fs1 st1" and "grown l r (fs @ fs1) st1 fs2 st2"
  shows "grown l r fs st (fs1 @ fs2) st2"
proof -
  have "same_page (mm_mem st) (mm_mem st2) q" if "ppn_ok q" "q \<notin> tables (fs @ fs1 @ fs2)" for q
  proof -
    have "same_page (mm_mem st) (mm_mem st1) q" using assms(1) that unfolding grown_def by auto
    moreover have "same_page (mm_mem st1) (mm_mem st2) q" using assms(2) that unfolding grown_def by auto
    ultimately show ?thesis by (rule same_page_trans)
  qed
  moreover have "fa_live l (mm_alloc st2) = fa_live l (mm_alloc st) \<union> tables (fs1 @ fs2)"
    and "tables (fs1 @ fs2) \<inter> fa_live l (mm_alloc st) = {}"
    using assms unfolding grown_def by auto
  ultimately show ?thesis using assms unfolding grown_def by auto
qed

lemma create_table_spec:
  assumes inv: "tree_inv l r fs st" and path: "is_path (is @ [k])" and p: "node (mm_mem st) r is = Some p"
  shows "case create_table (pte_slot p k) fs st of
      Inl e \<Rightarrow> fa_free (mm_alloc st) = 0
    | Inr (fs', st') \<Rightarrow> \<exists>fs1. fs' = fs @ fs1 \<and> length fs1 \<le> 1 \<and> grown l r fs st fs1 st'
        \<and> node (mm_mem st') r (is @ [k])
            = Some (PageTableEntry_ppn (pte_load (mm_mem st') (pte_slot p k)))"
proof -
  have k: "unat k < 512" using path by (simp add: is_path_def)
  show ?thesis
  proof (cases "PageTableEntry_is_valid (entry (mm_mem st) p k)")
    case True
    then show ?thesis
      using inv k p by (simp add: create_table_def load_slot grown_refl node_snoc)
  next
    case invalid: False
    show ?thesis
    proof (cases "frame_alloc st")
      case None
      then have "fa_free (mm_alloc st) = 0"
        using inv fa_room_free [of l "mm_alloc st"] by (simp add: frame_alloc_None tree_inv_def)
      with None show ?thesis using invalid k by (simp add: create_table_def load_slot)
    next
      case (Some x)
      obtain f st1 where f: "frame_alloc st = Some (FrameTracker f, st1)"
        using Some by (metis FrameTracker.exhaust surj_pair)
      have fresh: "fresh_frame l st f st1"
        using frame_alloc_spec [OF _ f] inv by (simp add: tree_inv_def)
      have ext: "extends (mm_mem st) r (tables fs) is p k f (mm_mem st1)"
        using inv path p invalid fresh by (auto simp: extends_def tree_inv_def fresh_frame_def)
      let ?m = "link_table (mm_mem st1) p k f"
      have "tree_inv l r (fs @ [FrameTracker f]) (st1\<lparr>mm_mem := ?m\<rparr>)"
        using inv fresh extends_tree [OF ext] by (auto simp: tree_inv_def fresh_frame_def)
      moreover have "same_page (mm_mem st) ?m q"
        if "ppn_ok q" "q \<notin> tables (fs @ [FrameTracker f])" for q
      proof -
        have "q \<noteq> p" "q \<noteq> f" using that extendsD(6) [OF ext] by auto
        then have "same_page (mm_mem st) (mm_mem st1) q" using fresh that(1) by (simp add: fresh_frame_def)
        moreover have "same_page (mm_mem st1) ?m q"
          using \<open>q \<noteq> p\<close> that(1) extendsD(4,7) [OF ext] by (simp add: same_page_store)
        ultimately show ?thesis by (rule same_page_trans)
      qed
      moreover have "fa_free (mm_alloc st1) + 1 = fa_free (mm_alloc st)"
        using inv f by (intro frame_alloc_free) (auto simp: tree_inv_def)
      ultimately have "grown l r fs st [FrameTracker f] (st1\<lparr>mm_mem := ?m\<rparr>)"
        using fresh extends_lookup [OF ext] by (auto simp: grown_def fresh_frame_def)
      moreover have "node ?m r (is @ [k]) = Some (PageTableEntry_ppn (pte_load ?m (pte_slot p k)))"
        using extends_node [OF ext path] extends_entry(1) [OF ext k extendsD(6,7) [OF ext]] fresh k
        by (simp add: load_slot fresh_frame_def)
      ultimately show ?thesis
        using f invalid k by (simp add: create_table_def load_slot)
    qed
  qed
qed

lemma find_pte_create_loop_spec:
  assumes inv: "tree_inv l r fs st" and path: "is_path [i, j]"
  shows "case find_pte_create_loop [(0, i), (1, j), (2, k)] r fs st of
      Inl e \<Rightarrow> fa_free (mm_alloc st) < 2
    | Inr (res, fs', st') \<Rightarrow> \<exists>fs1 p. fs' = fs @ fs1 \<and> length fs1 \<le> 2 \<and> grown l r fs st fs1 st'
        \<and> res = Some (pte_slot p k) \<and> node (mm_mem st') r [i, j] = Some p"
proof -
  have path1: "is_path ([] @ [i])" using path by (simp add: is_path_def)
  note c1 = create_table_spec [OF inv path1, of r]
  show ?thesis
  proof (cases "create_table (pte_slot r i) fs st")
    case (Inl e)
    then show ?thesis using c1 by simp
  next
    case (Inr x)
    obtain fs1 st1 where t1: "create_table (pte_slot r i) fs st = Inr (fs @ fs1, st1)"
      and len1: "length fs1 \<le> 1" and g1: "grown l r fs st fs1 st1"
      and n1: "node (mm_mem st1) r [i] = Some (PageTableEntry_ppn (pte_load (mm_mem st1) (pte_slot r i)))"
      using c1 Inr by (cases x) auto
    let ?p = "PageTableEntry_ppn (pte_load (mm_mem st1) (pte_slot r i))"
    have inv1: "tree_inv l r (fs @ fs1) st1" using g1 by (simp add: grown_def)
    have free: "fa_free (mm_alloc st1) + length fs1 = fa_free (mm_alloc st)"
      using g1 by (simp add: grown_def)
    have path2: "is_path ([i] @ [j])" using path by simp
    note c2 = create_table_spec [OF inv1 path2 n1]
    show ?thesis
    proof (cases "create_table (pte_slot ?p j) (fs @ fs1) st1")
      case (Inl e)
      then show ?thesis using c2 t1 free len1 by simp
    next
      case (Inr y)
      obtain fs2 st2 where t2: "create_table (pte_slot ?p j) (fs @ fs1) st1 = Inr ((fs @ fs1) @ fs2, st2)"
        and len2: "length fs2 \<le> 1" and g2: "grown l r (fs @ fs1) st1 fs2 st2"
        and n2: "node (mm_mem st2) r [i, j]
          = Some (PageTableEntry_ppn (pte_load (mm_mem st2) (pte_slot ?p j)))"
        using c2 Inr by (cases y) auto
      have "find_pte_create_loop [(0, i), (1, j), (2, k)] r fs st =
          Inr (Some (pte_slot (PageTableEntry_ppn (pte_load (mm_mem st2) (pte_slot ?p j))) k),
               fs @ fs1 @ fs2, st2)"
        using t1 t2 by (simp add: Let_def)
      then show ?thesis
        using grown_trans [OF g1 g2] n2 len1 len2 by simp
    qed
  qed
qed

lemma enumerate_indexes: "indexes v = [i, j, k] \<Longrightarrow> enumerate 0 (indexes v) = [(0, i), (1, j), (2, k)]"
  by simp

text \<open>The specification of \<open>find_pte_create\<close>, used by \<open>map\<close>.\<close>

lemma find_pte_create_spec:
  assumes inv: "pt_inv l pt st" and v: "indexes v = [i, j, k]" and path: "is_path [i, j]"
  shows "case SV39_find_pte_create pt v st of
      Inl e \<Rightarrow> fa_free (mm_alloc st) < 2
    | Inr (res, pt', st') \<Rightarrow> \<exists>fs1 p. pt' = pt\<lparr>frames := frames pt @ fs1\<rparr> \<and> length fs1 \<le> 2
        \<and> grown l (root_ppn pt) (frames pt) st fs1 st'
        \<and> res = Some (pte_slot p k) \<and> node (mm_mem st') (root_ppn pt) [i, j] = Some p"
  using find_pte_create_loop_spec [OF inv [unfolded pt_inv_def] path, of k]
  by (auto simp: SV39_find_pte_create_def enumerate_indexes [OF v] rbind_def simp del: find_pte_create_loop.simps
      split: sum.splits)

lemma find_pte_eq:
  assumes v: "indexes v = [i, j, k]" and path: "is_path [i, j]"
  shows "SV39_find_pte pt v m = map_option (\<lambda>p. pte_slot p k) (node m (root_ppn pt) [i, j])"
  using path
  by (simp add: SV39_find_pte_def enumerate_indexes [OF v] node.simps(2) load_slot is_path_def Let_def)

abbreviation pt_lookup :: "SV39PageTable \<Rightarrow> mm \<Rightarrow> VirtPageNum \<Rightarrow> PageTableEntry option" where
  "pt_lookup pt st \<equiv> lookup (mm_mem st) (root_ppn pt)"

text \<open>
  The effect of an update of the map at one page: the invariant is kept, the frames of the page
  table grow by fresh ones, and no page outside the page table is written.
\<close>

definition pt_effect ::
  "usize \<Rightarrow> SV39PageTable \<Rightarrow> mm \<Rightarrow> SV39PageTable \<Rightarrow> mm \<Rightarrow> bool" where
  "pt_effect l pt st pt' st' \<longleftrightarrow> pt_inv l pt' st' \<and> root_ppn pt' = root_ppn pt
     \<and> (\<exists>fs. frames pt' = frames pt @ fs \<and> length fs \<le> 2
          \<and> fa_live l (mm_alloc st') = fa_live l (mm_alloc st) \<union> tables fs
          \<and> tables fs \<inter> fa_live l (mm_alloc st) = {}
          \<and> fa_free (mm_alloc st') + length fs = fa_free (mm_alloc st))
     \<and> (\<forall>q. ppn_ok q \<longrightarrow> q \<notin> tables (frames pt') \<longrightarrow> same_page (mm_mem st) (mm_mem st') q)"

lemma SV39_map_spec:
  assumes inv: "pt_inv l pt st"
  shows "case SV39_map pt v ppn flags st of
      Inl e \<Rightarrow> fa_free (mm_alloc st) < 2 \<or> pt_lookup pt st v \<noteq> None
    | Inr (pt', st') \<Rightarrow> pt_lookup pt st v = None \<and> pt_effect l pt st pt' st'
        \<and> (\<forall>w. pt_lookup pt' st' w =
              (if indexes w = indexes v then Some (PageTableEntry_new ppn (flags OR PTE_V))
               else pt_lookup pt st w))"
proof -
  obtain i j k where v: "indexes v = [i, j, k]" and path: "is_path [i, j]" and k: "unat k < 512"
    by (rule is_path_indexes)
  note c = find_pte_create_spec [OF inv v path]
  show ?thesis
  proof (cases "SV39_find_pte_create pt v st")
    case (Inl e)
    then show ?thesis using c by (simp add: SV39_map_def)
  next
    case (Inr x)
    obtain fs1 p st1 where f: "SV39_find_pte_create pt v st = Inr (Some (pte_slot p k), pt\<lparr>frames := frames pt @ fs1\<rparr>, st1)"
      and len: "length fs1 \<le> 2" and g: "grown l (root_ppn pt) (frames pt) st fs1 st1"
      and n: "node (mm_mem st1) (root_ppn pt) [i, j] = Some p"
      using c Inr by (cases x) auto
    let ?r = "root_ppn pt" and ?e = "entry (mm_mem st1) p k"
    have inv1: "tree_inv l ?r (frames pt @ fs1) st1" using g by (simp add: grown_def)
    then have tree: "pt_tree (mm_mem st1) ?r (tables (frames pt @ fs1))" by (simp add: tree_inv_def)
    have look: "pt_lookup pt st v = (if PageTableEntry_is_valid ?e then Some ?e else None)"
    proof -
      have "pt_lookup pt st v = lookup (mm_mem st1) ?r v" using g by (simp add: grown_def)
      then show ?thesis using n by (simp add: lookup_def v Let_def)
    qed
    show ?thesis
    proof (cases "PageTableEntry_is_valid ?e")
      case True
      then show ?thesis using f look k by (simp add: SV39_map_def load_slot)
    next
      case False
      let ?new = "PageTableEntry_new ppn (flags OR PTE_V)"
      let ?m = "pte_store (mm_mem st1) (pte_slot p k) ?new"
      have m: "SV39_map pt v ppn flags st = Inr (pt\<lparr>frames := frames pt @ fs1\<rparr>, st1\<lparr>mm_mem := ?m\<rparr>)"
        using f False k by (simp add: SV39_map_def load_slot)
      have "tree_inv l ?r (frames pt @ fs1) (st1\<lparr>mm_mem := ?m\<rparr>)"
        using inv1 leaf_store_tree [OF tree path n k] by (simp add: tree_inv_def)
      moreover have "same_page (mm_mem st) ?m q" if "ppn_ok q" "q \<notin> tables (frames pt @ fs1)" for q
      proof -
        have "same_page (mm_mem st) (mm_mem st1) q" using g that by (auto simp: grown_def)
        moreover have "same_page (mm_mem st1) ?m q"
          using pt_treeD(1,2) [OF tree path n] that k by (intro same_page_store) auto
        ultimately show ?thesis by (rule same_page_trans)
      qed
      ultimately have "pt_effect l pt st (pt\<lparr>frames := frames pt @ fs1\<rparr>) (st1\<lparr>mm_mem := ?m\<rparr>)"
        using g len by (simp add: pt_effect_def pt_inv_def grown_def)
      then show ?thesis
        using m False look g leaf_store_lookup [OF tree v path n k, of ?new] by (simp add: grown_def)
    qed
  qed
qed

lemma SV39_unmap_spec:
  assumes inv: "pt_inv l pt st"
  shows "case SV39_unmap pt v st of
      Inl e \<Rightarrow> pt_lookup pt st v = None
    | Inr st' \<Rightarrow> pt_lookup pt st v \<noteq> None \<and> pt_effect l pt st pt st'
        \<and> (\<forall>w. pt_lookup pt st' w = (if indexes w = indexes v then None else pt_lookup pt st w))
        \<and> SV39_translate pt v (mm_mem st') = Some PageTableEntry_empty
        \<and> mm_alloc st' = mm_alloc st"
proof -
  obtain i j k where v: "indexes v = [i, j, k]" and path: "is_path [i, j]" and k: "unat k < 512"
    by (rule is_path_indexes)
  let ?r = "root_ppn pt"
  have tree: "pt_tree (mm_mem st) ?r (tables (frames pt))"
    using inv by (simp add: pt_inv_def tree_inv_def)
  show ?thesis
  proof (cases "node (mm_mem st) ?r [i, j]")
    case None
    then show ?thesis by (simp add: SV39_unmap_def find_pte_eq [OF v path] lookup_def v)
  next
    case (Some p)
    let ?e = "entry (mm_mem st) p k"
    have look: "pt_lookup pt st v = (if PageTableEntry_is_valid ?e then Some ?e else None)"
      using Some by (simp add: lookup_def v Let_def)
    show ?thesis
    proof (cases "PageTableEntry_is_valid ?e")
      case False
      then show ?thesis using Some k look by (simp add: SV39_unmap_def find_pte_eq [OF v path] load_slot)
    next
      case True
      let ?m = "pte_store (mm_mem st) (pte_slot p k) PageTableEntry_empty"
      have u: "SV39_unmap pt v st = Inr (st\<lparr>mm_mem := ?m\<rparr>)"
        using Some k True by (simp add: SV39_unmap_def find_pte_eq [OF v path] load_slot)
      have "tree_inv l ?r (frames pt) (st\<lparr>mm_mem := ?m\<rparr>)"
        using inv leaf_store_tree [OF tree path Some k] by (simp add: pt_inv_def tree_inv_def)
      moreover have "same_page (mm_mem st) ?m q" if "ppn_ok q" "q \<notin> tables (frames pt)" for q
        using pt_treeD(1,2) [OF tree path Some] that k by (intro same_page_store) auto
      ultimately have "pt_effect l pt st pt (st\<lparr>mm_mem := ?m\<rparr>)"
        by (simp add: pt_effect_def pt_inv_def)
      moreover have "SV39_translate pt v ?m = Some PageTableEntry_empty"
        using leaf_store_node [OF tree path Some k path, of PageTableEntry_empty] Some k
          pt_treeD(2) [OF tree path Some]
        by (simp add: SV39_translate_def find_pte_eq [OF v path] load_slot entry_store)
      ultimately show ?thesis
        using u look True leaf_store_lookup [OF tree v path Some k, of PageTableEntry_empty] by simp
    qed
  qed
qed

lemma translate_lookup: "lookup m (root_ppn pt) v = Some e \<Longrightarrow> SV39_translate pt v m = Some e"
proof -
  assume a: "lookup m (root_ppn pt) v = Some e"
  obtain i j k where v: "indexes v = [i, j, k]" and path: "is_path [i, j]" and k: "unat k < 512"
    by (rule is_path_indexes)
  show ?thesis
    using a k by (auto simp: SV39_translate_def find_pte_eq [OF v path] lookup_def v load_slot Let_def
        split: option.splits if_splits)
qed

lemma translate_va_translate:
  "SV39_translate_va pt va m = map_option (\<lambda>e. PhysAddr_from
     (pa0 (PhysAddr_from_PhysPageNum (PageTableEntry_ppn e)) + VirtAddr_page_offset va))
     (SV39_translate pt (VirtAddr_floor va) m)"
  by (simp add: SV39_translate_va_def SV39_translate_def usize_from_PhysAddr_def option.map_comp
      comp_def Let_def)

lemma page_addr_PhysAddr_from:
  assumes "ppn_ok p"
  shows "PhysAddr_from (pa0 (PhysAddr_from_PhysPageNum p) + VirtAddr_page_offset va)
    = PhysAddr (page_addr p (unat (VirtAddr_page_offset va)))"
proof -
  have off: "unat (VirtAddr_page_offset va) < 4096"
    using unat_take_bit_less [of 12 "va0 va"] by (simp add: offset_take_bit)
  let ?a = "page_addr p (unat (VirtAddr_page_offset va))"
  have "unat ?a < 2 ^ 56"
    using unat_page_addr [OF assms off] assms off by (simp add: ppn_ok_def)
  then have "take_bit 56 ?a = ?a" by (rule take_bit_word_self)
  then show ?thesis by (simp add: from_take_bit page_addr_def)
qed

lemma SV39_new_spec:
  assumes inv: "fa_invar l (mm_alloc st)"
  shows "case SV39_new st of
      Inl e \<Rightarrow> fa_free (mm_alloc st) = 0
    | Inr (pt, st') \<Rightarrow> pt_inv l pt st' \<and> (\<forall>w. pt_lookup pt st' w = None)
        \<and> fresh_frame l st (root_ppn pt) st' \<and> frames pt = [FrameTracker (root_ppn pt)]
        \<and> fa_free (mm_alloc st') + 1 = fa_free (mm_alloc st)"
proof (cases "frame_alloc st")
  case None
  then show ?thesis
    using fa_room_free [OF inv] frame_alloc_None [of st] by (simp add: SV39_new_def)
next
  case (Some x)
  obtain f st' where f: "frame_alloc st = Some (FrameTracker f, st')"
    using Some by (metis FrameTracker.exhaust surj_pair)
  have fresh: "fresh_frame l st f st'" using frame_alloc_spec [OF inv f] by simp
  have "\<not> PageTableEntry_is_valid (entry (mm_mem st') f i)" if "unat i < 512" for i
    using fresh that by (simp add: entry_def fresh_frame_def pte_read_zero_page)
  then have node: "node (mm_mem st') f is = (if is = [] then Some f else None)" if "is_path is" for "is"
    using that by (cases "is") (auto simp: node.simps(2) is_path_def)
  then have "pt_tree (mm_mem st') f {f}"
    using fresh by (auto simp: pt_tree_def fresh_frame_def split: if_splits)
  then have "pt_inv l \<lparr>root_ppn = f, frames = [FrameTracker f]\<rparr> st'"
    using fresh by (simp add: pt_inv_def tree_inv_def fresh_frame_def)
  moreover have "lookup (mm_mem st') f w = None" for w
  proof -
    obtain i j k where "indexes w = [i, j, k]" "is_path [i, j]" by (rule is_path_indexes)
    then show ?thesis using node by (simp add: lookup_def)
  qed
  ultimately show ?thesis
    using f fresh frame_alloc_free [OF inv f] by (simp add: SV39_new_def)
qed

lemma SV39_new_kernel_eq: "SV39_new_kernel = SV39_new"
  by (simp add: fun_eq_iff SV39_new_kernel_def SV39_new_def)

lemma pt_effect_fresh:
  "pt_effect l pt st pt' st' \<Longrightarrow> tables (frames pt') - tables (frames pt) \<subseteq> - fa_live l (mm_alloc st)"
  unfolding pt_effect_def disjoint_iff by auto

section \<open>The properties of the page table\<close>

text \<open>
  C5. \<open>map\<close> refines the update of a finite map. On a page table that satisfies the invariant,
  with at least two free frames, \<open>map\<close> panics exactly when the page is already mapped. Otherwise
  it keeps the invariant, adds the entry with the given frame and permissions plus \<open>V\<close> for this
  page and changes no other page's translation; the tables it adds are fresh frames, and every
  frame outside the page table keeps its contents.
\<close>

theorem map_refines_update:
  assumes "pt_inv l pt st" and "2 \<le> fa_free (mm_alloc st)" and "unat (vpn0 v) < 2 ^ 27"
  shows "case SV39_map pt v ppn flags st of
      Inl e \<Rightarrow> pt_lookup pt st v \<noteq> None
    | Inr (pt', st') \<Rightarrow> pt_lookup pt st v = None \<and> pt_inv l pt' st'
        \<and> (\<forall>w. unat (vpn0 w) < 2 ^ 27 \<longrightarrow> pt_lookup pt' st' w =
              ((pt_lookup pt st)(v \<mapsto> PageTableEntry_new ppn (flags OR PTE_V))) w)
        \<and> tables (frames pt') - tables (frames pt) \<subseteq> - fa_live l (mm_alloc st)
        \<and> (\<forall>q. ppn_ok q \<longrightarrow> q \<notin> tables (frames pt') \<longrightarrow>
             PhysPageNum_get_bytes_array (mm_mem st') q = PhysPageNum_get_bytes_array (mm_mem st) q)"
proof (cases "SV39_map pt v ppn flags st")
  case (Inl e)
  then show ?thesis using SV39_map_spec [OF assms(1), of v ppn flags] assms(2) by auto
next
  case (Inr x)
  obtain pt' st' where x: "x = (pt', st')" by (cases x)
  have eff: "pt_effect l pt st pt' st'"
    using SV39_map_spec [OF assms(1), of v ppn flags] by (simp add: Inr x)
  show ?thesis
    using SV39_map_spec [OF assms(1), of v ppn flags] pt_effect_fresh [OF eff] eff
    by (auto simp: Inr x pt_effect_def same_page_def indexes_inj [OF _ assms(3)])
qed

text \<open>A memory with frames \<open>0x80400 .. 0x88000\<close> free, for the examples.\<close>

definition example_mm :: mm where
  "example_mm = \<lparr>mm_mem = (\<lambda>_. 7), mm_alloc = \<lparr>fa_current = 0x80400, fa_end = 0x88000, fa_recycled = []\<rparr>\<rparr>"

lemma example_mm_invar: "fa_invar 0x80400 (mm_alloc example_mm)" "fa_free (mm_alloc example_mm) = 0x7C00"
  by (simp_all add: example_mm_def fa_invar_def fa_free_def)

lemma example_pt:
  obtains pt st where "SV39_new example_mm = Inr (pt, st)" "pt_inv 0x80400 pt st"
    "fa_free (mm_alloc st) = 0x7BFF" "\<And>w. pt_lookup pt st w = None"
  using SV39_new_spec [OF example_mm_invar(1)] example_mm_invar(2)
  by (cases "SV39_new example_mm") auto

theorem map_refines_update_witness:
  "\<exists>pt st pt' st'. SV39_new example_mm = Inr (pt, st)
     \<and> SV39_map pt (VirtPageNum 5) (PhysPageNum 0x80200) MapPermission_R st = Inr (pt', st')
     \<and> pt_lookup pt' st' (VirtPageNum 5) = Some (PageTableEntry_new (PhysPageNum 0x80200) 3)
     \<and> pt_lookup pt' st' (VirtPageNum 6) = None"
proof -
  obtain pt st where e: "SV39_new example_mm = Inr (pt, st)" "pt_inv 0x80400 pt st"
    "fa_free (mm_alloc st) = 0x7BFF" "\<And>w. pt_lookup pt st w = None"
    by (rule example_pt) blast
  then show ?thesis
    using map_refines_update [OF e(2), of "VirtPageNum 5" "PhysPageNum 0x80200" MapPermission_R]
    by (cases "SV39_map pt (VirtPageNum 5) (PhysPageNum 0x80200) MapPermission_R st")
      (auto simp: perm_defs PTE_V_def)
qed

text \<open>
  C12. \<open>unmap\<close> refines the removal from a finite map: it panics exactly when the page is not
  mapped; otherwise the page is no longer mapped, every other page translates as before, the
  invariant holds and no frame outside the page table is written.
\<close>

theorem unmap_refines_removal:
  assumes "pt_inv l pt st" and "unat (vpn0 v) < 2 ^ 27"
  shows "case SV39_unmap pt v st of
      Inl e \<Rightarrow> pt_lookup pt st v = None
    | Inr st' \<Rightarrow> pt_lookup pt st v \<noteq> None \<and> pt_inv l pt st'
        \<and> (\<forall>w. unat (vpn0 w) < 2 ^ 27 \<longrightarrow> pt_lookup pt st' w = ((pt_lookup pt st)(v := None)) w)
        \<and> (\<forall>q. ppn_ok q \<longrightarrow> q \<notin> tables (frames pt) \<longrightarrow>
             PhysPageNum_get_bytes_array (mm_mem st') q = PhysPageNum_get_bytes_array (mm_mem st) q)"
  using SV39_unmap_spec [OF assms(1), of v]
  by (auto simp: pt_effect_def same_page_def indexes_inj [OF _ assms(2)] split: sum.splits)

text \<open>The example with page 5 mapped to frame \<open>0x80200\<close>, read-only.\<close>

lemma example_mapped:
  obtains pt st where "pt_inv 0x80400 pt st"
    "pt_lookup pt st (VirtPageNum 5) = Some (PageTableEntry_new (PhysPageNum 0x80200) 3)"
proof -
  obtain pt st where e: "SV39_new example_mm = Inr (pt, st)" "pt_inv 0x80400 pt st"
    "fa_free (mm_alloc st) = 0x7BFF" "\<And>w. pt_lookup pt st w = None"
    by (rule example_pt) blast
  show ?thesis
    using SV39_map_spec [OF e(2), of "VirtPageNum 5" "PhysPageNum 0x80200" MapPermission_R] e(3,4)
    by (cases "SV39_map pt (VirtPageNum 5) (PhysPageNum 0x80200) MapPermission_R st")
      (auto simp: perm_defs PTE_V_def pt_effect_def intro!: that)
qed

theorem unmap_refines_removal_witness:
  "\<exists>pt st st'. pt_lookup pt st (VirtPageNum 5) = Some (PageTableEntry_new (PhysPageNum 0x80200) 3)
     \<and> SV39_unmap pt (VirtPageNum 5) st = Inr st' \<and> pt_lookup pt st' (VirtPageNum 5) = None"
proof -
  obtain pt st where e: "pt_inv 0x80400 pt st"
    "pt_lookup pt st (VirtPageNum 5) = Some (PageTableEntry_new (PhysPageNum 0x80200) 3)"
    by (rule example_mapped)
  obtain st' where u: "SV39_unmap pt (VirtPageNum 5) st = Inr st'"
    using unmap_refines_removal [OF e(1), of "VirtPageNum 5"] e(2)
    by (cases "SV39_unmap pt (VirtPageNum 5) st") auto
  then have "pt_lookup pt st' (VirtPageNum 5) = None"
    using unmap_refines_removal [OF e(1), of "VirtPageNum 5"] by simp
  with e(2) u show ?thesis by blast
qed

text \<open>
  C38. Address translation: an address in a page that is mapped to frame \<open>p\<close> translates to the
  byte at the same offset of that frame.
\<close>

theorem translate_va_mapped:
  assumes "lookup m (root_ppn pt) (VirtAddr_floor va) = Some (PageTableEntry_new p fl)" and "ppn_ok p"
  shows "SV39_translate_va pt va m = Some (PhysAddr (page_addr p (unat (VirtAddr_page_offset va))))"
  using translate_lookup [OF assms(1)] assms(2)
  by (simp add: translate_va_translate page_addr_PhysAddr_from)

theorem translate_va_mapped_witness:
  "\<exists>pt (st :: mm). SV39_translate_va pt (VirtAddr 0x5123) (mm_mem st) = Some (PhysAddr 0x80200123)"
proof -
  obtain pt st where e: "pt_inv 0x80400 pt st"
    "pt_lookup pt st (VirtPageNum 5) = Some (PageTableEntry_new (PhysPageNum 0x80200) 3)"
    by (rule example_mapped)
  have f: "VirtAddr_floor (VirtAddr 0x5123) = VirtPageNum 5"
    by (simp add: VirtAddr_floor_def PAGE_SIZE_def)
  have o: "unat (VirtAddr_page_offset (VirtAddr 0x5123)) = 0x123"
    by (simp add: VirtAddr_page_offset_def PAGE_SIZE_def)
  have "SV39_translate_va pt (VirtAddr 0x5123) (mm_mem st) = Some (PhysAddr 0x80200123)"
    using translate_va_mapped [of "mm_mem st" pt "VirtAddr 0x5123" "PhysPageNum 0x80200" 3] e(2)
    by (simp add: f o ppn_ok_def page_addr_def PhysAddr_from_PhysPageNum_def PAGE_SIZE_BITS_def)
  then show ?thesis by blast
qed

lemma from_token_token:
  assumes "ppn_ok (root_ppn pt)"
  shows "SV39_from_token (SV39_token pt) = \<lparr>root_ppn = root_ppn pt, frames = []\<rparr>"
proof -
  have high: "n < 44" if "bit (ppn0 (root_ppn pt)) n" for n
    using assms that take_bit_word_self [of "ppn0 (root_ppn pt)" 44]
    by (metis bit_take_bit_iff ppn_ok_def)
  have "take_bit 44 (push_bit 60 8 OR ppn0 (root_ppn pt)) = ppn0 (root_ppn pt)"
    by (rule bit_word_eqI) (auto simp: bit_simps dest: high)
  then have "PhysPageNum_from (SV39_token pt AND (push_bit 44 1 - 1)) = root_ppn pt"
    using assms by (simp only: SV39_token_def and_mask_push) (simp add: ppn_ok_def)
  then show ?thesis by (simp only: SV39_from_token_def)
qed

text \<open>
  The token identifies the page table: \<open>from_token\<close> of \<open>token\<close> gives a page table with the
  same root, hence the same translations, and which owns no frame.
\<close>

lemma token_roundtrip:
  assumes "ppn_ok (root_ppn pt)"
  shows "SV39_from_token (SV39_token pt) = \<lparr>root_ppn = root_ppn pt, frames = []\<rparr>"
  using assms by (rule from_token_token)

lemma token_roundtrip_witness:
  "root_ppn (SV39_from_token (SV39_token \<lparr>root_ppn = PhysPageNum 0x80456, frames = []\<rparr>)) = PhysPageNum 0x80456"
  using token_roundtrip [of "\<lparr>root_ppn = PhysPageNum 0x80456, frames = []\<rparr>"] by (simp add: ppn_ok_def)

text \<open>
  \<open>translate\<close> does not look at the valid bit of the leaf entry. After a successful \<open>unmap\<close>
  the page still translates: to the empty entry, so that \<open>translate_va\<close> returns an address in
  physical page 0 instead of \<open>None\<close>.
\<close>

lemma translate_after_unmap:
  assumes "pt_inv l pt st" and "SV39_unmap pt (VirtAddr_floor va) st = Inr st'"
  shows "SV39_translate pt (VirtAddr_floor va) (mm_mem st') = Some PageTableEntry_empty
    \<and> SV39_translate_va pt va (mm_mem st') = Some (PhysAddr (VirtAddr_page_offset va))"
proof -
  have t: "SV39_translate pt (VirtAddr_floor va) (mm_mem st') = Some PageTableEntry_empty"
    using SV39_unmap_spec [OF assms(1), of "VirtAddr_floor va"] assms(2) by simp
  have "PageTableEntry_ppn PageTableEntry_empty = PhysPageNum 0"
    by (simp add: ppn_bits PageTableEntry_empty_def)
  then show ?thesis
    using t page_addr_PhysAddr_from [of "PhysPageNum 0" va]
    by (simp add: translate_va_translate ppn_ok_def page_addr_def from_vpn_push_bit)
qed

lemma translate_after_unmap_witness:
  "\<exists>pt st st'. SV39_unmap pt (VirtPageNum 5) st = Inr st'
     \<and> SV39_translate_va pt (VirtAddr 0x5123) (mm_mem st') = Some (PhysAddr 0x123)"
proof -
  obtain pt st where e: "pt_inv 0x80400 pt st"
    "pt_lookup pt st (VirtPageNum 5) = Some (PageTableEntry_new (PhysPageNum 0x80200) 3)"
    by (rule example_mapped)
  obtain st' where u: "SV39_unmap pt (VirtPageNum 5) st = Inr st'"
    using SV39_unmap_spec [OF e(1), of "VirtPageNum 5"] e(2)
    by (cases "SV39_unmap pt (VirtPageNum 5) st") auto
  have "SV39_translate_va pt (VirtAddr 0x5123) (mm_mem st') = Some (PhysAddr 0x123)"
    using translate_after_unmap [OF e(1), of "VirtAddr 0x5123" st'] u
    by (simp add: VirtAddr_floor_def VirtAddr_page_offset_def PAGE_SIZE_def)
  with u show ?thesis by blast
qed

end
