(* ===== verification/User_Memory.thy ===== *)
theory User_Memory
  imports Page_Table
begin

text \<open>
  Access to user memory from the kernel: \<open>os/src/mm/pagetable.rs\<close>. A \<open>&mut [u8]\<close> into a
  physical page is its address and length. \<open>translated_byte_buffer\<close> and \<open>translated_str\<close> are
  loops that need not end, so they are partial functions whose value \<open>None\<close> stands for running
  forever; the correctness theorem proves that the first of them returns. Buffer lengths and
  offsets are natural numbers: the sums formed from them stay below the length of the user
  buffer plus a constant offset.
\<close>

section \<open>Slices of physical memory\<close>

record byte_slice =
  sl_addr :: usize
  sl_len :: nat

text \<open>\<open>ppn.get_bytes_array()[a..b]\<close> with the bounds check.\<close>

definition page_slice :: "PhysPageNum \<Rightarrow> nat \<Rightarrow> nat \<Rightarrow> byte_slice result" where
  "page_slice p a b =
     (if a \<le> b \<and> b \<le> 4096
      then Inr \<lparr>sl_addr = pa0 (PhysAddr_from_PhysPageNum p) + of_nat a, sl_len = b - a\<rparr>
      else Inl Index_Out_Of_Range)"

definition slice_addrs :: "byte_slice \<Rightarrow> usize list" where
  "slice_addrs s = map (\<lambda>i. sl_addr s + of_nat i) [0..<sl_len s]"

definition slice_bytes :: "memory \<Rightarrow> byte_slice \<Rightarrow> u8 list" where
  "slice_bytes m s = read_bytes m (sl_addr s) (sl_len s)"

section \<open>Translation of user buffers, strings and references\<close>

partial_function (option) translated_byte_buffer_loop ::
  "memory \<Rightarrow> SV39PageTable \<Rightarrow> usize \<Rightarrow> usize \<Rightarrow> byte_slice list \<Rightarrow> byte_slice list result option" where
  "translated_byte_buffer_loop m pt end' start v =
     (if start < end' then
        (let start_va = VirtAddr_from start;
             vpn = VirtAddr_floor start_va
         in case SV39_translate pt vpn m of
              None \<Rightarrow> Some (Inl Unwrap_None)
            | Some e \<Rightarrow>
               (let ppn = PageTableEntry_ppn e;
                    vpn' = VirtPageNum_step vpn;
                    end_va = min (VirtAddr_from_VirtPageNum vpn') (VirtAddr_from end');
                    hi = (if VirtAddr_page_offset end_va = 0 then 4096
                          else unat (VirtAddr_page_offset end_va))
                in case page_slice ppn (unat (VirtAddr_page_offset start_va)) hi of
                     Inl p \<Rightarrow> Some (Inl p)
                   | Inr s \<Rightarrow> translated_byte_buffer_loop m pt end' (usize_from_VirtAddr end_va) (v @ [s])))
      else Some (Inr v))"

definition translated_byte_buffer ::
  "memory \<Rightarrow> usize \<Rightarrow> usize \<Rightarrow> usize \<Rightarrow> byte_slice list result option" where
  "translated_byte_buffer m token ptr len =
     translated_byte_buffer_loop m (SV39_from_token token) (ptr + len) ptr []"

text \<open>
  \<open>PhysAddr::get_ref\<close> and \<open>get_mut\<close>: the \<open>unwrap\<close> of \<open>as_ref\<close> panics on the null address.
\<close>

definition PhysAddr_get_mut :: "PhysAddr \<Rightarrow> usize result" where
  "PhysAddr_get_mut pa = (if pa0 pa = 0 then Inl Unwrap_None else Inr (pa0 pa))"

definition translated_refmut :: "memory \<Rightarrow> usize \<Rightarrow> usize \<Rightarrow> usize result" where
  "translated_refmut m token ptr =
     rbind (unwrap (SV39_translate_va (SV39_from_token token) (VirtAddr_from ptr) m)) PhysAddr_get_mut"

definition translated_ref :: "memory \<Rightarrow> usize \<Rightarrow> usize \<Rightarrow> usize result" where
  "translated_ref m token ptr =
     rbind (unwrap (SV39_translate_va (SV39_from_token token) (VirtAddr_from ptr) m)) PhysAddr_get_mut"

text \<open>The string is the list of its characters, all below 256 (\<open>ch as char\<close>).\<close>

partial_function (option) translated_str_loop ::
  "memory \<Rightarrow> SV39PageTable \<Rightarrow> usize \<Rightarrow> u8 list \<Rightarrow> u8 list result option" where
  "translated_str_loop m pt va string =
     (case rbind (unwrap (SV39_translate_va pt (VirtAddr_from va) m)) PhysAddr_get_mut of
        Inl p \<Rightarrow> Some (Inl p)
      | Inr a \<Rightarrow>
         (if m a = 0 then Some (Inr string)
          else translated_str_loop m pt (va + 1) (string @ [m a])))"

definition translated_str :: "memory \<Rightarrow> usize \<Rightarrow> usize \<Rightarrow> u8 list result option" where
  "translated_str m token ptr = translated_str_loop m (SV39_from_token token) ptr []"

section \<open>\<open>UserBuffer\<close>\<close>

record UserBuffer =
  buffers :: "byte_slice list"

definition UserBuffer_new :: "byte_slice list \<Rightarrow> UserBuffer" where
  "UserBuffer_new bufs = \<lparr>buffers = bufs\<rparr>"

definition UserBuffer_len :: "UserBuffer \<Rightarrow> nat" where
  "UserBuffer_len u = fold (\<lambda>b total. total + sl_len b) (buffers u) 0"

definition UserBuffer_as_ptr :: "UserBuffer \<Rightarrow> usize" where
  "UserBuffer_as_ptr u =
     (if buffers u = [] \<or> sl_len (hd (buffers u)) = 0 then 0 else sl_addr (hd (buffers u)))"

text \<open>
  \<open>write_string\<close>: the two nested loops visit the bytes of the buffers in order; the loop ends
  when the terminator has been written.
\<close>

primrec write_string_loop :: "usize list \<Rightarrow> u8 list \<Rightarrow> nat \<Rightarrow> memory \<Rightarrow> nat \<times> memory" where
  "write_string_loop [] src current m = (current, m)"
| "write_string_loop (a # as) src current m =
     (if current < length src then write_string_loop as src (current + 1) (m(a := src ! current))
      else (length src + 1, m(a := 0)))"

definition UserBuffer_write_string :: "UserBuffer \<Rightarrow> u8 list \<Rightarrow> memory \<Rightarrow> nat \<times> memory" where
  "UserBuffer_write_string u src m =
     write_string_loop (concat (map slice_addrs (buffers u))) src 0 m"

text \<open>
  The loop of \<open>write_buffer\<close>: \<open>copy_dst_end\<close> is at most \<open>offset + src_len\<close>, so the ranges cut
  out of \<open>src\<close> and of the buffer are in bounds and of equal length.
\<close>

primrec write_buffer_loop ::
  "byte_slice list \<Rightarrow> nat \<Rightarrow> u8 list \<Rightarrow> nat \<Rightarrow> nat \<Rightarrow> memory \<Rightarrow> nat \<times> memory" where
  "write_buffer_loop [] offset src written dst_start m = (written, m)"
| "write_buffer_loop (b # bs) offset src written dst_start m =
     (let dst_end = dst_start + sl_len b;
          copy_dst_start = max dst_start offset;
          copy_dst_end = min dst_end (offset + length src)
      in if copy_dst_start \<ge> copy_dst_end then write_buffer_loop bs offset src written dst_end m
         else
           (let copy_src_start = copy_dst_start - offset;
                copy_src_end = copy_src_start + (copy_dst_end - copy_dst_start);
                copy_buffer_start = copy_dst_start - dst_start
            in write_buffer_loop bs offset src (written + (copy_dst_end - copy_dst_start)) dst_end
                 (write_bytes m (sl_addr b + of_nat copy_buffer_start)
                    (take (copy_src_end - copy_src_start) (drop copy_src_start src)))))"

definition UserBuffer_write_buffer ::
  "UserBuffer \<Rightarrow> nat option \<Rightarrow> u8 list \<Rightarrow> memory \<Rightarrow> nat \<times> memory" where
  "UserBuffer_write_buffer u offset src m =
     (let offset = (case offset of None \<Rightarrow> 0 | Some x \<Rightarrow> x)
      in if offset \<ge> UserBuffer_len u then (0, m)
         else write_buffer_loop (buffers u) offset src 0 0 m)"

text \<open>The loop of \<open>read\<close>; it stops early when \<open>dst\<close> is full.\<close>

primrec read_loop ::
  "byte_slice list \<Rightarrow> memory \<Rightarrow> nat \<Rightarrow> u8 list \<Rightarrow> nat \<Rightarrow> nat \<Rightarrow> nat \<times> u8 list" where
  "read_loop [] m offset dst nread dst_start = (nread, dst)"
| "read_loop (b # bs) m offset dst nread dst_start =
     (let dst_end = dst_start + sl_len b;
          copy_dst_start = max dst_start offset;
          copy_dst_end = min dst_end (offset + length dst)
      in if copy_dst_start \<ge> copy_dst_end then read_loop bs m offset dst nread dst_end
         else
           (let copy_src_start = copy_dst_start - offset;
                copy_src_end = copy_src_start + (copy_dst_end - copy_dst_start);
                copy_buffer_start = copy_dst_start - dst_start;
                copy_buffer_end = copy_buffer_start + (copy_dst_end - copy_dst_start);
                dst' = take copy_src_start dst
                         @ take (copy_buffer_end - copy_buffer_start) (drop copy_buffer_start (slice_bytes m b))
                         @ drop copy_src_end dst;
                nread' = nread + (copy_dst_end - copy_dst_start)
            in if nread' = length dst then (nread', dst')
               else read_loop bs m offset dst' nread' dst_end))"

definition UserBuffer_read ::
  "UserBuffer \<Rightarrow> nat option \<Rightarrow> u8 list \<Rightarrow> memory \<Rightarrow> nat \<times> u8 list" where
  "UserBuffer_read u offset dst m =
     (let offset = (case offset of None \<Rightarrow> 0 | Some x \<Rightarrow> x)
      in if offset \<ge> UserBuffer_len u then (0, dst)
         else read_loop (buffers u) m offset dst 0 0)"

text \<open>The byte iterator: it yields a raw pointer to each byte in turn.\<close>

record UserBufferIterator =
  ubi_buffers :: "byte_slice list"
  current_buffer :: nat
  current_idx :: nat

definition UserBuffer_into_iter :: "UserBuffer \<Rightarrow> UserBufferIterator" where
  "UserBuffer_into_iter u = \<lparr>ubi_buffers = buffers u, current_buffer = 0, current_idx = 0\<rparr>"

definition UserBufferIterator_next ::
  "UserBufferIterator \<Rightarrow> (usize option \<times> UserBufferIterator) result" where
  "UserBufferIterator_next it =
     (if current_buffer it \<ge> length (ubi_buffers it) then Inr (None, it)
      else
        (let b = ubi_buffers it ! current_buffer it
         in if current_idx it \<ge> sl_len b then Inl Index_Out_Of_Range
            else
              (let r = sl_addr b + of_nat (current_idx it);
                   it' = (if current_idx it + 1 = sl_len b
                          then it\<lparr>current_idx := 0, current_buffer := current_buffer it + 1\<rparr>
                          else it\<lparr>current_idx := current_idx it + 1\<rparr>)
               in Inr (Some r, it'))))"

section \<open>\<open>copy_to_user\<close> and \<open>copy_from_user\<close>\<close>

text \<open>
  The value of type \<open>T\<close> is the list of its bytes. A value within one page is copied through
  \<open>translated_refmut\<close>, any other through a \<open>UserBuffer\<close>; both functions always return \<open>Ok(())\<close>.
\<close>

definition copy_to_user ::
  "memory \<Rightarrow> usize \<Rightarrow> u8 list \<Rightarrow> usize \<Rightarrow> memory result option" where
  "copy_to_user m token src dst =
     (let size = of_nat (length src) in
      if VirtAddr_floor (VirtAddr_from dst) = VirtAddr_floor (VirtAddr_from (dst + size - 1))
      then Some (rbind (translated_refmut m token dst) (\<lambda>a. Inr (write_bytes m a src)))
      else (case translated_byte_buffer m token dst size of
              None \<Rightarrow> None
            | Some r \<Rightarrow> Some (rbind r (\<lambda>bufs.
                Inr (snd (UserBuffer_write_buffer (UserBuffer_new bufs) None src m))))))"

definition copy_from_user ::
  "memory \<Rightarrow> usize \<Rightarrow> usize \<Rightarrow> u8 list \<Rightarrow> u8 list result option" where
  "copy_from_user m token src dst =
     (let size = of_nat (length dst) in
      if VirtAddr_floor (VirtAddr_from src) = VirtAddr_floor (VirtAddr_from (src + size - 1))
      then Some (rbind (translated_ref m token src) (\<lambda>a. Inr (read_bytes m a (length dst))))
      else (case translated_byte_buffer m token src size of
              None \<Rightarrow> None
            | Some r \<Rightarrow> Some (rbind r (\<lambda>bufs.
                Inr (snd (UserBuffer_read (UserBuffer_new bufs) None dst m))))))"

section \<open>The user's view of an address\<close>

text \<open>The physical address a user address stands for, and the range of user addresses used.\<close>

definition user_pa :: "SV39PageTable \<Rightarrow> memory \<Rightarrow> usize \<Rightarrow> usize" where
  "user_pa pt m a = pa0 (the (SV39_translate_va pt (VirtAddr_from a) m))"

text \<open>Every page of \<open>[a, b)\<close> has an entry, and the range lies in the lower half of the space.\<close>

definition user_range :: "SV39PageTable \<Rightarrow> memory \<Rightarrow> nat \<Rightarrow> nat \<Rightarrow> bool" where
  "user_range pt m a b \<longleftrightarrow> b < 2 ^ 38
     \<and> (\<forall>k \<in> {a..<b}. SV39_translate pt (VirtPageNum (of_nat (k div 4096))) m \<noteq> None)"

lemma low_addr:
  assumes "k < 2 ^ 38"
  shows "VirtAddr_from (of_nat k) = VirtAddr (of_nat k)"
    and "unat (of_nat k :: usize) = k"
    and "VirtAddr_floor (VirtAddr (of_nat k)) = VirtPageNum (of_nat (k div 4096))"
    and "unat (VirtAddr_page_offset (VirtAddr (of_nat k))) = k mod 4096"
    and "usize_from_VirtAddr (VirtAddr (of_nat k)) = of_nat k"
proof -
  show u: "unat (of_nat k :: usize) = k"
    using assms by (simp add: unat_of_nat)
  then show "VirtAddr_from (of_nat k) = VirtAddr (of_nat k)"
    using assms take_bit_word_self [of "of_nat k :: usize" 39] by (simp add: from_take_bit)
  have "(of_nat k :: usize) div 4096 = of_nat (k div 4096)"
    using assms u by (simp add: word_unat_eq_iff unat_div unat_of_nat)
  then show "VirtAddr_floor (VirtAddr (of_nat k)) = VirtPageNum (of_nat (k div 4096))"
    by (simp add: VirtAddr_floor_def PAGE_SIZE_def)
  show "unat (VirtAddr_page_offset (VirtAddr (of_nat k))) = k mod 4096"
    using u by (simp only: offset_take_bit unsigned_take_bit_eq take_bit_nat_def VirtAddr.sel) simp
  show "usize_from_VirtAddr (VirtAddr (of_nat k)) = of_nat k"
    using assms u by (simp add: usize_from_VirtAddr_def VA_WIDTH_SV39_def word_le_nat_alt)
qed

lemma user_pa_page:
  assumes "k < 2 ^ 38" and "SV39_translate pt (VirtPageNum (of_nat (k div 4096))) m = Some e"
  shows "user_pa pt m (of_nat k) = page_addr (PageTableEntry_ppn e) (k mod 4096)"
  using assms page_addr_PhysAddr_from [of "PageTableEntry_ppn e" "VirtAddr (of_nat k)"]
  by (simp add: user_pa_def translate_va_translate low_addr)

text \<open>Slices that lie within a page.\<close>

definition small_slices :: "byte_slice list \<Rightarrow> bool" where
  "small_slices bs \<longleftrightarrow> list_all (\<lambda>b. sl_len b \<le> 4096) bs"

lemma page_slice_addrs:
  assumes e: "SV39_translate pt (VirtPageNum (of_nat (s div 4096))) m = Some e"
    and t: "s < t" "t \<le> (s div 4096 + 1) * 4096" "t \<le> 2 ^ 38"
  shows "\<exists>sl. page_slice (PageTableEntry_ppn e) (s mod 4096) (s mod 4096 + (t - s)) = Inr sl
    \<and> slice_addrs sl = map (\<lambda>k. user_pa pt m (of_nat k)) [s..<t] \<and> sl_len sl \<le> 4096
    \<and> sl_addr sl = user_pa pt m (of_nat s)"
proof -
  define q r where "q = s div 4096" and "r = s mod 4096"
  have s: "s = q * 4096 + r" and r: "r < 4096" by (simp_all add: q_def r_def)
  have "t \<le> q * 4096 + 4096" using t(2) by (simp add: q_def)
  then have le: "r + (t - s) \<le> 4096" using t(1) unfolding s by linarith
  have "page_addr (PageTableEntry_ppn e) r + of_nat i = user_pa pt m (of_nat (s + i))"
    if i: "i < t - s" for i
  proof -
    have lt: "r + i < 4096" using le i by linarith
    have si: "s + i = q * 4096 + (r + i)" using s by simp
    have "(s + i) div 4096 = q" "(s + i) mod 4096 = r + i"
      unfolding si using lt by simp_all
    then show ?thesis
      using user_pa_page [of "s + i" pt m e] e i t by (simp add: page_addr_add q_def)
  qed
  from this [of 0] this show ?thesis
    using le t unfolding r_def [symmetric]
    by (auto simp: page_slice_def slice_addrs_def page_addr_def intro!: nth_equalityI)
qed

text \<open>One round of the loop of \<open>translated_byte_buffer\<close>, and the whole loop.\<close>

lemma byte_buffer_round:
  assumes range: "user_range pt m s t" and st: "s < t"
  defines "u \<equiv> min ((s div 4096 + 1) * 4096) t"
  shows "\<exists>sl. slice_addrs sl = map (\<lambda>k. user_pa pt m (of_nat k)) [s..<u] \<and> sl_len sl \<le> 4096
    \<and> translated_byte_buffer_loop m pt (of_nat t) (of_nat s) v
        = translated_byte_buffer_loop m pt (of_nat t) (of_nat u) (v @ [sl])"
proof -
  have t38: "t < 2 ^ 38" using range by (simp add: user_range_def)
  obtain e where e: "SV39_translate pt (VirtPageNum (of_nat (s div 4096))) m = Some e"
    using range st unfolding user_range_def by (meson atLeastLessThan_iff not_None_eq order_refl)
  define q r where "q = s div 4096" and "r = s mod 4096"
  have sq: "s = q * 4096 + r" and r: "r < 4096" by (simp_all add: q_def r_def)
  have u: "s < u" "u \<le> (s div 4096 + 1) * 4096" "u \<le> t"
    using st sq r unfolding u_def q_def [symmetric] by auto
  have s38: "s < 2 ^ 38" and u38: "u < 2 ^ 38" using st u t38 by auto
  have step: "VirtAddr_from_VirtPageNum (VirtPageNum_step (VirtPageNum (of_nat q)))
      = VirtAddr (of_nat ((q + 1) * 4096))"
    by (simp add: from_vpn_push_bit VirtPageNum_step_def push_bit_eq_mult mult.commute)
  have end_va: "min (VirtAddr (of_nat ((q + 1) * 4096))) (VirtAddr (of_nat t)) = VirtAddr (of_nat u)"
  proof -
    have "(q + 1) * 4096 < 2 ^ 64" using s38 sq by simp
    then have "unat (of_nat ((q + 1) * 4096) :: usize) = (q + 1) * 4096"
      by (simp only: unat_of_nat) simp
    then show ?thesis
      using low_addr(2) [OF t38] unfolding u_def q_def [symmetric] min_def
      by (simp add: less_eq_VirtAddr_def word_le_nat_alt del: of_nat_mult of_nat_add)
  qed
  have hi: "(if VirtAddr_page_offset (VirtAddr (of_nat u)) = 0 then 4096
      else unat (VirtAddr_page_offset (VirtAddr (of_nat u)))) = r + (u - s)"
  proof -
    have off: "unat (VirtAddr_page_offset (VirtAddr (of_nat u))) = u mod 4096" using low_addr(4) [OF u38] .
    define d where "d = u - q * 4096"
    have "u \<le> q * 4096 + 4096" using u(2) by (simp add: q_def)
    then have d: "u = q * 4096 + d" "r < d" "d \<le> 4096" using u(1) unfolding d_def sq by simp_all
    show ?thesis
    proof (cases "d = 4096")
      case True
      then have "u mod 4096 = 0" unfolding d(1) by simp
      then show ?thesis using off d True sq by (simp add: unat_eq_zero)
    next
      case False
      then have "u mod 4096 = d" using d by simp
      moreover have "VirtAddr_page_offset (VirtAddr (of_nat u)) \<noteq> 0"
        using off calculation d(2) by (metis less_nat_zero_code unat_0)
      ultimately show ?thesis using off d sq by simp
    qed
  qed
  obtain sl where sl: "page_slice (PageTableEntry_ppn e) r (r + (u - s)) = Inr sl"
    "slice_addrs sl = map (\<lambda>k. user_pa pt m (of_nat k)) [s..<u]" "sl_len sl \<le> 4096"
    using page_slice_addrs [OF e u(1,2)] u38 unfolding r_def by auto
  have "(of_nat s :: usize) < of_nat t"
    using st low_addr(2) [OF s38] low_addr(2) [OF t38] by (simp add: word_less_nat_alt)
  then have "translated_byte_buffer_loop m pt (of_nat t) (of_nat s) v
        = translated_byte_buffer_loop m pt (of_nat t) (of_nat u) (v @ [sl])"
    by (subst translated_byte_buffer_loop.simps)
      (simp only: Let_def if_True low_addr(1,3,4) [OF s38] low_addr(1) [OF t38] e [folded q_def] option.case
        q_def [symmetric] r_def [symmetric] step end_va hi sl(1) sum.case low_addr(5) [OF u38])
  with sl(2,3) show ?thesis by blast
qed

lemma byte_buffer_loop_ok:
  assumes "user_range pt m s t" and "s \<le> t"
  shows "\<exists>w. translated_byte_buffer_loop m pt (of_nat t) (of_nat s) v = Some (Inr (v @ w))
    \<and> concat (map slice_addrs w) = map (\<lambda>k. user_pa pt m (of_nat k)) [s..<t] \<and> small_slices w"
  using assms
proof (induction "t - s" arbitrary: s v rule: less_induct)
  case less
  show ?case
  proof (cases "s = t")
    case True
    then show ?thesis by (subst translated_byte_buffer_loop.simps) (simp add: small_slices_def)
  next
    case False
    then have lt: "s < t" using less.prems by simp
    define u where "u = min ((s div 4096 + 1) * 4096) t"
    have su: "s < u" "u \<le> t"
      using lt dividend_less_times_div [of 4096 s] by (auto simp: u_def algebra_simps)
    have range: "user_range pt m u t" using less.prems(1) su by (auto simp: user_range_def)
    obtain sl where sl: "slice_addrs sl = map (\<lambda>k. user_pa pt m (of_nat k)) [s..<u]" "sl_len sl \<le> 4096"
      "translated_byte_buffer_loop m pt (of_nat t) (of_nat s) v
        = translated_byte_buffer_loop m pt (of_nat t) (of_nat u) (v @ [sl])"
      using byte_buffer_round [OF less.prems(1) lt, of v] unfolding u_def by blast
    have "t - u < t - s" using su lt by (simp add: diff_less_mono2)
    then obtain w where w: "translated_byte_buffer_loop m pt (of_nat t) (of_nat u) (v @ [sl]) = Some (Inr ((v @ [sl]) @ w))"
      "concat (map slice_addrs w) = map (\<lambda>k. user_pa pt m (of_nat k)) [u..<t]" "small_slices w"
      using less.hyps [OF _ range su(2), of "v @ [sl]"] by auto
    have "[s..<t] = [s..<u] @ [u..<t]"
      using su upt_add_eq_append [of s u "t - u"] by simp
    then show ?thesis using sl w by (intro exI [of _ "sl # w"]) (simp add: small_slices_def)
  qed
qed

section \<open>Reading and writing through a \<open>UserBuffer\<close>\<close>

text \<open>The addresses of a buffer in order.\<close>

abbreviation buf_addrs :: "byte_slice list \<Rightarrow> usize list" where
  "buf_addrs bs \<equiv> concat (map slice_addrs bs)"

lemma length_slice_addrs [simp]: "length (slice_addrs b) = sl_len b"
  by (simp add: slice_addrs_def)

lemma nth_slice_addrs [simp]: "i < sl_len b \<Longrightarrow> slice_addrs b ! i = sl_addr b + of_nat i"
  by (simp add: slice_addrs_def)

lemma slice_bytes_addrs: "slice_bytes m b = map m (slice_addrs b)"
  by (simp add: slice_bytes_def slice_addrs_def read_bytes_def)

lemma UserBuffer_len_eq: "UserBuffer_len u = length (buf_addrs (buffers u))"
proof -
  have "fold (\<lambda>b total. total + sl_len b) bs n = n + length (buf_addrs bs)" for bs n
    by (induction bs arbitrary: n) auto
  then show ?thesis by (simp add: UserBuffer_len_def)
qed

lemma write_bytes_slice:
  assumes "c + length bs \<le> sl_len b" and "sl_len b \<le> 4096"
  shows "x \<notin> set (slice_addrs b) \<Longrightarrow> write_bytes m (sl_addr b + of_nat c) bs x = m x"
    and "i < sl_len b \<Longrightarrow> write_bytes m (sl_addr b + of_nat c) bs (sl_addr b + of_nat i) =
      (if c \<le> i \<and> i < c + length bs then bs ! (i - c) else m (sl_addr b + of_nat i))"
proof -
  let ?a = "sl_addr b + of_nat c"
  have hit: "\<exists>j. c \<le> j \<and> j < c + length bs \<and> x = sl_addr b + of_nat j \<and> unat (x - ?a) = j - c"
    if "unat (x - ?a) < length bs" for x
  proof (intro exI [of _ "c + unat (x - ?a)"] conjI)
    show "x = sl_addr b + of_nat (c + unat (x - ?a))" by simp
  qed (use that in auto)
  show "write_bytes m ?a bs x = m x" if "x \<notin> set (slice_addrs b)"
  proof -
    have "\<not> unat (x - ?a) < length bs"
    proof
      assume "unat (x - ?a) < length bs"
      then obtain j where "j < sl_len b" "x = sl_addr b + of_nat j"
        using hit [of x] assms(1) by (metis less_le_trans)
      with that show False by (auto simp: slice_addrs_def)
    qed
    then show ?thesis by (simp add: write_bytes_def)
  qed
  have inj: "j = k" if "sl_addr b + of_nat j = sl_addr b + (of_nat k :: usize)" "j < 4096" "k < 4096" for j k
  proof -
    have "unat (of_nat j :: usize) = unat (of_nat k :: usize)" using that(1) by simp
    then show ?thesis using that(2,3) by (simp add: unat_of_nat)
  qed
  show "write_bytes m ?a bs (sl_addr b + of_nat i) =
      (if c \<le> i \<and> i < c + length bs then bs ! (i - c) else m (sl_addr b + of_nat i))"
    if i: "i < sl_len b"
  proof (cases "c \<le> i \<and> i < c + length bs")
    case True
    then have "sl_addr b + of_nat i - ?a = of_nat (i - c)" by (simp add: of_nat_diff)
    moreover have "unat (of_nat (i - c) :: usize) = i - c"
      using i assms(2) by (simp only: unat_of_nat) simp
    ultimately show ?thesis using True by (simp add: write_bytes_def less_diff_conv2)
  next
    case False
    have "\<not> unat (sl_addr b + of_nat i - ?a) < length bs"
    proof
      assume "unat (sl_addr b + of_nat i - ?a) < length bs"
      then obtain j where j: "c \<le> j" "j < c + length bs" "sl_addr b + of_nat i = sl_addr b + (of_nat j :: usize)"
        using hit [of "sl_addr b + of_nat i"] by blast
      then have "i = j" using inj i assms by auto
      with j False show False by simp
    qed
    then show ?thesis using False by (auto simp: write_bytes_def)
  qed
qed

text \<open>
  What the loop of \<open>write_buffer\<close> does to the bytes of the buffer: byte \<open>i\<close> of the part that
  starts at \<open>dst_start\<close> becomes byte \<open>dst_start + i - offset\<close> of the source if there is one.
\<close>

definition written_byte :: "nat \<Rightarrow> u8 list \<Rightarrow> nat \<Rightarrow> u8 \<Rightarrow> u8" where
  "written_byte off src k old = (if off \<le> k \<and> k < off + length src then src ! (k - off) else old)"

lemma write_buffer_loop_spec:
  assumes "distinct (buf_addrs bs)" and "small_slices bs"
    and "write_buffer_loop bs off src w ds m = (n, m')"
  shows "n = w + (min (ds + length (buf_addrs bs)) (off + length src) - max ds off)
    \<and> (\<forall>i < length (buf_addrs bs). m' (buf_addrs bs ! i) = written_byte off src (ds + i) (m (buf_addrs bs ! i)))
    \<and> (\<forall>x. x \<notin> set (buf_addrs bs) \<longrightarrow> m' x = m x)"
  using assms
proof (induction bs arbitrary: w ds m)
  case Nil
  then show ?case by simp
next
  case (Cons b bs)
  let ?A = "buf_addrs bs" and ?e = "ds + sl_len b"
  define lo hi where "lo = max ds off" and "hi = min ?e (off + length src)"
  have lo: "ds \<le> lo" "off \<le> lo" "lo = ds \<or> lo = off"
    and hi: "hi \<le> ?e" "hi \<le> off + length src" "hi = ?e \<or> hi = off + length src"
    by (auto simp: lo_def hi_def)
  define part where "part = take (hi - lo) (drop (lo - off) src)"
  define m1 w1 where "m1 = (if hi \<le> lo then m else write_bytes m (sl_addr b + of_nat (lo - ds)) part)"
    and "w1 = (if hi \<le> lo then w else w + (hi - lo))"
  have loop: "write_buffer_loop bs off src w1 ?e m1 = (n, m')"
    using Cons.prems(3) by (simp add: m1_def w1_def part_def lo_def hi_def Let_def split: if_splits)
  have d: "distinct ?A" "small_slices bs" "sl_len b \<le> 4096"
    and disj: "set (slice_addrs b) \<inter> set ?A = {}"
    using Cons.prems(1,2) by (auto simp: small_slices_def)
  have len: "length part = hi - lo" if "lo < hi"
    using that lo hi by (simp add: part_def)
  have fit: "lo - ds + length part \<le> sl_len b" if "lo < hi"
    using len [OF that] lo hi that by linarith
  have in1: "m1 (slice_addrs b ! i) = written_byte off src (ds + i) (m (slice_addrs b ! i))"
    if i: "i < sl_len b" for i
  proof (cases "lo < hi")
    case True
    have "m1 (slice_addrs b ! i) = (if lo - ds \<le> i \<and> i < lo - ds + (hi - lo)
        then part ! (i - (lo - ds)) else m (slice_addrs b ! i))"
      using write_bytes_slice(2) [OF fit [OF True] d(3) i, of m] len [OF True] i True by (simp add: m1_def)
    moreover have "lo - ds \<le> i \<and> i < lo - ds + (hi - lo) \<longleftrightarrow> off \<le> ds + i \<and> ds + i < off + length src"
      using True i lo hi by linarith
    moreover have "part ! (i - (lo - ds)) = src ! (ds + i - off)"
      if "lo - ds \<le> i" "i < lo - ds + (hi - lo)"
    proof -
      have "lo - off + (i - (lo - ds)) = ds + i - off" using that lo by linarith
      then show ?thesis using that lo hi by (simp add: part_def)
    qed
    ultimately show ?thesis by (auto simp: written_byte_def)
  next
    case False
    then have "\<not> (off \<le> ds + i \<and> ds + i < off + length src)" using lo hi i by linarith
    then show ?thesis using False by (auto simp: m1_def written_byte_def)
  qed
  have out1: "m1 x = m x" if "x \<notin> set (slice_addrs b)" for x
    using write_bytes_slice(1) [OF fit d(3) that] by (simp add: m1_def)
  note IH = Cons.IH [OF d(1,2) loop]
  have "m' (buf_addrs (b # bs) ! i) = written_byte off src (ds + i) (m (buf_addrs (b # bs) ! i))"
    if i: "i < length (buf_addrs (b # bs))" for i
  proof (cases "i < sl_len b")
    case True
    then have "slice_addrs b ! i \<notin> set ?A"
      using disj by (metis disjoint_iff length_slice_addrs nth_mem)
    then show ?thesis using True IH in1 [OF True] by (simp add: nth_append del: nth_slice_addrs)
  next
    case False
    then have j: "i - sl_len b < length ?A" using i by simp
    then have "?A ! (i - sl_len b) \<notin> set (slice_addrs b)"
      using disj by (metis disjoint_iff nth_mem)
    then show ?thesis using False IH j out1 by (simp add: nth_append)
  qed
  moreover have "m' x = m x" if "x \<notin> set (buf_addrs (b # bs))" for x
    using that IH out1 by simp
  moreover have "n = w + (min (ds + length (buf_addrs (b # bs))) (off + length src) - max ds off)"
  proof -
    have "n = w1 + (min (?e + length ?A) (off + length src) - max ?e off)" using IH by simp
    moreover have "w1 = w + (hi - lo)" by (simp add: w1_def)
    moreover have "(hi - lo) + (min (?e + length ?A) (off + length src) - max ?e off)
        = min (?e + length ?A) (off + length src) - max ds off"
      unfolding lo_def hi_def by linarith
    ultimately show ?thesis by (simp add: add.assoc)
  qed
  ultimately show ?case by blast
qed

text \<open>
  What \<open>read\<close> does: byte \<open>i\<close> of the destination becomes byte \<open>offset + i\<close> of the buffer.
\<close>

lemma read_loop_done:
  "ds \<ge> off + length dst \<Longrightarrow> read_loop bs m off dst r ds = (r, dst)"
proof (induction bs arbitrary: ds)
  case (Cons b bs)
  then show ?case by (auto simp: Let_def)
qed simp

lemma read_loop_spec:
  assumes "read_loop bs m off dst r ds = (n, dst')" and "off \<le> ds \<longrightarrow> r = ds - off" and "ds < off \<longrightarrow> r = 0"
    and "ds \<le> off + length dst"
  shows "length dst' = length dst
    \<and> n = r + (min (ds + length (buf_addrs bs)) (off + length dst) - max ds off)
    \<and> (\<forall>i < length dst. dst' ! i =
         (if ds \<le> off + i \<and> off + i < ds + length (buf_addrs bs)
          then m (buf_addrs bs ! (off + i - ds)) else dst ! i))"
  using assms
proof (induction bs arbitrary: r ds dst)
  case Nil
  then show ?case by auto
next
  case (Cons b bs)
  let ?A = "buf_addrs bs" and ?e = "ds + sl_len b"
  define lo hi where "lo = max ds off" and "hi = min ?e (off + length dst)"
  have lo: "ds \<le> lo" "off \<le> lo" "lo = ds \<or> lo = off"
    and hi: "hi \<le> ?e" "hi \<le> off + length dst" "hi = ?e \<or> hi = off + length dst"
    by (auto simp: lo_def hi_def)
  define part where "part = take (hi - lo) (drop (lo - ds) (slice_bytes m b))"
  define d1 where "d1 = (if hi \<le> lo then dst else take (lo - off) dst @ part @ drop (lo - off + (hi - lo)) dst)"
  define r1 where "r1 = (if hi \<le> lo then r else r + (hi - lo))"
  let ?D = "take (lo - off) dst @ part @ drop (lo - off + (hi - lo)) dst"
  have unfold: "read_loop (b # bs) m off dst r ds =
      (if hi \<le> lo then read_loop bs m off dst r ?e
       else if r + (hi - lo) = length dst then (r + (hi - lo), ?D)
       else read_loop bs m off ?D (r + (hi - lo)) ?e)"
    by (simp only: read_loop.simps Let_def lo_def hi_def part_def add_diff_cancel_left')
  have lenp: "length part = hi - lo" if "lo < hi"
    using that lo hi by (simp add: part_def slice_bytes_addrs)
  have len1: "length d1 = length dst"
    using lenp lo hi by (auto simp: d1_def)
  have d1: "d1 ! i = (if ds \<le> off + i \<and> off + i < ?e then m (slice_addrs b ! (off + i - ds)) else dst ! i)"
    if i: "i < length dst" for i
  proof (cases "lo < hi")
    case True
    consider "i < lo - off" | "lo - off \<le> i" "i < lo - off + (hi - lo)" | "lo - off + (hi - lo) \<le> i"
      by linarith
    then show ?thesis
    proof cases
      case 1
      then have "\<not> ds \<le> off + i" using lo by linarith
      then show ?thesis using 1 True i by (simp add: d1_def nth_append)
    next
      case 2
      define k where "k = i - (lo - off)"
      have k: "k < hi - lo" "lo - ds + k = off + i - ds" "lo - ds + k < sl_len b"
        "ds \<le> off + i" "off + i < ?e"
        using 2 lo hi unfolding k_def by linarith+
      have "d1 ! i = part ! k"
        using 2 True i lo lenp [OF True] k(1) by (simp add: d1_def nth_append k_def)
      also have "\<dots> = m (slice_addrs b ! (off + i - ds))"
        using k by (simp add: part_def slice_bytes_addrs del: nth_slice_addrs)
      finally show ?thesis using k(4,5) by simp
    next
      case 3
      then have "\<not> off + i < ?e" using lo hi i True by linarith
      then show ?thesis
        using 3 True i lo hi lenp [OF True] by (auto simp: d1_def nth_append)
    qed
  next
    case False
    then have "\<not> (ds \<le> off + i \<and> off + i < ?e)" using lo hi i by linarith
    then show ?thesis using False by (auto simp: d1_def)
  qed
  have r1: "off \<le> ?e \<longrightarrow> r1 = hi - off" "?e < off \<longrightarrow> r1 = 0"
    using Cons.prems(2-4) lo hi by (auto simp: r1_def)
  have rsum: "r1 = r + (hi - lo)" by (simp add: r1_def)
  show ?case
  proof (cases "lo < hi \<and> r1 = length dst")
    case True
    then have res: "n = r1" "dst' = d1"
      using Cons.prems(1) unfolding unfold r1_def d1_def by auto
    have full: "hi = off + length dst" "off + length dst \<le> ?e"
      using True r1 lo hi by linarith+
    have "dst' ! i = (if ds \<le> off + i \<and> off + i < ds + length (buf_addrs (b # bs))
          then m (buf_addrs (b # bs) ! (off + i - ds)) else dst ! i)" if "i < length dst" for i
    proof -
      have "off + i < ?e" using full that by linarith
      then show ?thesis using d1 [OF that] res by (simp add: nth_append) linarith
    qed
    moreover have "n = r + (min (ds + length (buf_addrs (b # bs))) (off + length dst) - max ds off)"
    proof -
      have "min (ds + length (buf_addrs (b # bs))) (off + length dst) = hi" using full by simp
      then show ?thesis using res rsum by (simp add: lo_def)
    qed
    ultimately show ?thesis using len1 res by simp
  next
    case False
    then have loop: "read_loop bs m off d1 r1 ?e = (n, dst')"
      using Cons.prems(1) unfolding unfold r1_def d1_def by (auto split: if_splits)
    show ?thesis
    proof (cases "?e \<le> off + length d1")
      case True
      note IH = Cons.IH [OF loop _ _ True]
      have "off \<le> ?e \<longrightarrow> r1 = ?e - off" using r1 True hi len1 by linarith
      note IH = IH [OF this r1(2)]
      have "dst' ! i = (if ds \<le> off + i \<and> off + i < ds + length (buf_addrs (b # bs))
            then m (buf_addrs (b # bs) ! (off + i - ds)) else dst ! i)" if i: "i < length dst" for i
      proof (cases "off + i < ?e")
        case True
        then show ?thesis using IH d1 [OF i] i len1 by (auto simp: nth_append)
      next
        case False
        then have "off + i - ds - sl_len b = off + i - ?e" by linarith
        then show ?thesis using IH d1 [OF i] i len1 False by (auto simp: nth_append)
      qed
      moreover have "n = r + (min (ds + length (buf_addrs (b # bs))) (off + length dst) - max ds off)"
      proof -
        have "n = r1 + (min (?e + length ?A) (off + length dst) - max ?e off)" using IH len1 by simp
        moreover have "(hi - lo) + (min (?e + length ?A) (off + length dst) - max ?e off)
            = min (?e + length ?A) (off + length dst) - max ds off"
          unfolding lo_def hi_def by linarith
        ultimately show ?thesis using rsum by (simp add: add.assoc)
      qed
      ultimately show ?thesis using IH len1 by simp
    next
      case big: False
      then have res: "n = r1" "dst' = d1"
        using loop read_loop_done [of off d1 ?e] by simp_all
      have "dst' ! i = (if ds \<le> off + i \<and> off + i < ds + length (buf_addrs (b # bs))
            then m (buf_addrs (b # bs) ! (off + i - ds)) else dst ! i)" if i: "i < length dst" for i
      proof -
        have "off + i < ?e" using big i len1 by linarith
        then show ?thesis using d1 [OF i] res by (simp add: nth_append) linarith
      qed
      moreover have "n = r + (min (ds + length (buf_addrs (b # bs))) (off + length dst) - max ds off)"
      proof -
        have "min (ds + length (buf_addrs (b # bs))) (off + length dst) = hi"
          using big len1 by (simp add: hi_def)
        then show ?thesis using res rsum by (simp add: lo_def)
      qed
      ultimately show ?thesis using res len1 by simp
    qed
  qed
qed

section \<open>Copies between kernel and user memory\<close>

text \<open>Translation depends on the tables only.\<close>

lemma translate_same_tables:
  assumes tree: "pt_tree m (root_ppn pt) T" and same: "\<And>q. q \<in> T \<Longrightarrow> same_page m m' q"
  shows "SV39_translate pt v m' = SV39_translate pt v m"
proof -
  obtain i j k where v: "indexes v = [i, j, k]" and path: "is_path [i, j]" and k: "unat k < 512"
    by (rule is_path_indexes)
  have n: "node m' (root_ppn pt) [i, j] = node m (root_ppn pt) [i, j]"
  proof (rule node_cong)
    fix ks a ls q
    assume split: "[i, j] = ks @ a # ls" and q: "node m (root_ppn pt) ks = Some q"
    have "is_path ks" "unat a < 512"
      using path unfolding split is_path_def by auto
    then show "entry m' q a = entry m q a"
      using pt_treeD(1) [OF tree _ q] same entry_same_page by blast
  qed
  show ?thesis
  proof (cases "node m (root_ppn pt) [i, j]")
    case (Some p)
    have "entry m' p k = entry m p k"
      using pt_treeD(1) [OF tree path Some] same k by (simp add: entry_same_page)
    then show ?thesis using Some n k by (simp add: SV39_translate_def find_pte_eq [OF v path] load_slot)
  qed (simp add: SV39_translate_def find_pte_eq [OF v path] n)
qed

text \<open>
  The bytes of a user range in physical memory, and what it takes for a write through them to be
  a write of user data: no byte is shared, none lies in a page table, none is at address 0.
\<close>

abbreviation user_pas :: "SV39PageTable \<Rightarrow> memory \<Rightarrow> nat \<Rightarrow> nat \<Rightarrow> usize list" where
  "user_pas pt m a b \<equiv> map (\<lambda>k. user_pa pt m (of_nat k)) [a..<b]"

definition user_data :: "SV39PageTable \<Rightarrow> memory \<Rightarrow> PhysPageNum set \<Rightarrow> nat \<Rightarrow> nat \<Rightarrow> bool" where
  "user_data pt m T a b \<longleftrightarrow> pt_tree m (root_ppn pt) T \<and> (\<forall>q \<in> T. ppn_ok q) \<and> user_range pt m a b
     \<and> distinct (user_pas pt m a b) \<and> 0 \<notin> set (user_pas pt m a b)
     \<and> (\<forall>q \<in> T. \<forall>off < 4096. page_addr q off \<notin> set (user_pas pt m a b))"

lemma user_data_translate:
  assumes data: "user_data pt m T a b" and out: "\<And>x. x \<notin> set (user_pas pt m a b) \<Longrightarrow> m' x = m x"
  shows "SV39_translate pt v m' = SV39_translate pt v m" and "user_pa pt m' x = user_pa pt m x"
    and "user_range pt m' a b"
proof -
  have "same_page m m' q" if "q \<in> T" for q
    unfolding same_page_def using data out that
    by (intro nth_equalityI) (auto simp: nth_get_bytes_array user_data_def)
  then show t: "SV39_translate pt v m' = SV39_translate pt v m" for v
    using data by (intro translate_same_tables [of m pt T]) (auto simp: user_data_def)
  then show "user_pa pt m' x = user_pa pt m x"
    by (simp add: user_pa_def translate_va_translate)
  show "user_range pt m' a b" using data t by (simp add: user_data_def user_range_def)
qed

lemma translated_ref_ok:
  assumes "user_range pt m a b" "a < b" "0 \<notin> set (user_pas pt m a b)" "pt = SV39_from_token token"
  shows "translated_ref m token (of_nat a) = Inr (user_pa pt m (of_nat a))"
    and "translated_refmut m token (of_nat a) = Inr (user_pa pt m (of_nat a))"
proof -
  have a38: "a < 2 ^ 38" using assms(1,2) by (simp add: user_range_def)
  obtain e where e: "SV39_translate pt (VirtPageNum (of_nat (a div 4096))) m = Some e"
    using assms(1,2) unfolding user_range_def by (meson atLeastLessThan_iff not_None_eq order_refl)
  have "SV39_translate_va pt (VirtAddr_from (of_nat a)) m \<noteq> None"
    using e by (simp add: translate_va_translate low_addr [OF a38])
  then obtain p where p: "SV39_translate_va pt (VirtAddr_from (of_nat a)) m = Some p" by blast
  moreover have "user_pa pt m (of_nat a) \<in> set (user_pas pt m a b)" using assms(2) by simp
  then have "user_pa pt m (of_nat a) \<noteq> 0" using assms(3) by metis
  then have "pa0 p \<noteq> 0" using p by (simp add: user_pa_def)
  ultimately show "translated_ref m token (of_nat a) = Inr (user_pa pt m (of_nat a))"
    and "translated_refmut m token (of_nat a) = Inr (user_pa pt m (of_nat a))"
    by (simp_all add: translated_ref_def translated_refmut_def PhysAddr_get_mut_def user_pa_def
        flip: assms(4))
qed

lemma byte_buffer_ok:
  assumes "user_range pt m a b" "a \<le> b" "pt = SV39_from_token token"
  obtains w where "translated_byte_buffer m token (of_nat a) (of_nat (b - a)) = Some (Inr w)"
    "buf_addrs w = user_pas pt m a b" "small_slices w"
  using byte_buffer_loop_ok [OF assms(1,2), of "[]"] assms(2)
  by (auto simp: translated_byte_buffer_def of_nat_diff assms(3))

text \<open>The page test of \<open>copy_to_user\<close> and \<open>copy_from_user\<close>.\<close>

lemma one_page_test:
  assumes "b < 2 ^ 38" "a < b"
  shows "VirtAddr_floor (VirtAddr_from (of_nat a))
      = VirtAddr_floor (VirtAddr_from (of_nat a + of_nat (b - a) - 1)) \<longleftrightarrow> a div 4096 = (b - 1) div 4096"
proof -
  have "of_nat a + of_nat (b - a) - 1 = (of_nat (b - 1) :: usize)"
    using assms by (simp add: of_nat_diff)
  moreover have "(of_nat (a div 4096) :: usize) = of_nat ((b - 1) div 4096) \<longleftrightarrow> a div 4096 = (b - 1) div 4096"
  proof -
    have "unat (of_nat (a div 4096) :: usize) = a div 4096"
      "unat (of_nat ((b - 1) div 4096) :: usize) = (b - 1) div 4096"
      using assms by (simp_all add: unat_of_nat)
    then show ?thesis by metis
  qed
  ultimately show ?thesis
    using assms by (simp only: low_addr) (simp add: low_addr)
qed

lemma one_page_slice:
  assumes "user_range pt m a b" "a < b" "a div 4096 = (b - 1) div 4096"
  shows "slice_addrs \<lparr>sl_addr = user_pa pt m (of_nat a), sl_len = b - a\<rparr> = user_pas pt m a b"
    and "b - a \<le> 4096"
proof -
  obtain e where e: "SV39_translate pt (VirtPageNum (of_nat (a div 4096))) m = Some e"
    using assms(1,2) unfolding user_range_def by (meson atLeastLessThan_iff not_None_eq order_refl)
  have "b - 1 < (a div 4096 + 1) * 4096"
    unfolding assms(3) using dividend_less_times_div [of 4096 "b - 1"] by simp
  then have "b \<le> (a div 4096 + 1) * 4096" using assms(2) by linarith
  moreover have "b \<le> 2 ^ 38" using assms(1) by (simp add: user_range_def)
  ultimately obtain sl where sl: "slice_addrs sl = user_pas pt m a b" "sl_len sl \<le> 4096"
    "sl_addr sl = user_pa pt m (of_nat a)"
    using page_slice_addrs [OF e assms(2)] by blast
  have len: "sl_len sl = b - a" using arg_cong [OF sl(1), of length] by simp
  then show "b - a \<le> 4096" using sl(2) by simp
  show "slice_addrs \<lparr>sl_addr = user_pa pt m (of_nat a), sl_len = b - a\<rparr> = user_pas pt m a b"
    using sl len by (metis byte_slice.surjective byte_slice.simps(1,2) slice_addrs_def)
qed

lemma copy_to_user_ok:
  assumes data: "user_data pt m T a b" and b: "b = a + length src" and ne: "src \<noteq> []"
    and pt: "pt = SV39_from_token token"
  shows "\<exists>m'. copy_to_user m token src (of_nat a) = Some (Inr m')
    \<and> map m' (user_pas pt m a b) = src \<and> (\<forall>x. x \<notin> set (user_pas pt m a b) \<longrightarrow> m' x = m x)"
proof -
  have range: "user_range pt m a b" and lt: "a < b" and b38: "b < 2 ^ 38" and len: "length src = b - a"
    using data b ne by (auto simp: user_data_def user_range_def)
  show ?thesis
  proof (cases "a div 4096 = (b - 1) div 4096")
    case True
    let ?sl = "\<lparr>sl_addr = user_pa pt m (of_nat a), sl_len = b - a\<rparr>"
    note sl = one_page_slice [OF range lt True]
    let ?m' = "write_bytes m (user_pa pt m (of_nat a)) src"
    have c: "copy_to_user m token src (of_nat a) = Some (Inr ?m')"
      using one_page_test [OF b38 lt] True translated_ref_ok(2) [OF range lt _ pt] data
      by (simp add: copy_to_user_def len user_data_def)
    have w: "?m' x = m x" if "x \<notin> set (user_pas pt m a b)" for x
      using write_bytes_slice(1) [of 0 src ?sl x m] sl len that by simp
    have "?m' (user_pa pt m (of_nat a) + of_nat i) = src ! i" if "i < b - a" for i
      using write_bytes_slice(2) [of 0 src ?sl i m] sl(2) len that by simp
    then have "map ?m' (slice_addrs ?sl) = src"
      using len by (intro nth_equalityI) (simp_all add: slice_addrs_def)
    with c w show ?thesis unfolding sl(1) by blast
  next
    case False
    obtain w where w: "translated_byte_buffer m token (of_nat a) (of_nat (b - a)) = Some (Inr w)"
      "buf_addrs w = user_pas pt m a b" "small_slices w"
      using byte_buffer_ok [OF range _ pt] lt by auto
    obtain n m' where r: "write_buffer_loop w 0 src 0 0 m = (n, m')"
      by (cases "write_buffer_loop w 0 src 0 0 m")
    have d: "distinct (buf_addrs w)" using data w(2) by (simp add: user_data_def)
    note spec = write_buffer_loop_spec [OF d w(3) r, unfolded w(2)]
    have "UserBuffer_len (UserBuffer_new w) > 0"
      using w(2) lt by (simp add: UserBuffer_len_eq UserBuffer_new_def)
    then have c: "copy_to_user m token src (of_nat a) = Some (Inr m')"
      using one_page_test [OF b38 lt] False w(1) r
      by (simp add: copy_to_user_def len UserBuffer_write_buffer_def) (simp add: UserBuffer_new_def)
    have "map m' (user_pas pt m a b) = src"
      using spec len by (intro nth_equalityI) (auto simp: written_byte_def)
    with c spec show ?thesis by blast
  qed
qed

lemma copy_from_user_ok:
  assumes range: "user_range pt m a b" and null: "0 \<notin> set (user_pas pt m a b)"
    and b: "b = a + length dst" and ne: "dst \<noteq> []" and pt: "pt = SV39_from_token token"
  shows "copy_from_user m token (of_nat a) dst = Some (Inr (map m (user_pas pt m a b)))"
proof -
  have lt: "a < b" and b38: "b < 2 ^ 38" and len: "length dst = b - a"
    using range b ne by (auto simp: user_range_def)
  show ?thesis
  proof (cases "a div 4096 = (b - 1) div 4096")
    case True
    let ?sl = "\<lparr>sl_addr = user_pa pt m (of_nat a), sl_len = b - a\<rparr>"
    note sl = one_page_slice [OF range lt True]
    have "copy_from_user m token (of_nat a) dst = Some (Inr (slice_bytes m ?sl))"
      using one_page_test [OF b38 lt] True translated_ref_ok(1) [OF range lt null pt]
      by (simp add: copy_from_user_def len slice_bytes_def)
    then show ?thesis by (simp only: slice_bytes_addrs sl(1))
  next
    case False
    obtain w where w: "translated_byte_buffer m token (of_nat a) (of_nat (b - a)) = Some (Inr w)"
      "buf_addrs w = user_pas pt m a b" "small_slices w"
      using byte_buffer_ok [OF range _ pt] lt by auto
    obtain n d where r: "read_loop w m 0 dst 0 0 = (n, d)" by (cases "read_loop w m 0 dst 0 0")
    have "UserBuffer_len (UserBuffer_new w) > 0"
      using w(2) lt by (simp add: UserBuffer_len_eq UserBuffer_new_def)
    then have c: "copy_from_user m token (of_nat a) dst = Some (Inr d)"
      using one_page_test [OF b38 lt] False w(1) r
      by (simp add: copy_from_user_def len UserBuffer_read_def) (simp add: UserBuffer_new_def)
    have "d = map m (user_pas pt m a b)"
      using read_loop_spec [OF r, unfolded w(2)] len by (intro nth_equalityI) auto
    with c show ?thesis by simp
  qed
qed

section \<open>The properties of user-memory access\<close>


text \<open>The example page table again, reached through its token.\<close>

lemma example_token:
  obtains token m T where "SV39_translate (SV39_from_token token) (VirtPageNum 5) m
      = Some (PageTableEntry_new (PhysPageNum 0x80200) 3)"
    "pt_tree m (root_ppn (SV39_from_token token)) T" "\<And>q. q \<in> T \<Longrightarrow> ppn_ok q \<and> 0x80400 \<le> ppn0 q"
proof -
  obtain pt st where e: "pt_inv 0x80400 pt st"
    "pt_lookup pt st (VirtPageNum 5) = Some (PageTableEntry_new (PhysPageNum 0x80200) 3)"
    by (rule example_mapped)
  have tree: "pt_tree (mm_mem st) (root_ppn pt) (tables (frames pt))"
    and live: "tables (frames pt) \<subseteq> fa_live 0x80400 (mm_alloc st)" and inv: "fa_invar 0x80400 (mm_alloc st)"
    using e(1) by (simp_all add: pt_inv_def tree_inv_def)
  have "ppn_ok (root_ppn pt)" using pt_treeD(2) [OF tree, of "[]"] by (simp add: is_path_def)
  then have r: "root_ppn (SV39_from_token (SV39_token pt)) = root_ppn pt"
    by (simp add: from_token_token)
  show ?thesis
  proof (rule that)
    show "SV39_translate (SV39_from_token (SV39_token pt)) (VirtPageNum 5) (mm_mem st)
        = Some (PageTableEntry_new (PhysPageNum 0x80200) 3)"
      using e(2) r by (intro translate_lookup) simp
    show "pt_tree (mm_mem st) (root_ppn (SV39_from_token (SV39_token pt))) (tables (frames pt))"
      using tree r by simp
    show "ppn_ok q \<and> 0x80400 \<le> ppn0 q" if "q \<in> tables (frames pt)" for q
      using that live fa_live_ok [OF inv] by (auto simp: fa_live_def)
  qed
qed

lemma example_range:
  assumes "SV39_translate pt (VirtPageNum 5) m = Some e"
  shows "user_range pt m 0x5010 0x5012"
proof -
  have "k div 4096 = 5" if "k \<in> {0x5010..<0x5012}" for k :: nat
    using that by (auto simp: div_nat_eqI)
  then show ?thesis using assms by (auto simp: user_range_def)
qed




lemma byte_buffer_round_stuck:
  assumes "SV39_translate pt (VirtPageNum 0) m = Some e" and "s = 1 \<or> s = 2 ^ 39"
  shows "\<exists>sl. page_slice (PageTableEntry_ppn e) (unat (VirtAddr_page_offset (VirtAddr_from s))) 1 = Inr sl"
    and "VirtAddr_floor (VirtAddr_from s) = VirtPageNum 0"
    and "min (VirtAddr_from_VirtPageNum (VirtPageNum_step (VirtPageNum 0))) (VirtAddr_from (2 ^ 39 + 1)) = VirtAddr 1"
    and "s < 2 ^ 39 + 1"
  using assms(2)
  by (auto simp: page_slice_def VirtAddr_page_offset_def VirtAddr_from_def VirtAddr_floor_def
      VirtAddr_from_VirtPageNum_def VirtPageNum_step_def config_defs min_def newtype_order
      word_le_nat_alt)

lemma byte_buffer_stuck:
  assumes e: "SV39_translate pt (VirtPageNum 0) m = Some e" and s: "s = 1 \<or> s = 2 ^ 39"
  shows "translated_byte_buffer_loop m pt (2 ^ 39 + 1) s v \<noteq> Some y"
proof
  assume "translated_byte_buffer_loop m pt (2 ^ 39 + 1) s v = Some y"
  moreover have "\<not> (m' = m \<and> pt' = pt \<and> e' = 2 ^ 39 + 1 \<and> (s' = 1 \<or> s' = 2 ^ 39))"
    if "translated_byte_buffer_loop m' pt' e' s' v' = Some y'" for m' pt' e' s' v' y'
  proof (rule translated_byte_buffer_loop.raw_induct [where P = "\<lambda>m' pt' e' s' v' y'.
        \<not> (m' = m \<and> pt' = pt \<and> e' = 2 ^ 39 + 1 \<and> (s' = 1 \<or> s' = 2 ^ 39))", OF _ that], goal_cases)
    case (1 loop m' pt' e' s' v' y')
    show ?case
    proof
      assume eq: "m' = m \<and> pt' = pt \<and> e' = 2 ^ 39 + 1 \<and> (s' = 1 \<or> s' = 2 ^ 39)"
      then have s': "s' = 1 \<or> s' = 2 ^ 39" by blast
      note round = byte_buffer_round_stuck [OF e s']
      obtain sl where sl: "page_slice (PageTableEntry_ppn e) (unat (VirtAddr_page_offset (VirtAddr_from s'))) 1 = Inr sl"
        using round(1) by blast
      have one: "unat (VirtAddr_page_offset (VirtAddr 1)) = 1" "VirtAddr_page_offset (VirtAddr 1) \<noteq> 0"
        "usize_from_VirtAddr (VirtAddr 1) = 1"
        by (simp_all add: VirtAddr_page_offset_def usize_from_VirtAddr_def config_defs word_le_nat_alt)
      have "loop m pt (2 ^ 39 + 1) 1 (v' @ [sl]) = Some y'"
        using 1(2) eq round(4) by (simp only: Let_def round e option.case if_True one if_False sl sum.case)
      then show False using 1(1) [of m pt "2 ^ 39 + 1" 1 "v' @ [sl]" y'] by blast
    qed
  qed
  ultimately show False using s by blast
qed

text \<open>
  A user pointer outside the 39-bit space makes the kernel loop: for \<open>ptr = 2 ^ 39\<close> and
  \<open>len = 1\<close> (the arguments of any \<open>read\<close> or \<open>write\<close> system call), when page 0 of the process
  has an entry, \<open>translated_byte_buffer\<close> never returns: the end of the range is masked to 39 bits
  while the loop compares it unmasked.
\<close>

lemma translated_byte_buffer_diverges:
  assumes "SV39_translate (SV39_from_token token) (VirtPageNum 0) m = Some e"
  shows "translated_byte_buffer m token (2 ^ 39) 1 = None"
  using byte_buffer_stuck [OF assms, of "2 ^ 39" "[]"]
  by (simp only: translated_byte_buffer_def) (metis not_None_eq)

lemma translated_byte_buffer_diverges_witness:
  "\<exists>token m. translated_byte_buffer m token (2 ^ 39) 1 = None"
proof -
  obtain token m T where e: "SV39_translate (SV39_from_token token) (VirtPageNum 5) m
      = Some (PageTableEntry_new (PhysPageNum 0x80200) 3)"
    by (rule example_token)
  have i: "indexes (VirtPageNum 5) = [0, 0, 5]" "indexes (VirtPageNum 0) = [0, 0, 0]" "is_path [0, 0]"
    by (simp_all add: indexes_eq is_path_def)
  have "SV39_translate (SV39_from_token token) (VirtPageNum 0) m \<noteq> None"
    using e by (auto simp: SV39_translate_def find_pte_eq [OF i(1,3)] find_pte_eq [OF i(2,3)])
  then show ?thesis using translated_byte_buffer_diverges by blast
qed

end
