(* ===== verification/Memory_Set.thy ===== *)
theory Memory_Set
  imports User_Memory
begin

text \<open>
  Address spaces: \<open>os/src/mm/memory_set.rs\<close>. A \<open>MapArea\<close> is a range of pages with its mapping
  type, permission and the frames it owns (a \<open>BTreeMap\<close>, here the list of its entries in key
  order); a \<open>MemorySet\<close> is a page table with its areas and heap bounds. Dropping an area or an
  address space drops its frame trackers, which returns the frames. The linker symbols, the
  parsed ELF file and the file behind \<open>mmap\<close> are arguments.
\<close>

section \<open>\<open>BTreeMap\<close>\<close>

fun btree_insert :: "'k::linorder \<Rightarrow> 'v \<Rightarrow> ('k \<times> 'v) list \<Rightarrow> ('k \<times> 'v) list" where
  "btree_insert k v [] = [(k, v)]"
| "btree_insert k v ((k', v') # xs) =
     (if k < k' then (k, v) # (k', v') # xs
      else if k = k' then (k, v) # xs
      else (k', v') # btree_insert k v xs)"

definition btree_remove :: "'k \<Rightarrow> ('k \<times> 'v) list \<Rightarrow> ('k \<times> 'v) list" where
  "btree_remove k xs = filter (\<lambda>(k', _). k' \<noteq> k) xs"

section \<open>Areas\<close>

datatype MapType = Identical | Framed | Linear isize

record MapArea =
  vpn_range :: VPNRange
  data_frames :: "(VirtPageNum \<times> FrameTracker) list"
  map_type :: MapType
  map_perm :: u8

definition MapArea_new :: "VirtAddr \<Rightarrow> VirtAddr \<Rightarrow> MapType \<Rightarrow> u8 \<Rightarrow> MapArea result" where
  "MapArea_new start_va end_va mt perm =
     (let start_vpn = VirtAddr_floor start_va;
          end_vpn = VirtAddr_ceil end_va
      in rbind (SimpleRange_new start_vpn end_vpn) (\<lambda>r.
         Inr \<lparr>vpn_range = r, data_frames = [], map_type = mt, map_perm = perm\<rparr>))"

definition MapArea_from_another :: "MapArea \<Rightarrow> MapArea result" where
  "MapArea_from_another another =
     rbind (SimpleRange_new (range_l (vpn_range another)) (range_r (vpn_range another))) (\<lambda>r.
     Inr \<lparr>vpn_range = r, data_frames = [], map_type = map_type another, map_perm = map_perm another\<rparr>)"

definition check_overlapping ::
  "MapArea \<Rightarrow> VirtPageNum \<Rightarrow> VirtPageNum \<Rightarrow> (VirtPageNum \<times> VirtPageNum) option" where
  "check_overlapping area start_vpn end_vpn =
     (let area_start_vpn = range_l (vpn_range area);
          area_end_vpn = range_r (vpn_range area)
      in if end_vpn < area_start_vpn \<or> start_vpn > area_end_vpn then None
         else
           (let overlap_start = (if start_vpn > area_start_vpn then start_vpn else area_start_vpn);
                overlap_end = (if end_vpn < area_end_vpn then end_vpn else area_end_vpn)
            in Some (overlap_start, overlap_end)))"

text \<open>\<open>into_three\<close>: the two new areas with the area cut down; \<open>None\<close> leaves it unchanged.\<close>

definition into_three ::
  "MapArea \<Rightarrow> VirtPageNum \<Rightarrow> VirtPageNum \<Rightarrow> ((MapArea \<times> MapArea) option \<times> MapArea) result" where
  "into_three area start_vpn end_vpn =
     (let area_start = range_l (vpn_range area);
          area_end = range_r (vpn_range area);
          start_va = VirtAddr_from_VirtPageNum start_vpn;
          end_va = VirtAddr_from_VirtPageNum end_vpn;
          area_end_va = VirtAddr_from_VirtPageNum area_end
      in if \<not> (area_start < start_vpn \<and> start_vpn < end_vpn \<and> end_vpn < area_end)
         then Inr (None, area)
         else
           rbind (MapArea_new start_va end_va (map_type area) (map_perm area)) (\<lambda>middle.
           rbind (MapArea_new end_va area_end_va (map_type area) (map_perm area)) (\<lambda>right.
           rbind (SimpleRange_new area_start start_vpn) (\<lambda>r.
           Inr (Some (middle\<lparr>data_frames := data_frames area\<rparr>, right\<lparr>data_frames := data_frames area\<rparr>),
                area\<lparr>vpn_range := r\<rparr>)))))"

text \<open>The pages \<open>a.0..b.0\<close> as a range of integers.\<close>

definition vpn_upto :: "VirtPageNum \<Rightarrow> VirtPageNum \<Rightarrow> VirtPageNum list" where
  "vpn_upto a b = map (\<lambda>n. VirtPageNum (of_nat n)) [unat (vpn0 a)..<unat (vpn0 b)]"

text \<open>\<open>shrink_to\<close> and \<open>rshrink_to\<close>: \<open>Inl ()\<close> is \<open>Err(())\<close>.\<close>

definition shrink_to ::
  "MapArea \<Rightarrow> SV39PageTable \<Rightarrow> VirtAddr \<Rightarrow> mm \<Rightarrow> ((unit + unit) \<times> MapArea \<times> mm) result" where
  "shrink_to area pt new_end st =
     (let new_end_vpn = VirtAddr_floor new_end;
          old_end_vpn = range_r (vpn_range area);
          start_vpn = range_l (vpn_range area)
      in if \<not> (start_vpn < new_end_vpn \<and> new_end_vpn < old_end_vpn) then Inr (Inl (), area, st)
         else
           rbind (rfold (SV39_unmap pt) (vpn_upto new_end_vpn old_end_vpn) st) (\<lambda>st'.
           rbind (SimpleRange_new start_vpn new_end_vpn) (\<lambda>r.
           Inr (Inr (), area\<lparr>vpn_range := r\<rparr>, st'))))"

definition rshrink_to ::
  "MapArea \<Rightarrow> SV39PageTable \<Rightarrow> VirtAddr \<Rightarrow> mm \<Rightarrow> ((unit + unit) \<times> MapArea \<times> mm) result" where
  "rshrink_to area pt new_start st =
     (let new_start_vpn = VirtAddr_floor new_start;
          old_start_vpn = range_l (vpn_range area);
          old_end_vpn = range_r (vpn_range area)
      in if \<not> (old_start_vpn < new_start_vpn \<and> new_start_vpn < old_end_vpn) then Inr (Inl (), area, st)
         else
           rbind (rfold (SV39_unmap pt) (vpn_upto old_start_vpn new_start_vpn) st) (\<lambda>st'.
           rbind (SimpleRange_new new_start_vpn old_end_vpn) (\<lambda>r.
           Inr (Inr (), area\<lparr>vpn_range := r\<rparr>, st'))))"

text \<open>Dropping an \<open>Option<FrameTracker>\<close>.\<close>

definition drop_frame_option :: "FrameTracker option \<Rightarrow> mm \<Rightarrow> mm result" where
  "drop_frame_option f st = (case f of None \<Rightarrow> Inr st | Some f \<Rightarrow> FrameTracker_drop f st)"

text \<open>
  \<open>map_one\<close>: the state is the area, the page table and the memory. Inserting under a key that is
  present drops the tracker that was there.
\<close>

definition map_one ::
  "VirtPageNum \<Rightarrow> MapArea \<times> SV39PageTable \<times> mm \<Rightarrow> (MapArea \<times> SV39PageTable \<times> mm) result" where
  "map_one vpn = (\<lambda>(area, pt, st).
     rbind
       (case map_type area of
          Identical \<Rightarrow> Inr (PhysPageNum (vpn0 vpn), area, st)
        | Framed \<Rightarrow>
            rbind (unwrap (frame_alloc st)) (\<lambda>(frame, st1).
            rbind (drop_frame_option (map_of (data_frames area) vpn) st1) (\<lambda>st2.
            Inr (ft_ppn frame, area\<lparr>data_frames := btree_insert vpn frame (data_frames area)\<rparr>, st2)))
        | Linear pn_offset \<Rightarrow>
            rbind (rassert (vpn0 vpn < push_bit 27 1)) (\<lambda>_.
            Inr (PhysPageNum (vpn0 vpn + pn_offset), area, st)))
       (\<lambda>(ppn, area', st').
          rbind (unwrap (bitflags_from_bits MapPermission_all (map_perm area'))) (\<lambda>pte_flags.
          rbind (SV39_map pt vpn ppn pte_flags st') (\<lambda>(pt', st''). Inr (area', pt', st'')))))"

definition unmap_one ::
  "VirtPageNum \<Rightarrow> MapArea \<times> SV39PageTable \<times> mm \<Rightarrow> (MapArea \<times> SV39PageTable \<times> mm) result" where
  "unmap_one vpn = (\<lambda>(area, pt, st).
     rbind (if map_type area = Framed
            then rbind (drop_frame_option (map_of (data_frames area) vpn) st) (\<lambda>st'.
                 Inr (area\<lparr>data_frames := btree_remove vpn (data_frames area)\<rparr>, st'))
            else Inr (area, st)) (\<lambda>(area', st').
     rbind (SV39_unmap pt vpn st') (\<lambda>st''. Inr (area', pt, st''))))"

definition MapArea_map :: "MapArea \<times> SV39PageTable \<times> mm \<Rightarrow> (MapArea \<times> SV39PageTable \<times> mm) result" where
  "MapArea_map s = rfold map_one (vpns_of (vpn_range (fst s))) s"

definition MapArea_unmap :: "MapArea \<times> SV39PageTable \<times> mm \<Rightarrow> (MapArea \<times> SV39PageTable \<times> mm) result" where
  "MapArea_unmap s = rfold unmap_one (vpns_of (vpn_range (fst s))) s"

text \<open>
  The loop of \<open>copy_data\<close>: one page per round, at least one round.
\<close>

function copy_data_loop ::
  "SV39PageTable \<Rightarrow> u8 list \<Rightarrow> nat \<Rightarrow> VirtPageNum \<Rightarrow> memory \<Rightarrow> memory result" where
  "copy_data_loop pt data start current_vpn m =
     rbind (slice_at data start (min (length data) (start + 4096))) (\<lambda>src.
     rbind (unwrap (SV39_translate pt current_vpn m)) (\<lambda>e.
     rbind (PhysPageNum_copy_from_slice m (PageTableEntry_ppn e) 0 src) (\<lambda>m'.
     if start + 4096 \<ge> length data then Inr m'
     else copy_data_loop pt data (start + 4096) (VirtPageNum_step current_vpn) m')))"
  by pat_completeness auto
termination by (relation "measure (\<lambda>(pt, data, start, v, m). length data - start)") auto

declare copy_data_loop.simps [simp del]

definition MapArea_copy_data :: "MapArea \<Rightarrow> SV39PageTable \<Rightarrow> u8 list \<Rightarrow> mm \<Rightarrow> mm result" where
  "MapArea_copy_data area pt data st =
     rbind (rassert (map_type area = Framed)) (\<lambda>_.
     rbind (copy_data_loop pt data 0 (range_l (vpn_range area)) (mm_mem st)) (\<lambda>m.
     Inr (st\<lparr>mm_mem := m\<rparr>)))"

text \<open>Dropping an area drops the trackers it still holds, in key order.\<close>

definition MapArea_drop :: "MapArea \<Rightarrow> mm \<Rightarrow> mm result" where
  "MapArea_drop area st = rfold (\<lambda>(_, f) st. FrameTracker_drop f st) (data_frames area) st"

section \<open>Address spaces\<close>

record MemorySet =
  page_table :: SV39PageTable
  areas :: "MapArea list"
  brk :: usize
  heap_start :: usize

definition MemorySet_new_bare :: "mm \<Rightarrow> (MemorySet \<times> mm) result" where
  "MemorySet_new_bare st =
     rbind (SV39_new_kernel st) (\<lambda>(pt, st').
     Inr (\<lparr>page_table = pt, areas = [], brk = 0, heap_start = 0\<rparr>, st'))"

definition MemorySet_token :: "MemorySet \<Rightarrow> usize" where
  "MemorySet_token ms = SV39_token (page_table ms)"

definition MemorySet_translate :: "MemorySet \<Rightarrow> VirtPageNum \<Rightarrow> memory \<Rightarrow> PageTableEntry option" where
  "MemorySet_translate ms vpn m = SV39_translate (page_table ms) vpn m"

definition MemorySet_push ::
  "MapArea \<Rightarrow> u8 list option \<Rightarrow> MemorySet \<times> mm \<Rightarrow> (MemorySet \<times> mm) result" where
  "MemorySet_push map_area data = (\<lambda>(ms, st).
     rbind (MapArea_map (map_area, page_table ms, st)) (\<lambda>(map_area', pt', st').
     rbind (case data of
              None \<Rightarrow> Inr st'
            | Some bytes \<Rightarrow> MapArea_copy_data map_area' pt' bytes st') (\<lambda>st''.
     Inr (ms\<lparr>page_table := pt', areas := areas ms @ [map_area']\<rparr>, st''))))"

definition insert_framed_area ::
  "VirtAddr \<Rightarrow> VirtAddr \<Rightarrow> u8 \<Rightarrow> MemorySet \<times> mm \<Rightarrow> (MemorySet \<times> mm) result" where
  "insert_framed_area start_va end_va permission s =
     rbind (MapArea_new start_va end_va Framed permission) (\<lambda>area. MemorySet_push area None s)"

text \<open>
  \<open>areas.remove(idx)\<close> after the unmapping of \<open>areas[idx]\<close>: the area is dropped.
\<close>

definition unmap_and_remove :: "nat \<Rightarrow> MemorySet \<times> mm \<Rightarrow> (MemorySet \<times> mm) result" where
  "unmap_and_remove idx = (\<lambda>(ms, st).
     rbind (index_at (areas ms) idx) (\<lambda>area.
     rbind (MapArea_unmap (area, page_table ms, st)) (\<lambda>(area', pt', st').
     rbind (MapArea_drop area' st') (\<lambda>st''.
     Inr (ms\<lparr>page_table := pt', areas := remove_nth idx (areas ms)\<rparr>, st'')))))"

definition remove_area_with_start_vpn ::
  "VirtPageNum \<Rightarrow> MemorySet \<times> mm \<Rightarrow> (MemorySet \<times> mm) result" where
  "remove_area_with_start_vpn start_vpn s =
     (case position (\<lambda>area. range_l (vpn_range area) = start_vpn) (areas (fst s)) of
        None \<Rightarrow> Inr s
      | Some idx \<Rightarrow> unmap_and_remove idx s)"

definition map_trampoline :: "usize \<Rightarrow> MemorySet \<times> mm \<Rightarrow> (MemorySet \<times> mm) result" where
  "map_trampoline strampoline = (\<lambda>(ms, st).
     rbind (VirtPageNum_from_VirtAddr (VirtAddr_from TRAMPOLINE)) (\<lambda>vpn.
     rbind (PhysPageNum_from_PhysAddr (PhysAddr_from strampoline)) (\<lambda>ppn.
     rbind (SV39_map (page_table ms) vpn ppn (MapPermission_R OR MapPermission_X) st) (\<lambda>(pt', st').
     Inr (ms\<lparr>page_table := pt'\<rparr>, st')))))"

text \<open>\<open>expand_heap\<close> always returns \<open>Ok(())\<close> and does not move \<open>brk\<close> itself.\<close>

definition expand_heap :: "usize \<Rightarrow> MemorySet \<times> mm \<Rightarrow> (MemorySet \<times> mm) result" where
  "expand_heap new_brk s =
     (let old_brk = brk (fst s);
          old_page = align_up old_brk PAGE_SIZE;
          new_page = align_up new_brk PAGE_SIZE
      in if new_page > old_page
         then insert_framed_area (VirtAddr_from old_page) (VirtAddr_from new_page)
                (MapPermission_R OR MapPermission_W OR MapPermission_U) s
         else Inr s)"

text \<open>\<open>munmap\<close>: \<open>Inl e\<close> in the first component is \<open>Err(e)\<close>.\<close>

definition MemorySet_munmap ::
  "usize \<Rightarrow> usize \<Rightarrow> MemorySet \<times> mm \<Rightarrow> ((isize + unit) \<times> MemorySet \<times> mm) result" where
  "MemorySet_munmap start len s =
     (if len = 0 then Inr (Inl (- 1), s)
      else if \<not> VirtAddr_aligned (VirtAddr_from start) then Inr (Inl (- 1), s)
      else case checked_add start len of
        None \<Rightarrow> Inr (Inl (- 1), s)
      | Some end' \<Rightarrow>
         (let start_vpn = VirtAddr_floor (VirtAddr_from start);
              end_vpn = VirtAddr_ceil (VirtAddr_from end')
          in if end_vpn \<le> start_vpn then Inr (Inl (- 1), s)
             else case position (\<lambda>area. range_l (vpn_range area) = start_vpn
                                     \<and> range_r (vpn_range area) = end_vpn) (areas (fst s)) of
               None \<Rightarrow> Inr (Inl (- 1), s)
             | Some idx \<Rightarrow> rbind (unmap_and_remove idx s) (\<lambda>s'. Inr (Inr (), s'))))"

text \<open>
  The search of \<open>find_free_area\<close>, a loop that ends only when a gap is found.
\<close>

definition overlaps_any :: "MapArea list \<Rightarrow> VirtPageNum \<Rightarrow> VirtPageNum \<Rightarrow> bool" where
  "overlaps_any as start_vpn end_vpn \<longleftrightarrow>
     list_ex (\<lambda>area. check_overlapping area start_vpn end_vpn \<noteq> None) as"

definition next_search_addr :: "MapArea list \<Rightarrow> usize \<Rightarrow> usize" where
  "next_search_addr as addr =
     (case find (\<lambda>area.
             usize_from_VirtAddr (VirtAddr_from_VirtPageNum (range_l (vpn_range area))) \<le> addr
             \<and> addr < usize_from_VirtAddr (VirtAddr_from_VirtPageNum (range_r (vpn_range area)))) as of
        None \<Rightarrow> addr + PAGE_SIZE
      | Some area \<Rightarrow> usize_from_VirtAddr (VirtAddr_from_VirtPageNum (range_r (vpn_range area))))"

partial_function (option) find_free_area_loop :: "MapArea list \<Rightarrow> usize \<Rightarrow> usize \<Rightarrow> usize option" where
  "find_free_area_loop as len addr =
     (if \<not> overlaps_any as (VirtAddr_floor (VirtAddr_from addr)) (VirtAddr_ceil (VirtAddr_from (addr + len)))
      then Some addr
      else find_free_area_loop as len (next_search_addr as addr))"

definition find_free_area :: "usize \<Rightarrow> MemorySet \<Rightarrow> (usize \<times> MemorySet) option" where
  "find_free_area len ms =
     (let len' = (len + PAGE_SIZE - 1) AND NOT (PAGE_SIZE - 1)
      in case find_free_area_loop (areas ms) len' (brk ms) of
           None \<Rightarrow> None
         | Some addr \<Rightarrow> Some (addr, ms\<lparr>brk := addr + len'\<rparr>))"

text \<open>
  The file behind a mapping (\<open>dyn File\<close>): its size as \<open>get_stat\<close> reports it and the bytes
  \<open>read_at(0, buf)\<close> leaves in a zeroed buffer of the given length (\<open>None\<close>: the \<open>expect\<close> panics).
\<close>

record mmap_file =
  mf_size :: usize
  mf_read :: "nat \<Rightarrow> u8 list option"

function mmap_copy_loop ::
  "SV39PageTable \<Rightarrow> u8 list \<Rightarrow> nat \<Rightarrow> nat \<Rightarrow> VirtPageNum \<Rightarrow> memory \<Rightarrow> memory result" where
  "mmap_copy_loop pt buf copy_len offset vpn m =
     (if offset < copy_len then
        rbind (unwrap (SV39_translate pt vpn m)) (\<lambda>e.
        rbind (slice_at buf offset (min (offset + 4096) copy_len)) (\<lambda>src.
        rbind (PhysPageNum_copy_from_slice m (PageTableEntry_ppn e) 0 src) (\<lambda>m'.
        mmap_copy_loop pt buf copy_len (offset + 4096) (VirtPageNum_step vpn) m')))
      else Inr m)"
  by pat_completeness auto
termination by (relation "measure (\<lambda>(pt, buf, copy_len, offset, v, m). copy_len - offset)") auto

declare mmap_copy_loop.simps [simp del]

definition mmap_copy_file ::
  "usize \<Rightarrow> usize \<Rightarrow> VirtPageNum \<Rightarrow> mmap_file \<Rightarrow> MemorySet \<times> mm \<Rightarrow> (MemorySet \<times> mm) result" where
  "mmap_copy_file len off start_vpn file = (\<lambda>(ms, st).
     (let copy_len = unat (min len (mf_size file))
      in rbind (case mf_read file copy_len of None \<Rightarrow> Inl Explicit_Panic | Some buf \<Rightarrow> Inr buf) (\<lambda>buf.
         rbind (mmap_copy_loop (page_table ms) buf copy_len (unat off) start_vpn (mm_mem st)) (\<lambda>m.
         Inr (ms, st\<lparr>mm_mem := m\<rparr>)))))"

text \<open>
  \<open>mmap\<close> once the start address is fixed. The \<open>MapArea::new\<close> whose result the code discards is
  kept: it is where a bad range panics.
\<close>

definition mmap_at ::
  "VirtAddr \<Rightarrow> usize \<Rightarrow> usize \<Rightarrow> mmap_file option \<Rightarrow> usize \<Rightarrow> MemorySet \<times> mm
     \<Rightarrow> ((isize + usize) \<times> MemorySet \<times> mm) result" where
  "mmap_at start_va len prot file off s =
     (case checked_add (usize_from_VirtAddr start_va) len of
        None \<Rightarrow> Inr (Inl (- 1), s)
      | Some end' \<Rightarrow>
         (let end_va = VirtAddr_from end';
              start_vpn = VirtAddr_floor start_va;
              end_vpn = VirtAddr_ceil end_va
          in if overlaps_any (areas (fst s)) start_vpn end_vpn then Inr (Inl (- 1), s)
             else
               (let perm = (case bitflags_from_bits MapPermission_all (ucast prot) of
                              None \<Rightarrow> MapPermission_R OR MapPermission_W OR MapPermission_U
                            | Some p \<Rightarrow> p)
                in rbind (MapArea_new start_va end_va Framed perm) (\<lambda>_.
                   rbind (insert_framed_area start_va end_va perm s) (\<lambda>s'.
                   rbind (case file of None \<Rightarrow> Inr s' | Some f \<Rightarrow> mmap_copy_file len off start_vpn f s') (\<lambda>s''.
                   Inr (Inr (usize_from_VirtAddr start_va), s'')))))))"

definition MemorySet_mmap ::
  "usize \<Rightarrow> usize \<Rightarrow> usize \<Rightarrow> usize \<Rightarrow> mmap_file option \<Rightarrow> usize \<Rightarrow> MemorySet \<times> mm
     \<Rightarrow> ((isize + usize) \<times> MemorySet \<times> mm) result option" where
  "MemorySet_mmap start len prot flags file off s =
     (if len = 0 then Some (Inr (Inl (- 1), s))
      else if start = 0 then
        (case find_free_area len (fst s) of
           None \<Rightarrow> None
         | Some (va, ms') \<Rightarrow> Some (mmap_at (VirtAddr_from va) len prot file off (ms', snd s)))
      else if \<not> VirtAddr_aligned (VirtAddr_from start) then Some (Inr (Inl (- 1), s))
      else Some (mmap_at (VirtAddr_from start) len prot file off s))"

text \<open>The linker symbols the kernel space is built from.\<close>

record kernel_symbols =
  stext :: usize  etext :: usize
  srodata :: usize  erodata :: usize
  sdata :: usize  edata :: usize
  sbss_with_stack :: usize  ebss :: usize
  ekernel :: usize
  strampoline :: usize

definition MMIO :: "(usize \<times> usize) list" where
  "MMIO = [(0x10000000, 0x1000), (0x10001000, 0x1000), (0xC000000, 0x400000)]"

definition kernel_areas :: "kernel_symbols \<Rightarrow> (usize \<times> usize \<times> u8) list" where
  "kernel_areas k =
     [(stext k, etext k, MapPermission_R OR MapPermission_X),
      (srodata k, erodata k, MapPermission_R),
      (sdata k, edata k, MapPermission_R OR MapPermission_W),
      (sbss_with_stack k, ebss k, MapPermission_R OR MapPermission_W),
      (ekernel k, MEMORY_END, MapPermission_R OR MapPermission_W)]
     @ map (\<lambda>(base, size). (base, base + size, MapPermission_R OR MapPermission_W)) MMIO"

definition MemorySet_new_kernel :: "kernel_symbols \<Rightarrow> mm \<Rightarrow> (MemorySet \<times> mm) result" where
  "MemorySet_new_kernel k st =
     rbind (MemorySet_new_bare st) (\<lambda>s.
     rbind (map_trampoline (strampoline k) s) (\<lambda>s.
     rfold (\<lambda>(a, b, perm) s.
        rbind (MapArea_new (VirtAddr_from a) (VirtAddr_from b) Identical perm) (\<lambda>area.
        MemorySet_push area None s)) (kernel_areas k) s))"

text \<open>
  The ELF file as \<open>xmas_elf\<close> presents it: \<open>None\<close> where \<open>ElfFile::new\<close> fails, else the magic,
  the program headers (\<open>None\<close> for one that does not decode; whether the type is \<open>Load\<close>, address
  and sizes, flags, file offset) and the entry point.
\<close>

record ProgramHeader =
  ph_load :: bool
  ph_virtual_addr :: u64
  ph_mem_size :: u64
  ph_read :: bool
  ph_write :: bool
  ph_execute :: bool
  ph_offset :: u64
  ph_file_size :: u64

record ElfFile =
  elf_magic :: "u8 list"
  elf_phs :: "ProgramHeader option list"
  elf_entry :: u64

definition elf_perm :: "ProgramHeader \<Rightarrow> u8" where
  "elf_perm ph =
     (let p = MapPermission_U;
          p = (if ph_read ph then p OR MapPermission_R else p);
          p = (if ph_write ph then p OR MapPermission_W else p);
          p = (if ph_execute ph then p OR MapPermission_X else p)
      in p)"

definition elf_load_segment ::
  "u8 list \<Rightarrow> ProgramHeader \<Rightarrow> VirtPageNum \<times> MemorySet \<times> mm \<Rightarrow> (VirtPageNum \<times> MemorySet \<times> mm) result" where
  "elf_load_segment input ph = (\<lambda>(max_end_vpn, s).
     if ph_load ph then
       (let start_va = VirtAddr_from (ph_virtual_addr ph);
            end_va = VirtAddr_from (ph_virtual_addr ph + ph_mem_size ph)
        in rbind (MapArea_new start_va end_va Framed (elf_perm ph)) (\<lambda>map_area.
           rbind (slice_at input (unat (ph_offset ph)) (unat (ph_offset ph + ph_file_size ph))) (\<lambda>data.
           rbind (MemorySet_push map_area (Some data) s) (\<lambda>s'.
           Inr (max max_end_vpn (range_r (vpn_range map_area)), s')))))
     else Inr (max_end_vpn, s))"

definition MemorySet_from_elf ::
  "usize \<Rightarrow> (u8 list \<Rightarrow> ElfFile option) \<Rightarrow> u8 list \<Rightarrow> mm \<Rightarrow> ((MemorySet \<times> usize) \<times> mm) result" where
  "MemorySet_from_elf strampoline' parse elf_data st =
     rbind (MemorySet_new_bare st) (\<lambda>s.
     rbind (map_trampoline strampoline' s) (\<lambda>s.
     rbind (unwrap (parse elf_data)) (\<lambda>elf.
     rbind (rassert (elf_magic elf = [0x7f, 0x45, 0x4c, 0x46])) (\<lambda>_.
     rbind (rfold (\<lambda>ph s. rbind (unwrap ph) (\<lambda>ph. elf_load_segment elf_data ph s))
              (elf_phs elf) (VirtPageNum 0, s)) (\<lambda>(max_end_vpn, ms, st').
     let max_end_va = VirtAddr_from_VirtPageNum max_end_vpn;
         heap = align_up (usize_from_VirtAddr max_end_va) PAGE_SIZE
     in Inr ((ms\<lparr>heap_start := heap, brk := heap\<rparr>, elf_entry elf), st'))))))"

text \<open>
  \<open>from_existed_user\<close>: area by area, the new area is mapped and the pages are copied.
\<close>

definition copy_user_page ::
  "MemorySet \<Rightarrow> VirtPageNum \<Rightarrow> MemorySet \<times> mm \<Rightarrow> (MemorySet \<times> mm) result" where
  "copy_user_page user_space vpn = (\<lambda>(ms, st).
     rbind (unwrap (MemorySet_translate user_space vpn (mm_mem st))) (\<lambda>src.
     rbind (unwrap (MemorySet_translate ms vpn (mm_mem st))) (\<lambda>dst.
     rbind (PhysPageNum_copy_from_slice (mm_mem st) (PageTableEntry_ppn dst) 0
              (PhysPageNum_get_bytes_array (mm_mem st) (PageTableEntry_ppn src))) (\<lambda>m.
     Inr (ms, st\<lparr>mm_mem := m\<rparr>)))))"

definition copy_user_area :: "MemorySet \<Rightarrow> MapArea \<Rightarrow> MemorySet \<times> mm \<Rightarrow> (MemorySet \<times> mm) result" where
  "copy_user_area user_space area s =
     rbind (MapArea_from_another area) (\<lambda>new_area.
     rbind (MemorySet_push new_area None s) (\<lambda>s'.
     rfold (copy_user_page user_space) (vpns_of (vpn_range area)) s'))"

definition MemorySet_from_existed_user :: "usize \<Rightarrow> MemorySet \<Rightarrow> mm \<Rightarrow> (MemorySet \<times> mm) result" where
  "MemorySet_from_existed_user strampoline' user_space st =
     rbind (MemorySet_new_bare st) (\<lambda>s.
     rbind (map_trampoline strampoline' s) (\<lambda>s.
     rfold (copy_user_area user_space) (areas user_space) s))"

text \<open>\<open>areas.clear()\<close> drops the areas in order, and dropping the address space drops the
  page table's frames and then the areas.\<close>

definition recycle_data_pages :: "MemorySet \<times> mm \<Rightarrow> (MemorySet \<times> mm) result" where
  "recycle_data_pages = (\<lambda>(ms, st).
     rbind (rfold MapArea_drop (areas ms) st) (\<lambda>st'. Inr (ms\<lparr>areas := []\<rparr>, st')))"

definition MemorySet_drop :: "MemorySet \<Rightarrow> mm \<Rightarrow> mm result" where
  "MemorySet_drop ms st =
     rbind (rfold FrameTracker_drop (frames (page_table ms)) st) (\<lambda>st'.
     rfold MapArea_drop (areas ms) st')"

end
