(* ===== verification/Address_Space.thy ===== *)
theory Address_Space
  imports Memory_Set
begin

text \<open>
  The correctness of the address spaces of \<open>os/src/mm/memory_set.rs\<close>: what mapping, unmapping and
  copying a framed area does to the page table, the frame allocator and the contents of memory,
  the invariant every operation keeps, and the isolation of a forked address space.
\<close>

section \<open>Pages outside the page table\<close>

text \<open>The tree and the map depend on the pages of the page table only.\<close>

lemma node_same_tables:
  assumes tree: "pt_tree m r T" and same: "\<And>q. q \<in> T \<Longrightarrow> same_page m m' q" and path: "is_path is"
  shows "node m' r is = node m r is"
proof (rule node_cong)
  fix ks a ls q
  assume split: "is = ks @ a # ls" and q: "node m r ks = Some q"
  have "is_path ks" "unat a < 512" using path unfolding split is_path_def by auto
  then show "entry m' q a = entry m q a"
    using pt_treeD(1) [OF tree _ q] same entry_same_page by blast
qed

lemma pt_tree_same_tables:
  assumes "pt_tree m r T" and "\<And>q. q \<in> T \<Longrightarrow> same_page m m' q"
  shows "pt_tree m' r T"
  using assms(1) node_same_tables [OF assms] unfolding pt_tree_def by simp

lemma lookup_same_tables:
  assumes tree: "pt_tree m r T" and same: "\<And>q. q \<in> T \<Longrightarrow> same_page m m' q"
  shows "lookup m' r v = lookup m r v"
proof -
  obtain i j k where v: "indexes v = [i, j, k]" and path: "is_path [i, j]" and k: "unat k < 512"
    by (rule is_path_indexes)
  have n: "node m' r [i, j] = node m r [i, j]" using node_same_tables [OF tree same path] by simp
  show ?thesis
  proof (cases "node m r [i, j]")
    case (Some p)
    then have "entry m' p k = entry m p k"
      using pt_treeD(1) [OF tree path Some] same k by (simp add: entry_same_page)
    then show ?thesis using Some n by (simp add: lookup_def v)
  qed (simp add: lookup_def v n)
qed

lemma pt_inv_tables:
  assumes "pt_inv l pt st"
  shows "pt_tree (mm_mem st) (root_ppn pt) (tables (frames pt))" "fa_invar l (mm_alloc st)"
    "tables (frames pt) \<subseteq> fa_live l (mm_alloc st)" "distinct (map ft_ppn (frames pt))"
    "q \<in> tables (frames pt) \<Longrightarrow> ppn_ok q"
  using assms fa_live_ok [of l "mm_alloc st" q] by (auto simp: pt_inv_def tree_inv_def)

lemma pt_inv_same_tables:
  assumes "pt_inv l pt st" and "\<And>q. q \<in> tables (frames pt) \<Longrightarrow> same_page (mm_mem st) (mm_mem st') q"
    and "fa_invar l (mm_alloc st')" and "tables (frames pt) \<subseteq> fa_live l (mm_alloc st')"
  shows "pt_inv l pt st'" and "pt_lookup pt st' v = pt_lookup pt st v"
  using assms pt_tree_same_tables [OF pt_inv_tables(1) [OF assms(1)], of "mm_mem st'"]
    lookup_same_tables [OF pt_inv_tables(1) [OF assms(1)], of "mm_mem st'" v]
  by (auto simp: pt_inv_def tree_inv_def)

lemma pt_inv_fresh:
  assumes "pt_inv l pt st" and "fresh_frame l st f st'"
  shows "pt_inv l pt st'" and "pt_lookup pt st' v = pt_lookup pt st v" and "f \<notin> tables (frames pt)"
proof -
  have "f \<notin> fa_live l (mm_alloc st)" and live: "fa_live l (mm_alloc st') = insert f (fa_live l (mm_alloc st))"
    and inv: "fa_invar l (mm_alloc st')"
    using assms(2) by (simp_all add: fresh_frame_def)
  then show f: "f \<notin> tables (frames pt)" using pt_inv_tables(3) [OF assms(1)] by blast
  have "same_page (mm_mem st) (mm_mem st') q" if "q \<in> tables (frames pt)" for q
    using that f assms(2) pt_inv_tables(5) [OF assms(1)] unfolding fresh_frame_def by metis
  then show "pt_inv l pt st'" "pt_lookup pt st' v = pt_lookup pt st v"
    using pt_inv_same_tables(1) [OF assms(1), of st'] pt_inv_same_tables(2) [OF assms(1), of st' v]
      inv live pt_inv_tables(3) [OF assms(1)] by auto
qed

section \<open>Mapping pages to fresh frames\<close>

text \<open>
  \<open>maps l perm ps pt st pt' st'\<close>: the pages \<open>map fst ps\<close> were mapped, with permission \<open>perm\<close>, to
  the cleared frames \<open>map snd ps\<close>; these and the tables \<open>fs\<close> added were free before, and no other
  page of memory changed.
\<close>

definition takes_frames ::
  "usize \<Rightarrow> FrameTracker list \<Rightarrow> PhysPageNum list \<Rightarrow> SV39PageTable \<Rightarrow> mm \<Rightarrow> SV39PageTable \<Rightarrow> mm \<Rightarrow> bool" where
  "takes_frames l fs ps pt st pt' st' \<longleftrightarrow> frames pt' = frames pt @ fs \<and> length fs \<le> 2 * length ps
     \<and> fa_live l (mm_alloc st') = fa_live l (mm_alloc st) \<union> tables fs \<union> set ps
     \<and> distinct (map ft_ppn fs @ ps)
     \<and> (tables fs \<union> set ps) \<inter> fa_live l (mm_alloc st) = {}
     \<and> fa_free (mm_alloc st') + length fs + length ps = fa_free (mm_alloc st)"

definition maps ::
  "usize \<Rightarrow> u8 \<Rightarrow> (VirtPageNum \<times> PhysPageNum) list \<Rightarrow> SV39PageTable \<Rightarrow> mm \<Rightarrow> SV39PageTable \<Rightarrow> mm \<Rightarrow> bool" where
  "maps l perm ps pt st pt' st' \<longleftrightarrow> pt_inv l pt' st' \<and> root_ppn pt' = root_ppn pt
     \<and> (\<exists>fs. takes_frames l fs (map snd ps) pt st pt' st')
     \<and> (\<forall>w. unat (vpn0 w) < 2 ^ 27 \<longrightarrow> pt_lookup pt' st' w =
          (case map_of ps w of
             Some p \<Rightarrow> Some (PageTableEntry_new p (perm OR PTE_V))
           | None \<Rightarrow> pt_lookup pt st w))
     \<and> (\<forall>q. ppn_ok q \<longrightarrow> q \<notin> tables (frames pt') \<longrightarrow> q \<notin> snd ` set ps \<longrightarrow>
          same_page (mm_mem st) (mm_mem st') q)
     \<and> (\<forall>p \<in> snd ` set ps. PhysPageNum_get_bytes_array (mm_mem st') p = replicate 4096 0)"

lemma takes_framesD:
  assumes "takes_frames l fs ps pt st pt' st'"
  shows "frames pt' = frames pt @ fs" "length fs \<le> 2 * length ps"
    "fa_live l (mm_alloc st') = fa_live l (mm_alloc st) \<union> tables fs \<union> set ps"
    "distinct (map ft_ppn fs)" "distinct ps" "tables fs \<inter> set ps = {}"
    "tables fs \<inter> fa_live l (mm_alloc st) = {}" "set ps \<inter> fa_live l (mm_alloc st) = {}"
    "fa_free (mm_alloc st') + length fs + length ps = fa_free (mm_alloc st)"
  using assms unfolding takes_frames_def by auto

lemma takes_frames_append:
  assumes "takes_frames l fs ps pt st pt1 st1" "takes_frames l gs qs pt1 st1 pt2 st2"
  shows "takes_frames l (fs @ gs) (ps @ qs) pt st pt2 st2"
proof -
  note f = takes_framesD [OF assms(1)] and g = takes_framesD [OF assms(2)]
  have "distinct (map ft_ppn (fs @ gs) @ ps @ qs)"
  proof -
    have "tables gs \<inter> (tables fs \<union> set ps) = {}" "set qs \<inter> (tables fs \<union> set ps) = {}"
      using g(7,8) f(3) by blast+
    then show ?thesis using f(4-6) g(4-6) by auto
  qed
  moreover have "(tables (fs @ gs) \<union> set (ps @ qs)) \<inter> fa_live l (mm_alloc st) = {}"
  proof -
    have "tables gs \<inter> fa_live l (mm_alloc st) = {}" "set qs \<inter> fa_live l (mm_alloc st) = {}"
      using g(7,8) f(3) by blast+
    then show ?thesis using f(7,8) by auto
  qed
  moreover have "fa_live l (mm_alloc st2) = fa_live l (mm_alloc st) \<union> tables (fs @ gs) \<union> set (ps @ qs)"
    using f(3) g(3) by auto
  ultimately show ?thesis using f(1,2,9) g(1,2,9) unfolding takes_frames_def by simp
qed

lemma mapsD:
  assumes "maps l perm ps pt st pt' st'"
  shows "pt_inv l pt' st'" "root_ppn pt' = root_ppn pt" "\<exists>fs. takes_frames l fs (map snd ps) pt st pt' st'"
    "unat (vpn0 w) < 2 ^ 27 \<Longrightarrow> pt_lookup pt' st' w = (case map_of ps w of
       Some p \<Rightarrow> Some (PageTableEntry_new p (perm OR PTE_V)) | None \<Rightarrow> pt_lookup pt st w)"
    "ppn_ok q \<Longrightarrow> q \<notin> tables (frames pt') \<Longrightarrow> q \<notin> snd ` set ps \<Longrightarrow> same_page (mm_mem st) (mm_mem st') q"
    "p \<in> snd ` set ps \<Longrightarrow> PhysPageNum_get_bytes_array (mm_mem st') p = replicate 4096 0"
  using assms unfolding maps_def by blast+

lemma mapsI:
  assumes "pt_inv l pt' st'" "root_ppn pt' = root_ppn pt" "takes_frames l fs (map snd ps) pt st pt' st'"
    "\<And>w. unat (vpn0 w) < 2 ^ 27 \<Longrightarrow> pt_lookup pt' st' w = (case map_of ps w of
       Some p \<Rightarrow> Some (PageTableEntry_new p (perm OR PTE_V)) | None \<Rightarrow> pt_lookup pt st w)"
    "\<And>q. ppn_ok q \<Longrightarrow> q \<notin> tables (frames pt') \<Longrightarrow> q \<notin> snd ` set ps \<Longrightarrow>
       same_page (mm_mem st) (mm_mem st') q"
    "\<And>p. p \<in> snd ` set ps \<Longrightarrow> PhysPageNum_get_bytes_array (mm_mem st') p = replicate 4096 0"
  shows "maps l perm ps pt st pt' st'"
  unfolding maps_def using assms by (intro conjI exI [of _ fs] allI impI ballI) assumption+

lemma maps_Nil: "pt_inv l pt st \<Longrightarrow> maps l perm [] pt st pt st"
  by (rule mapsI [where fs = "[]"]) (simp_all add: takes_frames_def)

lemma maps_frames_disjoint:
  assumes "maps l perm ps pt st pt' st'" and "pt_inv l pt st" and "p \<in> snd ` set ps"
  shows "p \<notin> tables (frames pt')" and "p \<in> fa_live l (mm_alloc st')" and "p \<notin> fa_live l (mm_alloc st)"
    and "ppn_ok p"
proof -
  obtain fs where fs: "takes_frames l fs (map snd ps) pt st pt' st'" using mapsD(3) [OF assms(1)] by blast
  have p: "p \<in> set (map snd ps)" using assms(3) by simp
  show np: "p \<notin> fa_live l (mm_alloc st)" using takes_framesD(8) [OF fs] p by blast
  have "p \<notin> tables fs" using takes_framesD(6) [OF fs] p by blast
  then show "p \<notin> tables (frames pt')"
    using np pt_inv_tables(3) [OF assms(2)] unfolding takes_framesD(1) [OF fs] by auto
  show live: "p \<in> fa_live l (mm_alloc st')" using takes_framesD(3) [OF fs] p by blast
  show "ppn_ok p" using pt_inv_tables(2) [OF mapsD(1) [OF assms(1)]] live by (rule fa_live_ok)
qed

lemma maps_live:
  assumes "maps l perm ps pt st pt' st'"
  shows "fa_live l (mm_alloc st) \<subseteq> fa_live l (mm_alloc st')" "tables (frames pt) \<subseteq> tables (frames pt')"
    "tables (frames pt') \<inter> fa_live l (mm_alloc st) \<subseteq> tables (frames pt)"
proof -
  obtain fs where fs: "takes_frames l fs (map snd ps) pt st pt' st'" using mapsD(3) [OF assms(1)] by blast
  show "fa_live l (mm_alloc st) \<subseteq> fa_live l (mm_alloc st')" using takes_framesD(3) [OF fs] by blast
  show "tables (frames pt) \<subseteq> tables (frames pt')" using takes_framesD(1) [OF fs] by auto
  show "tables (frames pt') \<inter> fa_live l (mm_alloc st) \<subseteq> tables (frames pt)"
    using takes_framesD(1,7) [OF fs] by auto
qed

text \<open>A page in use that is not a table keeps its contents.\<close>

lemma maps_same_page:
  assumes "maps l perm ps pt st pt' st'" "pt_inv l pt st"
    and "q \<in> fa_live l (mm_alloc st)" "q \<notin> tables (frames pt)"
  shows "same_page (mm_mem st) (mm_mem st') q"
proof (rule mapsD(5) [OF assms(1)])
  show "ppn_ok q" using fa_live_ok [OF pt_inv_tables(2) [OF assms(2)] assms(3)] .
  show "q \<notin> tables (frames pt')" using maps_live(3) [OF assms(1)] assms(3,4) by blast
  show "q \<notin> snd ` set ps" using maps_frames_disjoint(3) [OF assms(1,2)] assms(3) by blast
qed

lemma maps_append:
  assumes inv: "pt_inv l pt st" and m1: "maps l perm ps pt st pt1 st1" and m2: "maps l perm qs pt1 st1 pt2 st2"
    and keys: "fst ` set ps \<inter> fst ` set qs = {}"
  shows "maps l perm (ps @ qs) pt st pt2 st2"
proof -
  obtain fs where fs: "takes_frames l fs (map snd ps) pt st pt1 st1" using mapsD(3) [OF m1] by blast
  obtain gs where gs: "takes_frames l gs (map snd qs) pt1 st1 pt2 st2" using mapsD(3) [OF m2] by blast
  show ?thesis
  proof (rule mapsI [where fs = "fs @ gs"])
    show "pt_inv l pt2 st2" using mapsD(1) [OF m2] .
    show "root_ppn pt2 = root_ppn pt" using mapsD(2) [OF m1] mapsD(2) [OF m2] by simp
    show "takes_frames l (fs @ gs) (map snd (ps @ qs)) pt st pt2 st2"
      using takes_frames_append [OF fs gs] by simp
  next
    fix w :: VirtPageNum
    assume w: "unat (vpn0 w) < 2 ^ 27"
    have "map_of ps w = None \<or> map_of qs w = None"
      using keys by (auto simp: map_of_eq_None_iff)
    then show "pt_lookup pt2 st2 w = (case map_of (ps @ qs) w of
        Some p \<Rightarrow> Some (PageTableEntry_new p (perm OR PTE_V)) | None \<Rightarrow> pt_lookup pt st w)"
      using mapsD(4) [OF m1 w] mapsD(4) [OF m2 w] by (auto simp: map_add_def split: option.splits)
  next
    fix q
    assume q: "ppn_ok q" "q \<notin> tables (frames pt2)" "q \<notin> snd ` set (ps @ qs)"
    have "q \<notin> tables (frames pt1)" "q \<notin> snd ` set ps" "q \<notin> snd ` set qs"
      using q maps_live(2) [OF m2] by auto
    then show "same_page (mm_mem st) (mm_mem st2) q"
      using mapsD(5) [OF m1 q(1)] mapsD(5) [OF m2 q(1,2)] same_page_trans by blast
  next
    fix p
    assume p: "p \<in> snd ` set (ps @ qs)"
    show "PhysPageNum_get_bytes_array (mm_mem st2) p = replicate 4096 0"
    proof (cases "p \<in> snd ` set qs")
      case True
      then show ?thesis using mapsD(6) [OF m2] by blast
    next
      case False
      then have "p \<in> snd ` set ps" using p by auto
      note d = maps_frames_disjoint [OF m1 inv this] and z = mapsD(6) [OF m1 this]
      have "same_page (mm_mem st1) (mm_mem st2) p" using maps_same_page [OF m2 mapsD(1) [OF m1] d(2,1)] .
      then show ?thesis using z by (simp add: same_page_def)
    qed
  qed
qed

lemma btree_insert_last:
  "(\<And>k'. k' \<in> fst ` set xs \<Longrightarrow> k' < k) \<Longrightarrow> btree_insert k v xs = xs @ [(k, v)]"
proof (induction xs)
  case (Cons x xs)
  have "fst x < k" using Cons.prems by simp
  then show ?case using Cons by (cases x) (auto dest: less_not_sym)
qed simp

lemma maps_single:
  assumes inv: "pt_inv l pt st" and fresh: "fresh_frame l st f st1"
    and free: "fa_free (mm_alloc st1) + 1 = fa_free (mm_alloc st)"
    and eff: "pt_effect l pt st1 pt' st'"
    and look: "\<And>w. pt_lookup pt' st' w = (if indexes w = indexes v
      then Some (PageTableEntry_new f (perm OR PTE_V)) else pt_lookup pt st1 w)"
    and v: "unat (vpn0 v) < 2 ^ 27"
  shows "maps l perm [(v, f)] pt st pt' st'"
proof -
  note i1 = pt_inv_fresh [OF inv fresh]
  obtain fs where fs: "frames pt' = frames pt @ fs" "length fs \<le> 2"
    "fa_live l (mm_alloc st') = fa_live l (mm_alloc st1) \<union> tables fs"
    "tables fs \<inter> fa_live l (mm_alloc st1) = {}"
    "fa_free (mm_alloc st') + length fs = fa_free (mm_alloc st1)"
    using eff unfolding pt_effect_def by blast
  have inv': "pt_inv l pt' st'" and root: "root_ppn pt' = root_ppn pt"
    and same: "\<And>q. ppn_ok q \<Longrightarrow> q \<notin> tables (frames pt') \<Longrightarrow> same_page (mm_mem st1) (mm_mem st') q"
    using eff unfolding pt_effect_def by blast+
  have live1: "fa_live l (mm_alloc st1) = insert f (fa_live l (mm_alloc st))"
    and nf: "f \<notin> fa_live l (mm_alloc st)" and okf: "ppn_ok f"
    and zero: "PhysPageNum_get_bytes_array (mm_mem st1) f = replicate 4096 0"
    and same1: "\<And>q. ppn_ok q \<Longrightarrow> q \<noteq> f \<Longrightarrow> same_page (mm_mem st) (mm_mem st1) q"
    using fresh unfolding fresh_frame_def by blast+
  have f: "f \<notin> tables (frames pt')" using i1(3) fs(1,4) live1 by auto
  show ?thesis
  proof (rule mapsI [where fs = fs])
    show "takes_frames l fs (map snd [(v, f)]) pt st pt' st'"
      using fs live1 nf free pt_inv_tables(4) [OF inv'] by (auto simp: takes_frames_def)
  next
    fix w :: VirtPageNum
    assume "unat (vpn0 w) < 2 ^ 27"
    then show "pt_lookup pt' st' w = (case map_of [(v, f)] w of
        Some p \<Rightarrow> Some (PageTableEntry_new p (perm OR PTE_V)) | None \<Rightarrow> pt_lookup pt st w)"
      using look [of w] i1(2) [of w] indexes_inj [OF _ v, of w] by (auto simp: root)
  next
    fix q
    assume "ppn_ok q" "q \<notin> tables (frames pt')" "q \<notin> snd ` set [(v, f)]"
    then show "same_page (mm_mem st) (mm_mem st') q" using same1 same same_page_trans by fastforce
  next
    fix p
    assume "p \<in> snd ` set [(v, f)]"
    then show "PhysPageNum_get_bytes_array (mm_mem st') p = replicate 4096 0"
      using same [OF okf f] zero by (simp add: same_page_def)
  qed (use inv' root in auto)
qed

text \<open>One page of a framed area.\<close>

lemma map_one_framed:
  assumes inv: "pt_inv l pt st" and mt: "map_type area = Framed" and perm: "map_perm area AND NOT MapPermission_all = 0"
    and free: "fa_free (mm_alloc st) \<ge> 3" and none: "pt_lookup pt st v = None"
    and v: "unat (vpn0 v) < 2 ^ 27" and keys: "\<And>k. k \<in> fst ` set (data_frames area) \<Longrightarrow> k < v"
  shows "\<exists>f pt' st'. map_one v (area, pt, st) =
      Inr (area\<lparr>data_frames := data_frames area @ [(v, FrameTracker f)]\<rparr>, pt', st')
    \<and> maps l (map_perm area) [(v, f)] pt st pt' st'"
proof -
  note fa = pt_inv_tables(2) [OF inv]
  have "fa_room (mm_alloc st)" using free fa_room_free [OF fa] by simp
  then obtain ft st1 where al: "frame_alloc st = Some (ft, st1)"
    using frame_alloc_None by (cases "frame_alloc st") auto
  let ?f = "ft_ppn ft"
  have fresh: "fresh_frame l st ?f st1" using frame_alloc_spec [OF fa al] .
  note i1 = pt_inv_fresh [OF inv fresh]
  have free1: "fa_free (mm_alloc st1) + 1 = fa_free (mm_alloc st)" using frame_alloc_free [OF fa al] .
  have nokey: "map_of (data_frames area) v = None" using keys [of v] by (auto simp: map_of_eq_None_iff)
  have ins: "btree_insert v ft (data_frames area) = data_frames area @ [(v, ft)]" using keys by (rule btree_insert_last)
  note sp = SV39_map_spec [OF i1(1), of v ?f "map_perm area"]
  obtain pt' st' where m: "SV39_map pt v ?f (map_perm area) st1 = Inr (pt', st')"
    using sp free free1 none i1(2) by (cases "SV39_map pt v ?f (map_perm area) st1") auto
  have "map_one v (area, pt, st) = Inr (area\<lparr>data_frames := data_frames area @ [(v, FrameTracker ?f)]\<rparr>, pt', st')"
    by (simp add: map_one_def mt al nokey ins m perm drop_frame_option_def bitflags_from_bits_def unwrap_def)
  moreover have "maps l (map_perm area) [(v, ?f)] pt st pt' st'"
    using maps_single [OF inv fresh free1 _ _ v] sp by (simp add: m)
  ultimately show ?thesis by blast
qed

lemma map_pages_framed:
  assumes "pt_inv l pt st" and "map_type area = Framed" and "map_perm area AND NOT MapPermission_all = 0"
    and "3 * length vs \<le> fa_free (mm_alloc st)" and "\<And>v. v \<in> set vs \<Longrightarrow> pt_lookup pt st v = None"
    and "\<And>v. v \<in> set vs \<Longrightarrow> unat (vpn0 v) < 2 ^ 27" and "sorted_wrt (<) vs"
    and "\<And>k v. k \<in> fst ` set (data_frames area) \<Longrightarrow> v \<in> set vs \<Longrightarrow> k < v"
  shows "\<exists>fs pt' st'. length fs = length vs \<and> rfold map_one vs (area, pt, st) =
      Inr (area\<lparr>data_frames := data_frames area @ zip vs (map FrameTracker fs)\<rparr>, pt', st')
    \<and> maps l (map_perm area) (zip vs fs) pt st pt' st'"
  using assms
proof (induction vs arbitrary: area pt st)
  case Nil
  then show ?case using maps_Nil by auto
next
  case (Cons v vs)
  have "3 \<le> fa_free (mm_alloc st)" "pt_lookup pt st v = None" "unat (vpn0 v) < 2 ^ 27"
    "\<And>k. k \<in> fst ` set (data_frames area) \<Longrightarrow> k < v"
    using Cons.prems(4-8) by auto
  then obtain f pt1 st1 where
    one: "map_one v (area, pt, st) =
        Inr (area\<lparr>data_frames := data_frames area @ [(v, FrameTracker f)]\<rparr>, pt1, st1)"
    and m: "maps l (map_perm area) [(v, f)] pt st pt1 st1"
    using map_one_framed [OF Cons.prems(1-3)] by metis
  let ?area = "area\<lparr>data_frames := data_frames area @ [(v, FrameTracker f)]\<rparr>"
  obtain gs where gs: "takes_frames l gs (map snd [(v, f)]) pt st pt1 st1" using mapsD(3) [OF m] by blast
  have "3 * length vs \<le> fa_free (mm_alloc st1)"
    using takes_framesD(2,9) [OF gs] Cons.prems(4) by simp
  moreover have "pt_lookup pt1 st1 w = None" if "w \<in> set vs" for w
    using mapsD(4) [OF m, of w] that Cons.prems(5-7) by auto
  moreover have "k < w" if "k \<in> fst ` set (data_frames ?area)" "w \<in> set vs" for k w
    using that Cons.prems(7,8) by auto
  ultimately obtain fs pt2 st2 where fs: "length fs = length vs"
    and rest: "rfold map_one vs (?area, pt1, st1) =
        Inr (?area\<lparr>data_frames := data_frames ?area @ zip vs (map FrameTracker fs)\<rparr>, pt2, st2)"
    and ms: "maps l (map_perm ?area) (zip vs fs) pt1 st1 pt2 st2"
    using Cons.IH [OF mapsD(1) [OF m], of ?area] Cons.prems(2,3,6,7) by auto
  have "fst ` set [(v, f)] \<inter> fst ` set (zip vs fs) = {}"
    using Cons.prems(7) by (auto dest: set_zip_leftD)
  then have "maps l (map_perm area) ([(v, f)] @ zip vs fs) pt st pt2 st2"
    using maps_append [OF Cons.prems(1) m] ms by simp
  then show ?case
    using fs rest one by (intro exI [of _ "f # fs"] exI [of _ pt2] exI [of _ st2]) simp
qed

section \<open>The invariant of a user address space\<close>

text \<open>
  Every area is framed, owns exactly one frame per page of its range and has these pages mapped to
  these frames with its permission; the frames of all areas are distinct, in use, and no part of
  the page table.
\<close>

definition area_ok :: "SV39PageTable \<Rightarrow> mm \<Rightarrow> MapArea \<Rightarrow> bool" where
  "area_ok pt st a \<longleftrightarrow> map_type a = Framed \<and> map_perm a AND NOT MapPermission_all = 0
     \<and> range_l (vpn_range a) \<le> range_r (vpn_range a) \<and> unat (vpn0 (range_r (vpn_range a))) \<le> 2 ^ 27
     \<and> map fst (data_frames a) = vpns_of (vpn_range a)
     \<and> (\<forall>(v, f) \<in> set (data_frames a).
          pt_lookup pt st v = Some (PageTableEntry_new (ft_ppn f) (map_perm a OR PTE_V)))"

definition area_frames :: "MapArea \<Rightarrow> PhysPageNum list" where
  "area_frames a = map (ft_ppn \<circ> snd) (data_frames a)"

definition owned_frames :: "MemorySet \<Rightarrow> PhysPageNum list" where
  "owned_frames ms = concat (map area_frames (areas ms))"

definition ms_inv :: "usize \<Rightarrow> MemorySet \<Rightarrow> mm \<Rightarrow> bool" where
  "ms_inv l ms st \<longleftrightarrow> pt_inv l (page_table ms) st \<and> list_all (area_ok (page_table ms) st) (areas ms)
     \<and> distinct (owned_frames ms) \<and> set (owned_frames ms) \<subseteq> fa_live l (mm_alloc st)
     \<and> set (owned_frames ms) \<inter> tables (frames (page_table ms)) = {}"

abbreviation area_pages :: "MapArea \<Rightarrow> VirtPageNum set" where
  "area_pages a \<equiv> set (vpns_of (vpn_range a))"

lemma vpns_of_bound:
  assumes "range_l r \<le> range_r r" "unat (vpn0 (range_r r)) \<le> 2 ^ 27" "v \<in> set (vpns_of r)"
  shows "unat (vpn0 v) < 2 ^ 27"
  using assms by (auto simp: vpns_of_set newtype_order word_less_nat_alt)

lemma area_okD:
  assumes "area_ok pt st a"
  shows "map_type a = Framed" "map_perm a AND NOT MapPermission_all = 0"
    "range_l (vpn_range a) \<le> range_r (vpn_range a)" "unat (vpn0 (range_r (vpn_range a))) \<le> 2 ^ 27"
    "map fst (data_frames a) = vpns_of (vpn_range a)"
    "(v, f) \<in> set (data_frames a) \<Longrightarrow>
       pt_lookup pt st v = Some (PageTableEntry_new (ft_ppn f) (map_perm a OR PTE_V))"
  using assms by (auto simp: area_ok_def)

lemma area_ok_cong:
  assumes "area_ok pt st a" and "\<And>v. v \<in> area_pages a \<Longrightarrow> pt_lookup pt' st' v = pt_lookup pt st v"
  shows "area_ok pt' st' a"
proof -
  have "pt_lookup pt' st' v = pt_lookup pt st v" if "(v, f) \<in> set (data_frames a)" for v f
    using that assms area_okD(5) [OF assms(1)] by (metis fst_conv image_eqI set_map)
  then show ?thesis using assms(1) by (auto simp: area_ok_def)
qed

lemma sorted_vpns_of: "range_l r \<le> range_r r \<Longrightarrow> sorted_wrt (<) (vpns_of r)"
proof -
  assume r: "range_l r \<le> range_r r"
  have "sorted_wrt (\<lambda>v w. (unat \<circ> vpn0) v < (unat \<circ> vpn0) w) (vpns_of r)"
    using vpns_of_map [OF r] by (metis sorted_wrt_map sorted_wrt_upt)
  then show ?thesis
    by (rule sorted_wrt_mono_rel [rotated]) (simp add: newtype_order word_less_nat_alt)
qed

text \<open>\<open>push\<close> without data: the area gets a fresh, cleared frame for each of its pages.\<close>

lemma push_framed:
  assumes "pt_inv l (page_table ms) st" and "map_type a = Framed" "map_perm a AND NOT MapPermission_all = 0"
    and "range_l (vpn_range a) \<le> range_r (vpn_range a)" "unat (vpn0 (range_r (vpn_range a))) \<le> 2 ^ 27"
    and "data_frames a = []" and "\<And>v. v \<in> area_pages a \<Longrightarrow> pt_lookup (page_table ms) st v = None"
    and "3 * length (vpns_of (vpn_range a)) \<le> fa_free (mm_alloc st)"
  shows "\<exists>fs pt' st'. length fs = length (vpns_of (vpn_range a))
    \<and> MemorySet_push a None (ms, st) = Inr (ms\<lparr>page_table := pt',
        areas := areas ms @ [a\<lparr>data_frames := zip (vpns_of (vpn_range a)) (map FrameTracker fs)\<rparr>]\<rparr>, st')
    \<and> maps l (map_perm a) (zip (vpns_of (vpn_range a)) fs) (page_table ms) st pt' st'"
proof -
  let ?vs = "vpns_of (vpn_range a)"
  have b: "unat (vpn0 v) < 2 ^ 27" if "v \<in> set ?vs" for v using vpns_of_bound assms(4,5) that by blast
  obtain fs pt' st' where len: "length fs = length ?vs"
    and run: "rfold map_one ?vs (a, page_table ms, st) =
        Inr (a\<lparr>data_frames := data_frames a @ zip ?vs (map FrameTracker fs)\<rparr>, pt', st')"
    and m: "maps l (map_perm a) (zip ?vs fs) (page_table ms) st pt' st'"
    using map_pages_framed [OF assms(1-3,8,7) b sorted_vpns_of [OF assms(4)]] assms(6) by auto
  show ?thesis
    by (intro exI [of _ fs] exI [of _ pt'] exI [of _ st'])
      (simp add: MemorySet_push_def MapArea_map_def run assms(6) len m)
qed

lemma map_snd_zip_tracker: "length fs = length vs \<Longrightarrow> map (ft_ppn \<circ> snd) (zip vs (map FrameTracker fs)) = fs"
  by (simp add: zip_map2 flip: map_map) (simp add: o_def case_prod_unfold map_snd_zip)

lemma set_zip_tracker:
  "length fs = length vs \<Longrightarrow> (v, f) \<in> set (zip vs (map FrameTracker fs)) \<longleftrightarrow> (v, ft_ppn f) \<in> set (zip vs fs)"
  by (cases f) (auto simp: zip_map2)

lemma ms_inv_push:
  assumes inv: "ms_inv l ms st" and m: "maps l (map_perm a) (zip vs fs) (page_table ms) st pt' st'"
    and vs: "vs = vpns_of (vpn_range a)" and len: "length fs = length vs"
    and a: "map_type a = Framed" "map_perm a AND NOT MapPermission_all = 0"
      "range_l (vpn_range a) \<le> range_r (vpn_range a)" "unat (vpn0 (range_r (vpn_range a))) \<le> 2 ^ 27"
    and new: "\<And>v. v \<in> area_pages a \<Longrightarrow> pt_lookup (page_table ms) st v = None"
  shows "ms_inv l (ms\<lparr>page_table := pt', areas := areas ms @ [a\<lparr>data_frames := zip vs (map FrameTracker fs)\<rparr>]\<rparr>) st'"
proof -
  let ?pt = "page_table ms" and ?a = "a\<lparr>data_frames := zip vs (map FrameTracker fs)\<rparr>"
  have pinv: "pt_inv l ?pt st" and ok: "\<And>b. b \<in> set (areas ms) \<Longrightarrow> area_ok ?pt st b"
    and dist: "distinct (owned_frames ms)" and live: "set (owned_frames ms) \<subseteq> fa_live l (mm_alloc st)"
    and nt: "set (owned_frames ms) \<inter> tables (frames ?pt) = {}"
    using inv by (auto simp: ms_inv_def list_all_iff)
  have fs: "set fs = snd ` set (zip vs fs)" using len by (metis map_snd_zip set_map)
  obtain gs where gs: "takes_frames l gs (map snd (zip vs fs)) ?pt st pt' st'" using mapsD(3) [OF m] by blast
  have dfs: "distinct fs" using takes_framesD(5) [OF gs] len by simp
  have look: "pt_lookup pt' st' v = (case map_of (zip vs fs) v of
      Some p \<Rightarrow> Some (PageTableEntry_new p (map_perm a OR PTE_V)) | None \<Rightarrow> pt_lookup ?pt st v)"
    if "unat (vpn0 v) < 2 ^ 27" for v using mapsD(4) [OF m that] .
  have "area_ok pt' st' b" if b: "b \<in> set (areas ms)" for b
  proof (rule area_ok_cong [OF ok [OF b]])
    fix v
    assume v: "v \<in> area_pages b"
    obtain f where "(v, f) \<in> set (data_frames b)"
      using v area_okD(5) [OF ok [OF b]] by (metis imageE list.set_map prod.collapse)
    then have "v \<notin> area_pages a" using area_okD(6) [OF ok [OF b]] new by force
    then have "map_of (zip vs fs) v = None" using vs by (auto simp: map_of_eq_None_iff dest: set_zip_leftD)
    then show "pt_lookup pt' st' v = pt_lookup ?pt st v"
      using look [OF vpns_of_bound [OF area_okD(3,4) [OF ok [OF b]] v]] by simp
  qed
  moreover have "area_ok pt' st' ?a"
  proof -
    have "pt_lookup pt' st' v = Some (PageTableEntry_new (ft_ppn f) (map_perm a OR PTE_V))"
      if "(v, f) \<in> set (zip vs (map FrameTracker fs))" for v f
    proof -
      have z: "(v, ft_ppn f) \<in> set (zip vs fs)" using that set_zip_tracker [OF len] by simp
      have "distinct (map fst (zip vs fs))" using vpns_of_distinct [OF a(3)] vs len by simp
      then have "map_of (zip vs fs) v = Some (ft_ppn f)" using z by simp
      moreover have "v \<in> area_pages a" using set_zip_leftD [OF z] vs by simp
      ultimately show ?thesis using look [OF vpns_of_bound [OF a(3,4)]] by simp
    qed
    then show ?thesis using a vs len by (auto simp: area_ok_def)
  qed
  moreover have "owned_frames (ms\<lparr>page_table := pt', areas := areas ms @ [?a]\<rparr>) = owned_frames ms @ fs"
    using len by (simp add: owned_frames_def area_frames_def map_snd_zip_tracker)
  moreover have "distinct (owned_frames ms @ fs)"
    using dist dfs live maps_frames_disjoint(3) [OF m pinv] fs by auto
  moreover have "set (owned_frames ms @ fs) \<subseteq> fa_live l (mm_alloc st')"
    using live maps_live(1) [OF m] maps_frames_disjoint(2) [OF m pinv] fs by auto
  moreover have "set (owned_frames ms @ fs) \<inter> tables (frames pt') = {}"
  proof -
    have "set fs \<inter> tables (frames pt') = {}"
      using maps_frames_disjoint(1) [OF m pinv] unfolding fs by blast
    moreover have "set (owned_frames ms) \<inter> tables (frames pt') = {}"
      using maps_live(3) [OF m] live nt by blast
    ultimately show ?thesis by (simp only: set_append) blast
  qed
  ultimately show ?thesis
    using mapsD(1) [OF m] by (simp add: ms_inv_def del: set_append distinct_append) (simp add: list_all_iff)
qed

lemma ms_invD:
  assumes "ms_inv l ms st"
  shows "pt_inv l (page_table ms) st" "a \<in> set (areas ms) \<Longrightarrow> area_ok (page_table ms) st a"
    "distinct (owned_frames ms)" "set (owned_frames ms) \<subseteq> fa_live l (mm_alloc st)"
    "set (owned_frames ms) \<inter> tables (frames (page_table ms)) = {}"
    "p \<in> set (owned_frames ms) \<Longrightarrow> ppn_ok p"
  using assms fa_live_ok [OF pt_inv_tables(2), of l "page_table ms" st p] unfolding ms_inv_def list_all_iff
  by blast+

lemma push_framed_inv:
  assumes inv: "ms_inv l ms st" and a: "map_type a = Framed" "map_perm a AND NOT MapPermission_all = 0"
      "range_l (vpn_range a) \<le> range_r (vpn_range a)" "unat (vpn0 (range_r (vpn_range a))) \<le> 2 ^ 27"
    and df: "data_frames a = []" and none: "\<And>v. v \<in> area_pages a \<Longrightarrow> pt_lookup (page_table ms) st v = None"
    and free: "3 * length (vpns_of (vpn_range a)) \<le> fa_free (mm_alloc st)"
  shows "\<exists>ms1 st1 a1 ps. MemorySet_push a None (ms, st) = Inr (ms1, st1)
    \<and> areas ms1 = areas ms @ [a1] \<and> vpn_range a1 = vpn_range a \<and> map_perm a1 = map_perm a
    \<and> brk ms1 = brk ms \<and> heap_start ms1 = heap_start ms \<and> map fst ps = vpns_of (vpn_range a)
    \<and> map snd ps = area_frames a1 \<and> maps l (map_perm a) ps (page_table ms) st (page_table ms1) st1
    \<and> ms_inv l ms1 st1"
proof -
  let ?vs = "vpns_of (vpn_range a)"
  obtain fs pt' st' where fs: "length fs = length ?vs"
    and p: "MemorySet_push a None (ms, st) = Inr (ms\<lparr>page_table := pt',
        areas := areas ms @ [a\<lparr>data_frames := zip ?vs (map FrameTracker fs)\<rparr>]\<rparr>, st')"
    and m: "maps l (map_perm a) (zip ?vs fs) (page_table ms) st pt' st'"
    using push_framed [OF ms_invD(1) [OF inv] a df none free] by blast
  let ?ms = "ms\<lparr>page_table := pt', areas := areas ms @ [a\<lparr>data_frames := zip ?vs (map FrameTracker fs)\<rparr>]\<rparr>"
  have "ms_inv l ?ms st'" using ms_inv_push [OF inv m refl fs a none] .
  moreover have "area_frames (a\<lparr>data_frames := zip ?vs (map FrameTracker fs)\<rparr>) = fs"
    using fs by (simp add: area_frames_def map_snd_zip_tracker)
  ultimately show ?thesis
    using p m fs by (intro exI [of _ ?ms] exI [of _ st'] exI [of _ "zip ?vs fs"]
        exI [of _ "a\<lparr>data_frames := zip ?vs (map FrameTracker fs)\<rparr>"]) simp
qed

section \<open>Unmapping\<close>

text \<open>
  \<open>unmaps l ps pt st st'\<close>: the pages \<open>map fst ps\<close> are no longer mapped, their frames
  \<open>map snd ps\<close> are free again, and no page outside the page table changed.
\<close>

definition unmaps ::
  "usize \<Rightarrow> (VirtPageNum \<times> PhysPageNum) list \<Rightarrow> SV39PageTable \<Rightarrow> mm \<Rightarrow> mm \<Rightarrow> bool" where
  "unmaps l ps pt st st' \<longleftrightarrow> pt_inv l pt st'
     \<and> fa_live l (mm_alloc st') = fa_live l (mm_alloc st) - snd ` set ps
     \<and> fa_free (mm_alloc st') = fa_free (mm_alloc st) + length ps
     \<and> (\<forall>w. unat (vpn0 w) < 2 ^ 27 \<longrightarrow>
          pt_lookup pt st' w = (if w \<in> fst ` set ps then None else pt_lookup pt st w))
     \<and> (\<forall>q. ppn_ok q \<longrightarrow> q \<notin> tables (frames pt) \<longrightarrow> same_page (mm_mem st) (mm_mem st') q)"

lemma unmapsD:
  assumes "unmaps l ps pt st st'"
  shows "pt_inv l pt st'" "fa_live l (mm_alloc st') = fa_live l (mm_alloc st) - snd ` set ps"
    "fa_free (mm_alloc st') = fa_free (mm_alloc st) + length ps"
    "unat (vpn0 w) < 2 ^ 27 \<Longrightarrow>
       pt_lookup pt st' w = (if w \<in> fst ` set ps then None else pt_lookup pt st w)"
    "ppn_ok q \<Longrightarrow> q \<notin> tables (frames pt) \<Longrightarrow> same_page (mm_mem st) (mm_mem st') q"
  using assms unfolding unmaps_def by blast+

lemma unmaps_Nil: "pt_inv l pt st \<Longrightarrow> unmaps l [] pt st st"
  by (simp add: unmaps_def)

lemma unmaps_append:
  assumes "unmaps l ps pt st st1" "unmaps l qs pt st1 st2"
  shows "unmaps l (ps @ qs) pt st st2"
  unfolding unmaps_def
proof (intro conjI allI impI)
  show "fa_live l (mm_alloc st2) = fa_live l (mm_alloc st) - snd ` set (ps @ qs)"
    using unmapsD(2) [OF assms(1)] unmapsD(2) [OF assms(2)] by auto
  show "pt_lookup pt st2 w = (if w \<in> fst ` set (ps @ qs) then None else pt_lookup pt st w)"
    if "unat (vpn0 w) < 2 ^ 27" for w
    using unmapsD(4) [OF assms(1) that] unmapsD(4) [OF assms(2) that] by auto
  show "same_page (mm_mem st) (mm_mem st2) q" if "ppn_ok q" "q \<notin> tables (frames pt)" for q
    using unmapsD(5) [OF assms(1) that] unmapsD(5) [OF assms(2) that] by (rule same_page_trans)
qed (use unmapsD(1) [OF assms(2)] unmapsD(3) [OF assms(1)] unmapsD(3) [OF assms(2)] in auto)

lemma drop_frame_spec:
  assumes "fa_invar l (mm_alloc st)" "p \<in> fa_live l (mm_alloc st)"
  shows "\<exists>a. FrameTracker_drop (FrameTracker p) st = Inr (st\<lparr>mm_alloc := a\<rparr>)
    \<and> fa_invar l a \<and> fa_live l a = fa_live l (mm_alloc st) - {p} \<and> fa_free a = fa_free (mm_alloc st) + 1"
proof -
  obtain a where a: "StackFrameAllocator_dealloc (mm_alloc st) p = Inr a" "fa_invar l a"
    "fa_live l a = fa_live l (mm_alloc st) - {p}"
    using fa.dealloc_live [OF assms] by blast
  have "fa_free a = fa_free (mm_alloc st) + 1"
    using a(1) by (auto simp: StackFrameAllocator_dealloc_def fa_free_def split: if_splits)
  then show ?thesis using a by (intro exI [of _ a]) (simp add: FrameTracker_drop_def frame_dealloc_def)
qed

lemma unmap_one_framed:
  assumes inv: "pt_inv l pt st" and mt: "map_type area = Framed"
    and key: "map_of (data_frames area) v = Some (FrameTracker p)"
    and p: "p \<in> fa_live l (mm_alloc st)" "p \<notin> tables (frames pt)"
    and look: "pt_lookup pt st v \<noteq> None" and v: "unat (vpn0 v) < 2 ^ 27"
  shows "\<exists>st'. unmap_one v (area, pt, st) =
      Inr (area\<lparr>data_frames := btree_remove v (data_frames area)\<rparr>, pt, st') \<and> unmaps l [(v, p)] pt st st'"
proof -
  obtain a where drop: "FrameTracker_drop (FrameTracker p) st = Inr (st\<lparr>mm_alloc := a\<rparr>)"
    and a: "fa_invar l a" "fa_live l a = fa_live l (mm_alloc st) - {p}" "fa_free a = fa_free (mm_alloc st) + 1"
    using drop_frame_spec [OF pt_inv_tables(2) [OF inv] p(1)] by blast
  let ?st = "st\<lparr>mm_alloc := a\<rparr>"
  have inv1: "pt_inv l pt ?st"
    by (rule pt_inv_same_tables(1) [OF inv]) (use a p(2) pt_inv_tables(3) [OF inv] in auto)
  note sp = SV39_unmap_spec [OF inv1, of v]
  obtain st' where u: "SV39_unmap pt v ?st = Inr st'"
    using sp look by (cases "SV39_unmap pt v ?st") auto
  have st': "pt_effect l pt ?st pt st'" "mm_alloc st' = a"
    "\<And>w. pt_lookup pt st' w = (if indexes w = indexes v then None else pt_lookup pt st w)"
    using sp by (simp_all add: u)
  have "unmaps l [(v, p)] pt st st'"
    unfolding unmaps_def
  proof (intro conjI allI impI)
    show "pt_lookup pt st' w = (if w \<in> fst ` set [(v, p)] then None else pt_lookup pt st w)"
      if "unat (vpn0 w) < 2 ^ 27" for w
      using st'(3) [of w] indexes_inj [OF that v] by auto
  qed (use st'(1,2) a in \<open>auto simp: pt_effect_def\<close>)
  then show ?thesis
    by (simp add: unmap_one_def mt key drop_frame_option_def drop u)
qed

text \<open>Unmapping a framed area that owns \<open>ps\<close>, page by page, in key order.\<close>

lemma unmap_pages_framed:
  assumes "pt_inv l pt st" and "map_type area = Framed"
    and "data_frames area = map (\<lambda>(v, p). (v, FrameTracker p)) ps" and "distinct (map fst ps)" "distinct (map snd ps)"
    and "\<And>v p. (v, p) \<in> set ps \<Longrightarrow> p \<in> fa_live l (mm_alloc st) \<and> p \<notin> tables (frames pt)
           \<and> pt_lookup pt st v \<noteq> None \<and> unat (vpn0 v) < 2 ^ 27"
  shows "\<exists>st'. rfold unmap_one (map fst ps) (area, pt, st) = Inr (area\<lparr>data_frames := []\<rparr>, pt, st')
    \<and> unmaps l ps pt st st'"
  using assms
proof (induction ps arbitrary: area st)
  case Nil
  then show ?case using unmaps_Nil by (cases area) auto
next
  case (Cons x ps)
  obtain v p where x: "x = (v, p)" by (cases x)
  let ?area = "area\<lparr>data_frames := btree_remove v (data_frames area)\<rparr>"
  have d: "p \<in> fa_live l (mm_alloc st)" "p \<notin> tables (frames pt)" "pt_lookup pt st v \<noteq> None"
    "unat (vpn0 v) < 2 ^ 27" using Cons.prems(6) [of v p] x by auto
  have "map_of (data_frames area) v = Some (FrameTracker p)" using Cons.prems(3) x by simp
  then obtain st1 where one: "unmap_one v (area, pt, st) = Inr (?area, pt, st1)"
    and u: "unmaps l [(v, p)] pt st st1"
    using unmap_one_framed [OF Cons.prems(1,2) _ d] by blast
  have "filter (\<lambda>(k', _). k' \<noteq> v) (map (\<lambda>(v, p). (v, FrameTracker p)) ps) = map (\<lambda>(v, p). (v, FrameTracker p)) ps"
    using Cons.prems(4) x by (force simp: filter_id_conv)
  then have df: "data_frames ?area = map (\<lambda>(v, p). (v, FrameTracker p)) ps"
    using Cons.prems(3) x by (simp add: btree_remove_def)
  have "q \<in> fa_live l (mm_alloc st1) \<and> q \<notin> tables (frames pt) \<and> pt_lookup pt st1 w \<noteq> None
      \<and> unat (vpn0 w) < 2 ^ 27" if m: "(w, q) \<in> set ps" for w q
  proof -
    have "w \<noteq> v" "q \<noteq> p" using m Cons.prems(4,5) x by force+
    moreover have "q \<in> fa_live l (mm_alloc st) \<and> q \<notin> tables (frames pt)
      \<and> pt_lookup pt st w \<noteq> None \<and> unat (vpn0 w) < 2 ^ 27" using Cons.prems(6) [of w q] m by simp
    ultimately show ?thesis using unmapsD(2) [OF u] unmapsD(4) [OF u, of w] by simp
  qed
  then obtain st2 where rest: "rfold unmap_one (map fst ps) (?area, pt, st1) = Inr (?area\<lparr>data_frames := []\<rparr>, pt, st2)"
    and u2: "unmaps l ps pt st1 st2"
    using Cons.IH [OF unmapsD(1) [OF u] _ df] Cons.prems(2,4,5) by auto
  show ?case
    using rest unmaps_append [OF u u2] by (auto simp: x one)
qed

text \<open>Distinct frames make the pages of two areas disjoint.\<close>

lemma area_frame:
  assumes "area_ok pt st a" "v \<in> area_pages a"
  obtains f where "(v, f) \<in> set (data_frames a)" "ft_ppn f \<in> set (area_frames a)"
    "pt_lookup pt st v = Some (PageTableEntry_new (ft_ppn f) (map_perm a OR PTE_V))"
proof -
  have "v \<in> fst ` set (data_frames a)" using assms(2) area_okD(5) [OF assms(1)] by (metis set_map)
  then obtain f where f: "(v, f) \<in> set (data_frames a)" by auto
  then have "ft_ppn f \<in> set (area_frames a)" by (force simp: area_frames_def)
  then show ?thesis using that f area_okD(6) [OF assms(1) f] by blast
qed

lemma areas_disjoint:
  assumes inv: "ms_inv l ms st" and split: "areas ms = xs @ a # ys" and b: "b \<in> set (xs @ ys)"
  shows "area_pages a \<inter> area_pages b = {}" "set (area_frames a) \<inter> set (area_frames b) = {}"
proof -
  have own: "set (owned_frames ms) = (\<Union>c \<in> set (areas ms). set (area_frames c))"
    by (simp add: owned_frames_def)
  show d: "set (area_frames a) \<inter> set (area_frames b) = {}"
    using ms_invD(3) [OF inv] b by (auto simp: owned_frames_def split)
  have a: "a \<in> set (areas ms)" and b': "b \<in> set (areas ms)" using split b by auto
  show "area_pages a \<inter> area_pages b = {}"
  proof (rule ccontr)
    assume "area_pages a \<inter> area_pages b \<noteq> {}"
    then obtain v where v: "v \<in> area_pages a" "v \<in> area_pages b" by blast
    obtain f where f: "ft_ppn f \<in> set (area_frames a)"
      "pt_lookup (page_table ms) st v = Some (PageTableEntry_new (ft_ppn f) (map_perm a OR PTE_V))"
      using area_frame [OF ms_invD(2) [OF inv a] v(1)] by blast
    obtain g where g: "ft_ppn g \<in> set (area_frames b)"
      "pt_lookup (page_table ms) st v = Some (PageTableEntry_new (ft_ppn g) (map_perm b OR PTE_V))"
      using area_frame [OF ms_invD(2) [OF inv b'] v(2)] by blast
    have "ppn_ok (ft_ppn f)" "ppn_ok (ft_ppn g)" using ms_invD(6) [OF inv] own a b' f(1) g(1) by blast+
    then have "ft_ppn f = ft_ppn g" using f(2) g(2) by (metis option.inject ppn_new)
    then show False using d f(1) g(1) by auto
  qed
qed

lemma data_frames_zip:
  assumes "map fst (data_frames a) = vs"
  shows "data_frames a = map (\<lambda>(v, p). (v, FrameTracker p)) (zip vs (area_frames a))"
    "length (area_frames a) = length vs"
proof -
  show "length (area_frames a) = length vs" unfolding area_frames_def using assms by auto
  show "data_frames a = map (\<lambda>(v, p). (v, FrameTracker p)) (zip vs (area_frames a))"
    unfolding area_frames_def assms [symmetric] by (induction "data_frames a") (auto intro: nth_equalityI)
qed

text \<open>Removing an area from an address space.\<close>

lemma ms_inv_unmaps:
  assumes inv: "ms_inv l ms st" and split: "areas ms = xs @ a # ys"
    and u: "unmaps l (zip (vpns_of (vpn_range a)) (area_frames a)) (page_table ms) st st'"
  shows "ms_inv l (ms\<lparr>areas := xs @ ys\<rparr>) st'"
proof -
  let ?pt = "page_table ms" and ?vs = "vpns_of (vpn_range a)"
  have ok: "area_ok ?pt st a" using ms_invD(2) [OF inv] split by simp
  have len: "length (area_frames a) = length ?vs" using data_frames_zip(2) area_okD(5) [OF ok] by blast
  have keys: "fst ` set (zip ?vs (area_frames a)) = set ?vs" and vals: "snd ` set (zip ?vs (area_frames a)) = set (area_frames a)"
    using len by (metis map_fst_zip set_map, metis map_snd_zip set_map)
  have okb: "area_ok ?pt st' b" if b: "b \<in> set (xs @ ys)" for b
  proof -
    have b': "area_ok ?pt st b" using ms_invD(2) [OF inv] split b by auto
    show ?thesis
    proof (rule area_ok_cong [OF b'])
      fix v
      assume v: "v \<in> area_pages b"
      then have "v \<notin> area_pages a" using areas_disjoint(1) [OF inv split b] by blast
      then show "pt_lookup ?pt st' v = pt_lookup ?pt st v"
        using unmapsD(4) [OF u vpns_of_bound [OF area_okD(3,4) [OF b'] v]] by (simp add: keys)
    qed
  qed
  let ?ms = "ms\<lparr>areas := xs @ ys\<rparr>"
  have own: "set (owned_frames ?ms) = (\<Union>c \<in> set (xs @ ys). set (area_frames c))"
    and sub: "set (owned_frames ?ms) \<subseteq> set (owned_frames ms)" by (auto simp: owned_frames_def split)
  have "distinct (owned_frames ?ms)" using ms_invD(3) [OF inv] by (auto simp: owned_frames_def split)
  moreover have "set (owned_frames ?ms) \<inter> set (area_frames a) = {}"
    using areas_disjoint(2) [OF inv split] unfolding own by blast
  ultimately show ?thesis
    using unmapsD(1,2) [OF u] sub ms_invD(4,5) [OF inv] okb vals
    unfolding ms_inv_def list_all_iff by (simp del: Un_iff) blast
qed

lemma unmap_and_remove_spec:
  assumes inv: "ms_inv l ms st" and split: "areas ms = xs @ a # ys"
  shows "\<exists>st'. unmap_and_remove (length xs) (ms, st) = Inr (ms\<lparr>areas := xs @ ys\<rparr>, st')
    \<and> unmaps l (zip (vpns_of (vpn_range a)) (area_frames a)) (page_table ms) st st'
    \<and> ms_inv l (ms\<lparr>areas := xs @ ys\<rparr>) st'"
proof -
  let ?pt = "page_table ms" and ?vs = "vpns_of (vpn_range a)"
  let ?ps = "zip ?vs (area_frames a)"
  have ok: "area_ok ?pt st a" using ms_invD(2) [OF inv] split by simp
  note df = data_frames_zip [OF area_okD(5) [OF ok]]
  have d: "distinct (area_frames a)" using ms_invD(3) [OF inv] by (auto simp: owned_frames_def split)
  have "p \<in> fa_live l (mm_alloc st) \<and> p \<notin> tables (frames ?pt) \<and> pt_lookup ?pt st v \<noteq> None
      \<and> unat (vpn0 v) < 2 ^ 27" if "(v, p) \<in> set ?ps" for v p
  proof -
    have v: "v \<in> area_pages a" and p: "p \<in> set (area_frames a)" using that by (auto dest: set_zip_leftD set_zip_rightD)
    then have "p \<in> set (owned_frames ms)" by (auto simp: owned_frames_def split)
    then show ?thesis
      using ms_invD(4,5) [OF inv] area_frame [OF ok v] vpns_of_bound [OF area_okD(3,4) [OF ok] v]
      by (metis disjoint_iff option.distinct(1) subsetD)
  qed
  then obtain st' where run: "rfold unmap_one (map fst ?ps) (a, ?pt, st) = Inr (a\<lparr>data_frames := []\<rparr>, ?pt, st')"
    and u: "unmaps l ?ps ?pt st st'"
    using unmap_pages_framed [OF ms_invD(1) [OF inv] area_okD(1) [OF ok] df(1)] d df(2)
      vpns_of_distinct [OF area_okD(3) [OF ok]] by auto
  have "unmap_and_remove (length xs) (ms, st) = Inr (ms\<lparr>areas := xs @ ys\<rparr>, st')"
    using run df(2)
    by (simp add: unmap_and_remove_def MapArea_unmap_def MapArea_drop_def split index_at_def remove_nth_def)
  then show ?thesis using u ms_inv_unmaps [OF inv split u] by blast
qed

section \<open>Copying an address space\<close>

text \<open>Copying pages: \<open>ps\<close> lists the page with its frame in the new and in the old address space.\<close>

lemma copy_pages:
  assumes "pt_inv l (page_table ms) st" "pt_inv l (page_table us) st"
    and "distinct (map (fst \<circ> snd) ps)"
    and "\<And>v d s. (v, d, s) \<in> set ps \<Longrightarrow> ppn_ok d \<and> ppn_ok s \<and> d \<notin> tables (frames (page_table ms))
          \<and> d \<notin> tables (frames (page_table us)) \<and> d \<notin> (snd \<circ> snd) ` set ps
          \<and> (\<exists>e. pt_lookup (page_table ms) st v = Some e \<and> PageTableEntry_ppn e = d)
          \<and> (\<exists>e. pt_lookup (page_table us) st v = Some e \<and> PageTableEntry_ppn e = s)"
  shows "\<exists>m. rfold (copy_user_page us) (map fst ps) (ms, st) = Inr (ms, st\<lparr>mm_mem := m\<rparr>)
    \<and> (\<forall>(v, d, s) \<in> set ps. PhysPageNum_get_bytes_array m d = PhysPageNum_get_bytes_array (mm_mem st) s)
    \<and> (\<forall>q. ppn_ok q \<longrightarrow> q \<notin> (fst \<circ> snd) ` set ps \<longrightarrow> same_page (mm_mem st) m q)"
  using assms
proof (induction ps arbitrary: st)
  case Nil
  then show ?case by (intro exI [of _ "mm_mem st"]) simp
next
  case (Cons x ps)
  obtain v d s where x: "x = (v, d, s)" by (cases x)
  have c: "ppn_ok d" "ppn_ok s" "d \<notin> tables (frames (page_table ms))"
    "d \<notin> tables (frames (page_table us))" "d \<notin> (snd \<circ> snd) ` set (x # ps)"
    and e: "\<exists>e. pt_lookup (page_table ms) st v = Some e \<and> PageTableEntry_ppn e = d"
      "\<exists>e. pt_lookup (page_table us) st v = Some e \<and> PageTableEntry_ppn e = s"
    using Cons.prems(4) [of v d s] x by auto
  let ?bs = "PhysPageNum_get_bytes_array (mm_mem st) s"
  let ?m = "write_bytes (mm_mem st) (page_addr d 0) ?bs"
  let ?st = "st\<lparr>mm_mem := ?m\<rparr>"
  have one: "copy_user_page us v (ms, st) = Inr (ms, ?st)"
    using e by (auto simp: copy_user_page_def MemorySet_translate_def unwrap_def copy_from_slice_eq
        dest!: translate_lookup)
  have other: "same_page (mm_mem st) ?m q" if "ppn_ok q" "q \<noteq> d" for q
    using same_page_write_bytes [OF c(1) that(1), of 0 ?bs] that(2) by auto
  have copied: "PhysPageNum_get_bytes_array ?m d = ?bs"
    using get_bytes_write_same [OF c(1), of 0 ?bs] by simp
  have keep: "pt_inv l pt ?st" "pt_lookup pt ?st w = pt_lookup pt st w"
    if "pt_inv l pt st" "d \<notin> tables (frames pt)" for pt w
  proof -
    have "same_page (mm_mem st) (mm_mem ?st) q" if "q \<in> tables (frames pt)" for q
      using other pt_inv_tables(5) [OF \<open>pt_inv l pt st\<close>] that \<open>d \<notin> tables (frames pt)\<close> by auto
    then show "pt_inv l pt ?st" "pt_lookup pt ?st w = pt_lookup pt st w"
      using pt_inv_same_tables(1) [OF that(1), of ?st] pt_inv_same_tables(2) [OF that(1), of ?st w]
        pt_inv_tables(2,3) [OF that(1)] by simp_all
  qed
  have "\<exists>m. rfold (copy_user_page us) (map fst ps) (ms, ?st) = Inr (ms, ?st\<lparr>mm_mem := m\<rparr>)
    \<and> (\<forall>(v, d, s) \<in> set ps. PhysPageNum_get_bytes_array m d = PhysPageNum_get_bytes_array (mm_mem ?st) s)
    \<and> (\<forall>q. ppn_ok q \<longrightarrow> q \<notin> (fst \<circ> snd) ` set ps \<longrightarrow> same_page (mm_mem ?st) m q)"
  proof (rule Cons.IH)
    fix w d' s'
    assume m: "(w, d', s') \<in> set ps"
    show "ppn_ok d' \<and> ppn_ok s' \<and> d' \<notin> tables (frames (page_table ms))
        \<and> d' \<notin> tables (frames (page_table us)) \<and> d' \<notin> (snd \<circ> snd) ` set ps
        \<and> (\<exists>e. pt_lookup (page_table ms) ?st w = Some e \<and> PageTableEntry_ppn e = d')
        \<and> (\<exists>e. pt_lookup (page_table us) ?st w = Some e \<and> PageTableEntry_ppn e = s')"
      using Cons.prems(4) [of w d' s'] m keep(2) [OF Cons.prems(1) c(3), of w]
        keep(2) [OF Cons.prems(2) c(4), of w] by auto
  qed (use keep(1) Cons.prems(1-3) c x in auto)
  then obtain m where run: "rfold (copy_user_page us) (map fst ps) (ms, ?st) = Inr (ms, ?st\<lparr>mm_mem := m\<rparr>)"
    and cont: "\<And>v d s. (v, d, s) \<in> set ps \<Longrightarrow>
        PhysPageNum_get_bytes_array m d = PhysPageNum_get_bytes_array (mm_mem ?st) s"
    and same: "\<And>q. ppn_ok q \<Longrightarrow> q \<notin> (fst \<circ> snd) ` set ps \<Longrightarrow> same_page (mm_mem ?st) m q"
    by blast
  have "PhysPageNum_get_bytes_array m d' = PhysPageNum_get_bytes_array (mm_mem st) s'"
    if m': "(w, d', s') \<in> set (x # ps)" for w d' s'
  proof (cases "(w, d', s') \<in> set ps")
    case True
    have "ppn_ok s'" "s' \<noteq> d" using Cons.prems(4) [OF m'] c(5) True by force+
    then show ?thesis using cont [OF True] other [of s'] by (simp add: same_page_def)
  next
    case False
    then have "d' = d" "s' = s" using m' x by auto
    moreover have "d \<notin> (fst \<circ> snd) ` set ps" using Cons.prems(3) x by auto
    ultimately show ?thesis using same [OF c(1)] copied by (simp add: same_page_def)
  qed
  moreover have "same_page (mm_mem st) m q" if "ppn_ok q" "q \<notin> (fst \<circ> snd) ` set (x # ps)" for q
    using other [of q] same [of q] that x by (auto simp: same_page_def)
  ultimately show ?case
    using run by (intro exI [of _ m]) (auto simp: x one)
qed

text \<open>An address space is untouched by what happens to pages outside its page table.\<close>

lemma ms_inv_same_tables:
  assumes inv: "ms_inv l ms st"
    and same: "\<And>q. q \<in> tables (frames (page_table ms)) \<Longrightarrow> same_page (mm_mem st) (mm_mem st') q"
    and fa: "fa_invar l (mm_alloc st')" and live: "fa_live l (mm_alloc st) \<subseteq> fa_live l (mm_alloc st')"
  shows "ms_inv l ms st'" "pt_lookup (page_table ms) st' v = pt_lookup (page_table ms) st v"
proof -
  note pinv = ms_invD(1) [OF inv]
  have t: "tables (frames (page_table ms)) \<subseteq> fa_live l (mm_alloc st')" using pt_inv_tables(3) [OF pinv] live by blast
  have look: "pt_lookup (page_table ms) st' w = pt_lookup (page_table ms) st w" for w
    using pt_inv_same_tables(2) [OF pinv same fa t] .
  have "area_ok (page_table ms) st' a" if "a \<in> set (areas ms)" for a
    using area_ok_cong [OF ms_invD(2) [OF inv that]] look by blast
  then show "ms_inv l ms st'"
    using pt_inv_same_tables(1) [OF pinv same fa t] ms_invD(3-5) [OF inv] live
    unfolding ms_inv_def list_all_iff by blast
  show "pt_lookup (page_table ms) st' v = pt_lookup (page_table ms) st v" by (rule look)
qed

text \<open>
  The state of \<open>from_existed_user\<close> after the areas \<open>as\<close> of \<open>us\<close>, whose memory was \<open>st0\<close>: the
  new address space has areas of the same shape and contents, in frames that were free, and
  nothing that was in use has changed.
\<close>

definition area_shape :: "MapArea \<Rightarrow> VPNRange \<times> u8" where
  "area_shape a = (vpn_range a, map_perm a)"

definition page_copied :: "MemorySet \<Rightarrow> mm \<Rightarrow> mm \<Rightarrow> VirtPageNum \<times> FrameTracker \<Rightarrow> bool" where
  "page_copied us st0 st = (\<lambda>(v, f).
     case pt_lookup (page_table us) st0 v of
       None \<Rightarrow> False
     | Some e \<Rightarrow> PhysPageNum_get_bytes_array (mm_mem st) (ft_ppn f)
                 = PhysPageNum_get_bytes_array (mm_mem st0) (PageTableEntry_ppn e))"

definition fork_rel ::
  "usize \<Rightarrow> VirtPageNum \<Rightarrow> MemorySet \<Rightarrow> mm \<Rightarrow> MapArea list \<Rightarrow> MemorySet \<Rightarrow> mm \<Rightarrow> bool" where
  "fork_rel l tramp us st0 as ms st \<longleftrightarrow> ms_inv l ms st \<and> map area_shape (areas ms) = map area_shape as
     \<and> fa_live l (mm_alloc st0) \<subseteq> fa_live l (mm_alloc st)
     \<and> (tables (frames (page_table ms)) \<union> set (owned_frames ms)) \<inter> fa_live l (mm_alloc st0) = {}
     \<and> (\<forall>q \<in> fa_live l (mm_alloc st0). same_page (mm_mem st0) (mm_mem st) q)
     \<and> (\<forall>a \<in> set (areas ms). \<forall>x \<in> set (data_frames a). page_copied us st0 st x)
     \<and> (\<forall>v. unat (vpn0 v) < 2 ^ 27 \<longrightarrow> v \<noteq> tramp \<longrightarrow> (\<forall>a \<in> set as. v \<notin> area_pages a) \<longrightarrow>
          pt_lookup (page_table ms) st v = None)"

lemma fork_relD:
  assumes "fork_rel l tramp us st0 as ms st"
  shows "ms_inv l ms st" "map area_shape (areas ms) = map area_shape as"
    "fa_live l (mm_alloc st0) \<subseteq> fa_live l (mm_alloc st)"
    "tables (frames (page_table ms)) \<inter> fa_live l (mm_alloc st0) = {}"
    "set (owned_frames ms) \<inter> fa_live l (mm_alloc st0) = {}"
    "q \<in> fa_live l (mm_alloc st0) \<Longrightarrow> same_page (mm_mem st0) (mm_mem st) q"
    "a \<in> set (areas ms) \<Longrightarrow> x \<in> set (data_frames a) \<Longrightarrow> page_copied us st0 st x"
    "unat (vpn0 v) < 2 ^ 27 \<Longrightarrow> v \<noteq> tramp \<Longrightarrow> (\<And>a. a \<in> set as \<Longrightarrow> v \<notin> area_pages a) \<Longrightarrow>
       pt_lookup (page_table ms) st v = None"
  using assms unfolding fork_rel_def by blast+

text \<open>The source address space keeps its invariant and its map.\<close>

lemma fork_rel_source:
  assumes "ms_inv l us st0" "fork_rel l tramp us st0 as ms st"
  shows "ms_inv l us st" "pt_lookup (page_table us) st v = pt_lookup (page_table us) st0 v"
  using ms_inv_same_tables [OF assms(1) _ pt_inv_tables(2) [OF ms_invD(1) [OF fork_relD(1) [OF assms(2)]]]
      fork_relD(3) [OF assms(2)]]
    fork_relD(6) [OF assms(2)] pt_inv_tables(3) [OF ms_invD(1) [OF assms(1)]]
  by blast+

lemma fork_rel_push:
  assumes us: "ms_inv l us st0" and split: "areas us = as @ a # rest"
    and rel: "fork_rel l tramp us st0 as ms st" and tramp: "tramp \<notin> area_pages a"
    and free: "3 * length (vpns_of (vpn_range a)) \<le> fa_free (mm_alloc st)"
  shows "\<exists>ms1 st1 a1 ps. MemorySet_push (a\<lparr>data_frames := []\<rparr>) None (ms, st) = Inr (ms1, st1)
    \<and> areas ms1 = areas ms @ [a1] \<and> area_shape a1 = area_shape a \<and> map fst ps = vpns_of (vpn_range a)
    \<and> map snd ps = area_frames a1 \<and> maps l (map_perm a) ps (page_table ms) st (page_table ms1) st1
    \<and> ms_inv l ms1 st1"
proof -
  let ?a = "a\<lparr>data_frames := []\<rparr>"
  have ok: "area_ok (page_table us) st0 a" using ms_invD(2) [OF us] split by simp
  note d = area_okD [OF ok]
  have none: "pt_lookup (page_table ms) st v = None" if v: "v \<in> area_pages a" for v
  proof (rule fork_relD(8) [OF rel])
    show "unat (vpn0 v) < 2 ^ 27" using vpns_of_bound [OF d(3,4) v] .
    show "v \<noteq> tramp" using v tramp by auto
    show "v \<notin> area_pages b" if "b \<in> set as" for b
      using areas_disjoint(1) [OF us split, of b] that v by auto
  qed
  show ?thesis
    using push_framed_inv [OF fork_relD(1) [OF rel], of ?a] d none free by (simp add: area_shape_def) blast
qed

lemma page_copied_cong:
  assumes "page_copied us st0 st (v, f)" "same_page (mm_mem st) (mm_mem st') (ft_ppn f)"
  shows "page_copied us st0 st' (v, f)"
  using assms by (simp add: page_copied_def same_page_def split: option.splits)

lemma owned_frames_area: "a \<in> set (areas ms) \<Longrightarrow> (v, f) \<in> set (data_frames a) \<Longrightarrow> ft_ppn f \<in> set (owned_frames ms)"
  by (force simp: owned_frames_def area_frames_def)

lemma fork_rel_maps_same:
  assumes rel: "fork_rel l tramp us st0 as ms st" and m: "maps l perm ps (page_table ms) st pt' st'"
    and q: "q \<in> fa_live l (mm_alloc st0) \<or> q \<in> set (owned_frames ms)"
  shows "same_page (mm_mem st) (mm_mem st') q" "q \<notin> snd ` set ps" "q \<in> fa_live l (mm_alloc st)"
proof -
  note inv = fork_relD(1) [OF rel]
  show live: "q \<in> fa_live l (mm_alloc st)" using q fork_relD(3) [OF rel] ms_invD(4) [OF inv] by blast
  moreover have "q \<notin> tables (frames (page_table ms))" using q fork_relD(4) [OF rel] ms_invD(5) [OF inv] by blast
  ultimately show "same_page (mm_mem st) (mm_mem st') q" by (rule maps_same_page [OF m ms_invD(1) [OF inv]])
  show "q \<notin> snd ` set ps" using maps_frames_disjoint(3) [OF m ms_invD(1) [OF inv]] live by blast
qed

text \<open>Copying the pages of the area \<open>a\<close> once it is mapped to the frames \<open>fs\<close>.\<close>

lemma zip3_facts:
  assumes "length fs = length vs" "length gs = length vs"
  shows "map fst (zip vs (zip fs gs)) = vs" "map (fst \<circ> snd) (zip vs (zip fs gs)) = fs"
    "(fst \<circ> snd) ` set (zip vs (zip fs gs)) = set fs" "(snd \<circ> snd) ` set (zip vs (zip fs gs)) = set gs"
    "(v, d, s) \<in> set (zip vs (zip fs gs)) \<Longrightarrow> (v, d) \<in> set (zip vs fs) \<and> (v, s) \<in> set (zip vs gs)"
proof -
  let ?z = "zip vs (zip fs gs)"
  show 1: "map fst ?z = vs" "map (fst \<circ> snd) ?z = fs" using assms by (simp_all flip: map_map)
  have 2: "map (snd \<circ> snd) ?z = gs" using assms by (simp flip: map_map)
  show "(fst \<circ> snd) ` set ?z = set fs" "(snd \<circ> snd) ` set ?z = set gs" using 1(2) 2 by (metis set_map)+
  show "(v, d) \<in> set (zip vs fs) \<and> (v, s) \<in> set (zip vs gs)" if "(v, d, s) \<in> set ?z"
    using that by (auto simp: in_set_zip)
qed

lemma area_ok_zip:
  assumes "area_ok pt st a" and "(v, p) \<in> set (zip (vpns_of (vpn_range a)) (area_frames a))"
  shows "pt_lookup pt st v = Some (PageTableEntry_new p (map_perm a OR PTE_V))"
proof -
  have "(v, FrameTracker p) \<in> set (data_frames a)"
    using assms(2) by (subst data_frames_zip(1) [OF area_okD(5) [OF assms(1)]]) force
  then show ?thesis using area_okD(6) [OF assms(1)] by fastforce
qed

lemma fork_copy_pages:
  assumes us: "ms_inv l us st1" and a: "a \<in> set (areas us)" and ms: "ms_inv l ms st1" and b: "b \<in> set (areas ms)"
    and shape: "area_shape b = area_shape a"
    and apart: "\<And>p. p \<in> set (area_frames b) \<Longrightarrow> p \<notin> set (owned_frames us) \<and> p \<notin> tables (frames (page_table us))"
  shows "\<exists>m. rfold (copy_user_page us) (vpns_of (vpn_range a)) (ms, st1) = Inr (ms, st1\<lparr>mm_mem := m\<rparr>)
    \<and> (\<forall>x \<in> set (data_frames b). page_copied us st1 (st1\<lparr>mm_mem := m\<rparr>) x)
    \<and> (\<forall>q. ppn_ok q \<longrightarrow> q \<notin> set (area_frames b) \<longrightarrow> same_page (mm_mem st1) m q)"
proof -
  let ?vs = "vpns_of (vpn_range a)" and ?fs = "area_frames b" and ?gs = "area_frames a"
  let ?ps = "zip ?vs (zip ?fs ?gs)"
  have r: "vpn_range b = vpn_range a" using shape by (simp add: area_shape_def)
  note oka = ms_invD(2) [OF us a] and okb = ms_invD(2) [OF ms b]
  have len: "length ?fs = length ?vs" "length ?gs = length ?vs"
    using data_frames_zip(2) [OF area_okD(5) [OF oka]] data_frames_zip(2) [OF area_okD(5) [OF okb]] r by simp_all
  note z = zip3_facts [OF len]
  have sub: "set ?fs \<subseteq> set (owned_frames ms)" "set ?gs \<subseteq> set (owned_frames us)"
    using a b by (auto simp: owned_frames_def)
  have "\<exists>m. rfold (copy_user_page us) (map fst ?ps) (ms, st1) = Inr (ms, st1\<lparr>mm_mem := m\<rparr>)
    \<and> (\<forall>(v, d, s) \<in> set ?ps. PhysPageNum_get_bytes_array m d = PhysPageNum_get_bytes_array (mm_mem st1) s)
    \<and> (\<forall>q. ppn_ok q \<longrightarrow> q \<notin> (fst \<circ> snd) ` set ?ps \<longrightarrow> same_page (mm_mem st1) m q)"
  proof (rule copy_pages [OF ms_invD(1) [OF ms] ms_invD(1) [OF us]])
    show "distinct (map (fst \<circ> snd) ?ps)"
      unfolding z(2) using ms_invD(3) [OF ms] b by (auto simp: owned_frames_def distinct_concat_iff)
  next
    fix v d s
    assume x: "(v, d, s) \<in> set ?ps"
    note vd = z(5) [OF x]
    have d: "d \<in> set ?fs" and s: "s \<in> set ?gs" using vd by (auto dest: set_zip_rightD)
    have ok: "ppn_ok d" "ppn_ok s" using ms_invD(6) [OF ms] ms_invD(6) [OF us] sub d s by blast+
    have "pt_lookup (page_table ms) st1 v = Some (PageTableEntry_new d (map_perm b OR PTE_V))"
      using area_ok_zip [OF okb] vd r by simp
    moreover have "pt_lookup (page_table us) st1 v = Some (PageTableEntry_new s (map_perm a OR PTE_V))"
      using area_ok_zip [OF oka] vd by simp
    moreover have "d \<notin> tables (frames (page_table ms))" using ms_invD(5) [OF ms] sub(1) d by blast
    moreover have "d \<notin> (snd \<circ> snd) ` set ?ps" "d \<notin> tables (frames (page_table us))"
      unfolding z(4) using apart [OF d] sub(2) by blast+
    ultimately show "ppn_ok d \<and> ppn_ok s \<and> d \<notin> tables (frames (page_table ms))
        \<and> d \<notin> tables (frames (page_table us)) \<and> d \<notin> (snd \<circ> snd) ` set ?ps
        \<and> (\<exists>e. pt_lookup (page_table ms) st1 v = Some e \<and> PageTableEntry_ppn e = d)
        \<and> (\<exists>e. pt_lookup (page_table us) st1 v = Some e \<and> PageTableEntry_ppn e = s)"
      using ok by simp
  qed
  then obtain m where run: "rfold (copy_user_page us) ?vs (ms, st1) = Inr (ms, st1\<lparr>mm_mem := m\<rparr>)"
    and cont: "\<And>v d s. (v, d, s) \<in> set ?ps \<Longrightarrow>
        PhysPageNum_get_bytes_array m d = PhysPageNum_get_bytes_array (mm_mem st1) s"
    and same: "\<And>q. ppn_ok q \<Longrightarrow> q \<notin> set ?fs \<Longrightarrow> same_page (mm_mem st1) m q"
    unfolding z(1,3) by blast
  have "page_copied us st1 (st1\<lparr>mm_mem := m\<rparr>) (v, f)" if vf: "(v, f) \<in> set (data_frames b)" for v f
  proof -
    have "(v, ft_ppn f) \<in> set (zip ?vs ?fs)"
      using vf by (subst (asm) data_frames_zip(1) [OF area_okD(5) [OF okb]]) (auto simp: r)
    then obtain i where i: "i < length ?vs" "v = ?vs ! i" "ft_ppn f = ?fs ! i" by (auto simp: in_set_zip)
    have x: "(v, ft_ppn f, ?gs ! i) \<in> set ?ps" using i len by (auto simp: in_set_zip)
    have "?gs ! i \<in> set (owned_frames us)" using sub(2) i(1) len(2) by auto
    then have "ppn_ok (?gs ! i)" by (rule ms_invD(6) [OF us])
    moreover have "pt_lookup (page_table us) st1 v = Some (PageTableEntry_new (?gs ! i) (map_perm a OR PTE_V))"
      using area_ok_zip [OF oka] z(5) [OF x] by blast
    ultimately show ?thesis using cont [OF x] by (simp add: page_copied_def)
  qed
  then show ?thesis using run same by auto
qed

text \<open>One area of \<open>from_existed_user\<close>: what the mapping leaves, then the copy.\<close>

lemma fork_mapped:
  assumes us: "ms_inv l us st0" and rel: "fork_rel l tramp us st0 as ms st"
    and m: "maps l perm ps (page_table ms) st (page_table ms1) st1" and inv1: "ms_inv l ms1 st1"
    and areas: "areas ms1 = areas ms @ [a1]" and ps: "map snd ps = area_frames a1"
  shows "fa_live l (mm_alloc st0) \<subseteq> fa_live l (mm_alloc st1)"
    "q \<in> fa_live l (mm_alloc st0) \<Longrightarrow> same_page (mm_mem st0) (mm_mem st1) q"
    "set (area_frames a1) \<inter> fa_live l (mm_alloc st0) = {}"
    "(tables (frames (page_table ms1)) \<union> set (owned_frames ms1)) \<inter> fa_live l (mm_alloc st0) = {}"
    "ms_inv l us st1" "pt_lookup (page_table us) st1 v = pt_lookup (page_table us) st0 v"
proof -
  have snd_ps: "snd ` set ps = set (area_frames a1)" using ps by (metis set_map)
  note old = fork_rel_maps_same [OF rel m, unfolded snd_ps]
  show live1: "fa_live l (mm_alloc st0) \<subseteq> fa_live l (mm_alloc st1)"
    using fork_relD(3) [OF rel] maps_live(1) [OF m] by blast
  have same1: "same_page (mm_mem st0) (mm_mem st1) q" if "q \<in> fa_live l (mm_alloc st0)" for q
    using fork_relD(6) [OF rel that] old(1) that same_page_trans by blast
  then show "q \<in> fa_live l (mm_alloc st0) \<Longrightarrow> same_page (mm_mem st0) (mm_mem st1) q" .
  show new: "set (area_frames a1) \<inter> fa_live l (mm_alloc st0) = {}" using old(2) by blast
  have "set (owned_frames ms1) = set (owned_frames ms) \<union> set (area_frames a1)"
    by (simp add: owned_frames_def areas)
  moreover have "tables (frames (page_table ms1)) \<inter> fa_live l (mm_alloc st0) = {}"
    using maps_live(3) [OF m] fork_relD(3,4) [OF rel] by blast
  ultimately show "(tables (frames (page_table ms1)) \<union> set (owned_frames ms1)) \<inter> fa_live l (mm_alloc st0) = {}"
    using new fork_relD(5) [OF rel] by blast
  have t: "same_page (mm_mem st0) (mm_mem st1) q" if "q \<in> tables (frames (page_table us))" for q
    using same1 pt_inv_tables(3) [OF ms_invD(1) [OF us]] that by blast
  note fa1 = pt_inv_tables(2) [OF ms_invD(1) [OF inv1]]
  show "ms_inv l us st1" "pt_lookup (page_table us) st1 v = pt_lookup (page_table us) st0 v"
    using ms_inv_same_tables [OF us t fa1 live1] by blast+
qed

lemma page_copied_source:
  assumes us: "ms_inv l us st0" and a: "a \<in> set (areas us)" "v \<in> area_pages a"
    and look: "pt_lookup (page_table us) st1 v = pt_lookup (page_table us) st0 v"
    and same: "\<And>q. q \<in> fa_live l (mm_alloc st0) \<Longrightarrow> same_page (mm_mem st0) (mm_mem st1) q"
    and cp: "page_copied us st1 st (v, f)"
  shows "page_copied us st0 st (v, f)"
proof -
  obtain g where g: "(v, g) \<in> set (data_frames a)"
    "pt_lookup (page_table us) st0 v = Some (PageTableEntry_new (ft_ppn g) (map_perm a OR PTE_V))"
    using area_frame [OF ms_invD(2) [OF us a(1)] a(2)] by blast
  have own: "ft_ppn g \<in> set (owned_frames us)" using owned_frames_area [OF a(1) g(1)] .
  then have "same_page (mm_mem st0) (mm_mem st1) (ft_ppn g)" using same ms_invD(4) [OF us] by blast
  then show ?thesis
    using cp look g(2) ms_invD(6) [OF us own] by (simp add: page_copied_def same_page_def)
qed

lemma fork_rel_extend:
  assumes us: "ms_inv l us st0" and a: "a \<in> set (areas us)" and rel: "fork_rel l tramp us st0 as ms st"
    and m: "maps l perm ps (page_table ms) st (page_table ms1) st1" and inv1: "ms_inv l ms1 st1"
    and areas: "areas ms1 = areas ms @ [a1]" and shape: "area_shape a1 = area_shape a"
    and ps: "map snd ps = area_frames a1" "map fst ps = vpns_of (vpn_range a)"
    and cont: "\<And>x. x \<in> set (data_frames a1) \<Longrightarrow> page_copied us st1 (st1\<lparr>mm_mem := mem\<rparr>) x"
    and same: "\<And>q. ppn_ok q \<Longrightarrow> q \<notin> set (area_frames a1) \<Longrightarrow> same_page (mm_mem st1) mem q"
  shows "fork_rel l tramp us st0 (as @ [a]) ms1 (st1\<lparr>mm_mem := mem\<rparr>)"
proof -
  let ?st = "st1\<lparr>mm_mem := mem\<rparr>"
  note f = fork_mapped [OF us rel m inv1 areas ps(1)]
  have keys: "fst ` set ps = area_pages a" and vals: "snd ` set ps = set (area_frames a1)" using ps by (metis set_map)+
  note old = fork_rel_maps_same [OF rel m, unfolded vals]
  have a1: "a1 \<in> set (areas ms1)" using areas by simp
  have sub: "set (area_frames a1) \<subseteq> set (owned_frames ms1)" using a1 by (auto simp: owned_frames_def)
  have t: "same_page (mm_mem st1) mem q" if "q \<in> tables (frames (page_table ms1))" for q
    using same pt_inv_tables(5) [OF ms_invD(1) [OF inv1] that] ms_invD(5) [OF inv1] sub that by blast
  have inv2: "ms_inv l ms1 ?st" "\<And>v. pt_lookup (page_table ms1) ?st v = pt_lookup (page_table ms1) st1 v"
    using ms_inv_same_tables [OF inv1, of ?st] t pt_inv_tables(2) [OF ms_invD(1) [OF inv1]] by simp_all
  have same0: "same_page (mm_mem st0) mem q" if q: "q \<in> fa_live l (mm_alloc st0)" for q
  proof -
    have "ppn_ok q" using fa_live_ok [OF pt_inv_tables(2) [OF ms_invD(1) [OF us]] q] .
    moreover have "q \<notin> set (area_frames a1)" using f(3) q by blast
    ultimately show ?thesis using f(2) [OF q] same same_page_trans by blast
  qed
  have "page_copied us st0 ?st x" if b: "b \<in> set (areas ms1)" and x: "x \<in> set (data_frames b)" for b x
  proof (cases "b \<in> set (areas ms)")
    case True
    obtain v g where vg: "x = (v, g)" by (cases x)
    have own: "ft_ppn g \<in> set (owned_frames ms)" using owned_frames_area True x vg by blast
    have "same_page (mm_mem st1) mem (ft_ppn g)"
      using same ms_invD(6) [OF fork_relD(1) [OF rel] own] old(2) own by blast
    moreover have "same_page (mm_mem st) (mm_mem st1) (ft_ppn g)" using old(1) own by blast
    ultimately have "same_page (mm_mem st) (mm_mem ?st) (ft_ppn g)" by (auto simp: same_page_def)
    then show ?thesis using page_copied_cong fork_relD(7) [OF rel True x] unfolding vg by blast
  next
    case False
    then have b1: "b = a1" using b areas by simp
    obtain v g where vg: "x = (v, g)" by (cases x)
    have "v \<in> fst ` set (data_frames a1)" using x b1 vg by force
    then have "v \<in> area_pages a"
      using area_okD(5) [OF ms_invD(2) [OF inv1 a1]] shape by (metis area_shape_def prod.inject set_map)
    then show ?thesis using page_copied_source [OF us a _ f(6) f(2)] cont x b1 vg by blast
  qed
  moreover have "pt_lookup (page_table ms1) ?st v = None"
    if v: "unat (vpn0 v) < 2 ^ 27" "v \<noteq> tramp" "\<forall>b \<in> set (as @ [a]). v \<notin> area_pages b" for v
  proof -
    have "map_of ps v = None" using v(3) keys by (simp add: map_of_eq_None_iff)
    then show ?thesis using mapsD(4) [OF m v(1)] fork_relD(8) [OF rel v(1,2)] v(3) inv2(2) by simp
  qed
  moreover have "map area_shape (areas ms1) = map area_shape (as @ [a])"
    using fork_relD(2) [OF rel] areas shape by simp
  ultimately show ?thesis using inv2(1) f(1,4) same0 unfolding fork_rel_def by simp
qed

lemma fork_rel_area:
  assumes us: "ms_inv l us st0" and split: "areas us = as @ a # rest"
    and rel: "fork_rel l tramp us st0 as ms st" and tramp: "tramp \<notin> area_pages a"
    and free: "3 * length (vpns_of (vpn_range a)) \<le> fa_free (mm_alloc st)"
  shows "\<exists>ms' st'. copy_user_area us a (ms, st) = Inr (ms', st') \<and> fork_rel l tramp us st0 (as @ [a]) ms' st'
    \<and> fa_free (mm_alloc st) \<le> fa_free (mm_alloc st') + 3 * length (vpns_of (vpn_range a))"
proof -
  let ?vs = "vpns_of (vpn_range a)"
  have a: "a \<in> set (areas us)" using split by simp
  obtain ms1 st1 a1 ps where push: "MemorySet_push (a\<lparr>data_frames := []\<rparr>) None (ms, st) = Inr (ms1, st1)"
    and areas: "areas ms1 = areas ms @ [a1]" and shape: "area_shape a1 = area_shape a"
    and ps: "map snd ps = area_frames a1" "map fst ps = ?vs"
    and m: "maps l (map_perm a) ps (page_table ms) st (page_table ms1) st1" and inv1: "ms_inv l ms1 st1"
    using fork_rel_push [OF assms] by blast
  note f = fork_mapped [OF us rel m inv1 areas ps(1)]
  have "p \<notin> set (owned_frames us) \<and> p \<notin> tables (frames (page_table us))" if "p \<in> set (area_frames a1)" for p
    using that f(3) pt_inv_tables(3) [OF ms_invD(1) [OF us]] ms_invD(4) [OF us] by blast
  then obtain mem where run: "rfold (copy_user_page us) ?vs (ms1, st1) = Inr (ms1, st1\<lparr>mm_mem := mem\<rparr>)"
    and cont: "\<And>x. x \<in> set (data_frames a1) \<Longrightarrow> page_copied us st1 (st1\<lparr>mm_mem := mem\<rparr>) x"
    and same: "\<And>q. ppn_ok q \<Longrightarrow> q \<notin> set (area_frames a1) \<Longrightarrow> same_page (mm_mem st1) mem q"
    using fork_copy_pages [OF f(5) a inv1 _ shape] areas by auto
  have "MapArea_from_another a = Inr (a\<lparr>data_frames := []\<rparr>)"
    using area_okD(3) [OF ms_invD(2) [OF us a]]
    by (cases a) (simp add: MapArea_from_another_def SimpleRange_new_def rassert_def)
  then have "copy_user_area us a (ms, st) = Inr (ms1, st1\<lparr>mm_mem := mem\<rparr>)"
    using push run by (simp add: copy_user_area_def)
  moreover obtain ts where ts: "takes_frames l ts (map snd ps) (page_table ms) st (page_table ms1) st1"
    using mapsD(3) [OF m] by blast
  have "length ps = length ?vs" using ps(2) by (metis length_map)
  then have "fa_free (mm_alloc st) \<le> fa_free (mm_alloc (st1\<lparr>mm_mem := mem\<rparr>)) + 3 * length ?vs"
    using takes_framesD(2,9) [OF ts] by simp
  ultimately show ?thesis
    using fork_rel_extend [OF us a rel m inv1 areas shape ps cont same] by blast
qed

text \<open>The trampoline is mapped first, at the last page of the address space.\<close>

abbreviation trampoline_vpn :: VirtPageNum where
  "trampoline_vpn \<equiv> VirtAddr_floor (VirtAddr_from TRAMPOLINE)"

lemma trampoline_vpn_eq: "trampoline_vpn = VirtPageNum (2 ^ 27 - 1)"
  "VirtPageNum_from_VirtAddr (VirtAddr_from TRAMPOLINE) = Inr (VirtPageNum (2 ^ 27 - 1))"
  by (simp_all add: VirtPageNum_from_VirtAddr_def VirtAddr_floor_def VirtAddr_from_def
      VirtAddr_page_offset_def config_defs rassert_def)

lemma fork_rel_start:
  assumes us: "ms_inv l us st0" and al: "PhysAddr_page_offset (PhysAddr_from tramp) = 0"
    and free: "3 \<le> fa_free (mm_alloc st0)"
  shows "\<exists>ms st. rbind (MemorySet_new_bare st0) (map_trampoline tramp) = Inr (ms, st)
    \<and> fork_rel l trampoline_vpn us st0 [] ms st \<and> fa_free (mm_alloc st0) \<le> fa_free (mm_alloc st) + 3"
proof -
  note fa0 = pt_inv_tables(2) [OF ms_invD(1) [OF us]]
  note new = SV39_new_spec [OF fa0]
  obtain pt st1 where pt: "SV39_new st0 = Inr (pt, st1)" using new free by (cases "SV39_new st0") auto
  then have n: "pt_inv l pt st1" "\<And>w. pt_lookup pt st1 w = None" "fresh_frame l st0 (root_ppn pt) st1"
    "frames pt = [FrameTracker (root_ppn pt)]" "fa_free (mm_alloc st1) + 1 = fa_free (mm_alloc st0)"
    using new by simp_all
  let ?ppn = "PhysAddr_floor (PhysAddr_from tramp)" and ?fl = "MapPermission_R OR MapPermission_X"
  note mp = SV39_map_spec [OF n(1), of trampoline_vpn ?ppn ?fl]
  obtain pt' st where m: "SV39_map pt trampoline_vpn ?ppn ?fl st1 = Inr (pt', st)"
    using mp n(2,5) free by (cases "SV39_map pt trampoline_vpn ?ppn ?fl st1") auto
  have eff: "pt_effect l pt st1 pt' st"
    and look: "\<And>w. pt_lookup pt' st w = (if indexes w = indexes trampoline_vpn
        then Some (PageTableEntry_new ?ppn (?fl OR PTE_V)) else pt_lookup pt st1 w)"
    using mp by (simp_all add: m)
  let ?ms = "\<lparr>page_table = pt', areas = [], brk = 0, heap_start = 0\<rparr>"
  have run: "rbind (MemorySet_new_bare st0) (map_trampoline tramp) = Inr (?ms, st)"
    using m al trampoline_vpn_eq
    by (simp add: MemorySet_new_bare_def SV39_new_kernel_eq pt map_trampoline_def PhysPageNum_from_PhysAddr_def)
  obtain fs where fs: "frames pt' = frames pt @ fs" "length fs \<le> 2"
    "fa_live l (mm_alloc st) = fa_live l (mm_alloc st1) \<union> tables fs"
    "tables fs \<inter> fa_live l (mm_alloc st1) = {}"
    "fa_free (mm_alloc st) + length fs = fa_free (mm_alloc st1)"
    and inv': "pt_inv l pt' st"
    and same: "\<And>q. ppn_ok q \<Longrightarrow> q \<notin> tables (frames pt') \<Longrightarrow> same_page (mm_mem st1) (mm_mem st) q"
    using eff unfolding pt_effect_def by blast
  have live1: "fa_live l (mm_alloc st1) = insert (root_ppn pt) (fa_live l (mm_alloc st0))"
    "root_ppn pt \<notin> fa_live l (mm_alloc st0)"
    and same1: "\<And>q. ppn_ok q \<Longrightarrow> q \<noteq> root_ppn pt \<Longrightarrow> same_page (mm_mem st0) (mm_mem st1) q"
    using n(3) unfolding fresh_frame_def by blast+
  have tab: "tables (frames pt') \<inter> fa_live l (mm_alloc st0) = {}" using fs(1,4) live1 n(4) by auto
  have "fork_rel l trampoline_vpn us st0 [] ?ms st"
    unfolding fork_rel_def
  proof (intro conjI ballI allI impI)
    fix q
    assume q: "q \<in> fa_live l (mm_alloc st0)"
    then have "ppn_ok q" by (rule fa_live_ok [OF fa0])
    moreover have "q \<noteq> root_ppn pt" "q \<notin> tables (frames pt')" using q live1 tab by blast+
    ultimately show "same_page (mm_mem st0) (mm_mem st) q" using same1 same same_page_trans by blast
  next
    fix v :: VirtPageNum
    assume v: "unat (vpn0 v) < 2 ^ 27" "v \<noteq> trampoline_vpn"
    have "unat (vpn0 trampoline_vpn) < 2 ^ 27" by (simp add: trampoline_vpn_eq)
    then show "pt_lookup (page_table ?ms) st v = None"
      using look [of v] n(2) indexes_inj [OF v(1), of trampoline_vpn] v(2) by auto
  qed (use inv' fs(3) live1 tab in \<open>auto simp: ms_inv_def owned_frames_def\<close>)
  then show ?thesis using run fs(2,5) n(5) by auto
qed

lemma fork_rel_areas:
  assumes us: "ms_inv l us st0" and "areas us = as @ rest" and "fork_rel l tramp us st0 as ms st"
    and "\<And>a. a \<in> set rest \<Longrightarrow> tramp \<notin> area_pages a"
    and "3 * (\<Sum>a \<leftarrow> rest. length (vpns_of (vpn_range a))) \<le> fa_free (mm_alloc st)"
  shows "\<exists>ms' st'. rfold (copy_user_area us) rest (ms, st) = Inr (ms', st')
    \<and> fork_rel l tramp us st0 (areas us) ms' st'"
  using assms(2-5)
proof (induction rest arbitrary: as ms st)
  case Nil
  then show ?case by auto
next
  case (Cons a rest)
  have tr: "tramp \<notin> area_pages a" and fr: "3 * length (vpns_of (vpn_range a)) \<le> fa_free (mm_alloc st)"
    using Cons.prems(3,4) by auto
  obtain ms1 st1 where one: "copy_user_area us a (ms, st) = Inr (ms1, st1)"
    and rel: "fork_rel l tramp us st0 (as @ [a]) ms1 st1"
    and free: "fa_free (mm_alloc st) \<le> fa_free (mm_alloc st1) + 3 * length (vpns_of (vpn_range a))"
    using fork_rel_area [OF us Cons.prems(1,2) tr fr] by blast
  have "3 * (\<Sum>a \<leftarrow> rest. length (vpns_of (vpn_range a))) \<le> fa_free (mm_alloc st1)"
    using free Cons.prems(4) by simp
  then obtain ms2 st2 where "rfold (copy_user_area us) rest (ms1, st1) = Inr (ms2, st2)"
    "fork_rel l tramp us st0 (areas us) ms2 st2"
    using Cons.IH [of "as @ [a]" ms1 st1] Cons.prems(1,3) rel by auto
  then show ?case using one by auto
qed

end
