(* ===== verification/User_Space.thy ===== *)
theory User_Space
  imports Address_Space
begin

text \<open>
  The properties of user address spaces: allocation and release of areas, \<open>fork\<close>, \<open>mmap\<close> and
  \<open>munmap\<close>, and the search for a free range.
\<close>

section \<open>The properties of address spaces\<close>

text \<open>An address space with the pages 1 and 2 mapped read-write for the user, for the examples.\<close>

abbreviation perm_RWU :: u8 where
  "perm_RWU \<equiv> MapPermission_R OR MapPermission_W OR MapPermission_U"

lemma insert_framed_area_spec:
  assumes inv: "ms_inv l ms st"
    and r: "VirtAddr_floor s \<le> VirtAddr_ceil e" "unat (vpn0 (VirtAddr_ceil e)) \<le> 2 ^ 27"
    and perm: "perm AND NOT MapPermission_all = 0"
    and none: "\<forall>v \<in> {VirtAddr_floor s ..< VirtAddr_ceil e}. pt_lookup (page_table ms) st v = None"
    and free: "3 * (unat (vpn0 (VirtAddr_ceil e)) - unat (vpn0 (VirtAddr_floor s))) \<le> fa_free (mm_alloc st)"
  shows "\<exists>ms' st' a ps. insert_framed_area s e perm (ms, st) = Inr (ms', st') \<and> ms_inv l ms' st'
    \<and> areas ms' = areas ms @ [a] \<and> vpn_range a = \<lparr>range_l = VirtAddr_floor s, range_r = VirtAddr_ceil e\<rparr>
    \<and> map_perm a = perm \<and> map fst ps = vpns_of (vpn_range a) \<and> map snd ps = area_frames a
    \<and> maps l perm ps (page_table ms) st (page_table ms') st'"
proof -
  define a :: MapArea where "a = \<lparr>vpn_range = \<lparr>range_l = VirtAddr_floor s, range_r = VirtAddr_ceil e\<rparr>,
    data_frames = [], map_type = Framed, map_perm = perm\<rparr>"
  have new: "MapArea_new s e Framed perm = Inr a" using r(1) by (simp add: MapArea_new_def SimpleRange_new_def a_def)
  have a: "map_type a = Framed" "map_perm a = perm" "data_frames a = []"
    "vpn_range a = \<lparr>range_l = VirtAddr_floor s, range_r = VirtAddr_ceil e\<rparr>"
    by (simp_all add: a_def)
  have none': "pt_lookup (page_table ms) st v = None" if "v \<in> area_pages a" for v
    using none that r(1) by (simp add: vpns_of_set a(4))
  have len: "3 * length (vpns_of (vpn_range a)) \<le> fa_free (mm_alloc st)"
    using free r(1) by (simp add: vpns_of_length a(4))
  have r': "range_l (vpn_range a) \<le> range_r (vpn_range a)" "unat (vpn0 (range_r (vpn_range a))) \<le> 2 ^ 27"
    and perm': "map_perm a AND NOT MapPermission_all = 0"
    using r perm by (simp_all add: a)
  note p = push_framed_inv [OF inv a(1) perm' r' a(3) none' len, unfolded a(2)]
  show ?thesis using p new a(4) unfolding insert_framed_area_def by auto
qed

lemma example_space:
  obtains ms st where "rbind (MemorySet_new_bare example_mm) (insert_framed_area (VirtAddr 0x1000) (VirtAddr 0x3000) perm_RWU)
      = Inr (ms, st)" "ms_inv 0x80400 ms st" "map area_shape (areas ms) =
        [(\<lparr>range_l = VirtPageNum 1, range_r = VirtPageNum 3\<rparr>, perm_RWU)]" "100 \<le> fa_free (mm_alloc st)"
    "\<And>w. unat (vpn0 w) < 2 ^ 27 \<Longrightarrow> w < VirtPageNum 1 \<or> VirtPageNum 3 \<le> w \<Longrightarrow> pt_lookup (page_table ms) st w = None"
proof -
  obtain pt st0 where e: "SV39_new example_mm = Inr (pt, st0)" "pt_inv 0x80400 pt st0"
    "fa_free (mm_alloc st0) = 0x7BFF" "\<And>w. pt_lookup pt st0 w = None"
    by (rule example_pt) blast
  let ?ms = "\<lparr>page_table = pt, areas = [], brk = 0, heap_start = 0\<rparr>"
  have fc: "VirtAddr_floor (VirtAddr 0x1000) = VirtPageNum 1" "VirtAddr_ceil (VirtAddr 0x3000) = VirtPageNum 3"
    by (simp_all add: VirtAddr_floor_def VirtAddr_ceil_def config_defs)
  have i0: "ms_inv 0x80400 ?ms st0" using e(2) by (simp add: ms_inv_def owned_frames_def)
  have "\<exists>ms' st' a ps. insert_framed_area (VirtAddr 0x1000) (VirtAddr 0x3000) perm_RWU (?ms, st0) = Inr (ms', st')
    \<and> ms_inv 0x80400 ms' st' \<and> areas ms' = areas ?ms @ [a]
    \<and> vpn_range a = \<lparr>range_l = VirtAddr_floor (VirtAddr 0x1000), range_r = VirtAddr_ceil (VirtAddr 0x3000)\<rparr>
    \<and> map_perm a = perm_RWU \<and> map fst ps = vpns_of (vpn_range a) \<and> map snd ps = area_frames a
    \<and> maps 0x80400 perm_RWU ps (page_table ?ms) st0 (page_table ms') st'"
    by (rule insert_framed_area_spec [OF i0]) (use e in \<open>simp_all add: fc newtype_order perm_defs\<close>)
  then obtain ms st a ps where s: "insert_framed_area (VirtAddr 0x1000) (VirtAddr 0x3000) perm_RWU (?ms, st0) = Inr (ms, st)"
    "ms_inv 0x80400 ms st" "areas ms = [a]" "vpn_range a = \<lparr>range_l = VirtPageNum 1, range_r = VirtPageNum 3\<rparr>"
    "map_perm a = perm_RWU" "map fst ps = vpns_of (vpn_range a)" "map snd ps = area_frames a"
    and m: "maps 0x80400 perm_RWU ps pt st0 (page_table ms) st"
    unfolding fc by auto
  have r: "range_l (vpn_range a) \<le> range_r (vpn_range a)" by (simp add: s(4) newtype_order)
  obtain ts where ts: "takes_frames 0x80400 ts (map snd ps) pt st0 (page_table ms) st" using mapsD(3) [OF m] by blast
  have "length ps = length (vpns_of (vpn_range a))" using s(6) by (metis length_map)
  then have "length ps = 2" using vpns_of_length [OF r] by (simp add: s(4))
  then have free: "100 \<le> fa_free (mm_alloc st)" using takes_framesD(2,9) [OF ts] e(3) by simp
  have none: "pt_lookup (page_table ms) st w = None"
    if w: "unat (vpn0 w) < 2 ^ 27" "w < VirtPageNum 1 \<or> VirtPageNum 3 \<le> w" for w
  proof -
    have "fst ` set ps = area_pages a" using s(6) by (metis set_map)
    then have "map_of ps w = None" using w(2) r by (auto simp: map_of_eq_None_iff vpns_of_set s(4))
    then show ?thesis using mapsD(4) [OF m w(1)] e(4) by simp
  qed
  show thesis
  proof (rule that [OF _ s(2) _ free none])
    show "rbind (MemorySet_new_bare example_mm) (insert_framed_area (VirtAddr 0x1000) (VirtAddr 0x3000) perm_RWU)
        = Inr (ms, st)"
      using e(1) s(1) by (simp add: MemorySet_new_bare_def SV39_new_kernel_eq)
    show "map area_shape (areas ms) = [(\<lparr>range_l = VirtPageNum 1, range_r = VirtPageNum 3\<rparr>, perm_RWU)]"
      using s(3-5) by (simp add: area_shape_def)
  qed
qed

text \<open>What \<open>fork_rel\<close> says of one page.\<close>

lemma fork_rel_page:
  assumes inv: "ms_inv l us st" and rel: "fork_rel l tramp us st (areas us) ms st'"
  shows "\<forall>a \<in> set (areas us). \<forall>v \<in> area_pages a.
         case (pt_lookup (page_table us) st' v, pt_lookup (page_table ms) st' v) of
           (Some e, Some e') \<Rightarrow> PageTableEntry_flags e' = PageTableEntry_flags e
             \<and> PageTableEntry_ppn e' \<noteq> PageTableEntry_ppn e
             \<and> PhysPageNum_get_bytes_array (mm_mem st') (PageTableEntry_ppn e')
               = PhysPageNum_get_bytes_array (mm_mem st) (PageTableEntry_ppn e)
         | _ \<Rightarrow> False"
proof (intro ballI)
  fix a v
  assume a: "a \<in> set (areas us)" and v: "v \<in> area_pages a"
  have "area_shape a \<in> set (map area_shape (areas ms))" using a fork_relD(2) [OF rel] by simp
  then obtain b where b: "b \<in> set (areas ms)" "vpn_range b = vpn_range a" "map_perm b = map_perm a"
    by (auto simp: area_shape_def)
  obtain f where f: "(v, f) \<in> set (data_frames a)"
    "pt_lookup (page_table us) st v = Some (PageTableEntry_new (ft_ppn f) (map_perm a OR PTE_V))"
    using area_frame [OF ms_invD(2) [OF inv a] v] by blast
  obtain g where g: "(v, g) \<in> set (data_frames b)"
    "pt_lookup (page_table ms) st' v = Some (PageTableEntry_new (ft_ppn g) (map_perm a OR PTE_V))"
    using area_frame [OF ms_invD(2) [OF fork_relD(1) [OF rel] b(1)], of v] v b by auto
  have own: "ft_ppn f \<in> set (owned_frames us)" "ft_ppn g \<in> set (owned_frames ms)"
    using owned_frames_area a b(1) f(1) g(1) by blast+
  then have ok: "ppn_ok (ft_ppn f)" "ppn_ok (ft_ppn g)"
    using ms_invD(6) [OF inv] ms_invD(6) [OF fork_relD(1) [OF rel]] by blast+
  have "ft_ppn g \<noteq> ft_ppn f" using own fork_relD(5) [OF rel] ms_invD(4) [OF inv] by (metis disjoint_iff subsetD)
  moreover have "page_copied us st st' (v, g)" using fork_relD(7) [OF rel b(1) g(1)] .
  ultimately show "case (pt_lookup (page_table us) st' v, pt_lookup (page_table ms) st' v) of
           (Some e, Some e') \<Rightarrow> PageTableEntry_flags e' = PageTableEntry_flags e
             \<and> PageTableEntry_ppn e' \<noteq> PageTableEntry_ppn e
             \<and> PhysPageNum_get_bytes_array (mm_mem st') (PageTableEntry_ppn e')
               = PhysPageNum_get_bytes_array (mm_mem st) (PageTableEntry_ppn e)
         | _ \<Rightarrow> False"
    using f(2) g(2) ok fork_rel_source(2) [OF inv rel, of v] by (simp add: page_copied_def)
qed

text \<open>
  C3. \<open>fork\<close> isolates the two processes: \<open>MemorySet::from_existed_user\<close>, given three free frames
  per page and three more, does not panic and yields an address space with the same areas, in
  which every user page has the same access flags and the same contents as in the parent but lies
  in a different frame; no frame or page table of the parent is shared with the child, and nothing
  that was in use before is changed. Both address spaces satisfy the invariant afterwards.
\<close>

theorem from_existed_user_isolates:
  assumes inv: "ms_inv l us st" and tramp: "PhysAddr_page_offset (PhysAddr_from strampoline') = 0"
    and below: "\<And>a. a \<in> set (areas us) \<Longrightarrow> range_r (vpn_range a) \<le> VirtAddr_floor (VirtAddr_from TRAMPOLINE)"
    and free: "3 + 3 * (\<Sum>a \<leftarrow> areas us. length (vpns_of (vpn_range a))) \<le> fa_free (mm_alloc st)"
  shows "\<exists>ms st'. MemorySet_from_existed_user strampoline' us st = Inr (ms, st')
    \<and> ms_inv l ms st' \<and> ms_inv l us st' \<and> map area_shape (areas ms) = map area_shape (areas us)
    \<and> (set (owned_frames ms) \<union> tables (frames (page_table ms)))
        \<inter> (set (owned_frames us) \<union> tables (frames (page_table us))) = {}
    \<and> (\<forall>a \<in> set (areas us). \<forall>v \<in> area_pages a.
         case (pt_lookup (page_table us) st' v, pt_lookup (page_table ms) st' v) of
           (Some e, Some e') \<Rightarrow> PageTableEntry_flags e' = PageTableEntry_flags e
             \<and> PageTableEntry_ppn e' \<noteq> PageTableEntry_ppn e
             \<and> PhysPageNum_get_bytes_array (mm_mem st') (PageTableEntry_ppn e')
               = PhysPageNum_get_bytes_array (mm_mem st) (PageTableEntry_ppn e)
         | _ \<Rightarrow> False)
    \<and> (\<forall>q \<in> fa_live l (mm_alloc st). PhysPageNum_get_bytes_array (mm_mem st') q
         = PhysPageNum_get_bytes_array (mm_mem st) q)"
proof -
  obtain ms1 st1 where start: "rbind (MemorySet_new_bare st) (map_trampoline strampoline') = Inr (ms1, st1)"
    and rel1: "fork_rel l trampoline_vpn us st [] ms1 st1" and free1: "fa_free (mm_alloc st) \<le> fa_free (mm_alloc st1) + 3"
    using fork_rel_start [OF inv tramp] free by auto
  have nt: "trampoline_vpn \<notin> area_pages a" if "a \<in> set (areas us)" for a
    using below [OF that] area_okD(3) [OF ms_invD(2) [OF inv that]] by (simp add: vpns_of_set leD)
  obtain ms st' where run: "rfold (copy_user_area us) (areas us) (ms1, st1) = Inr (ms, st')"
    and rel: "fork_rel l trampoline_vpn us st (areas us) ms st'"
    using fork_rel_areas [OF inv _ rel1 nt] free free1 by fastforce
  have "MemorySet_from_existed_user strampoline' us st = Inr (ms, st')"
    unfolding MemorySet_from_existed_user_def rbind_assoc [symmetric] start using run by simp
  moreover have "set (owned_frames us) \<union> tables (frames (page_table us)) \<subseteq> fa_live l (mm_alloc st)"
    using ms_invD(4) [OF inv] pt_inv_tables(3) [OF ms_invD(1) [OF inv]] by simp
  then have "(set (owned_frames ms) \<union> tables (frames (page_table ms)))
        \<inter> (set (owned_frames us) \<union> tables (frames (page_table us))) = {}"
    using fork_relD(4,5) [OF rel] by blast
  moreover note fork_relD(1,2) [OF rel] fork_rel_source(1) [OF inv rel] fork_rel_page [OF inv rel]
  ultimately show ?thesis
    using fork_relD(6) [OF rel] unfolding same_page_def by blast
qed

theorem from_existed_user_isolates_witness:
  "\<exists>us st ms st'. rbind (MemorySet_new_bare example_mm) (insert_framed_area (VirtAddr 0x1000) (VirtAddr 0x3000) perm_RWU)
       = Inr (us, st)
     \<and> MemorySet_from_existed_user 0x80201000 us st = Inr (ms, st')
     \<and> set (owned_frames ms) \<inter> set (owned_frames us) = {} \<and> length (areas ms) = 1"
proof -
  obtain us st where e: "rbind (MemorySet_new_bare example_mm) (insert_framed_area (VirtAddr 0x1000) (VirtAddr 0x3000) perm_RWU)
      = Inr (us, st)" "ms_inv 0x80400 us st" "map area_shape (areas us) =
        [(\<lparr>range_l = VirtPageNum 1, range_r = VirtPageNum 3\<rparr>, perm_RWU)]" "100 \<le> fa_free (mm_alloc st)"
    using example_space by metis
  obtain a where a: "areas us = [a]" "vpn_range a = \<lparr>range_l = VirtPageNum 1, range_r = VirtPageNum 3\<rparr>"
    using e(3) by (auto simp: area_shape_def)
  have "length (vpns_of (vpn_range a)) = 2" using vpns_of_length [of "vpn_range a"] by (simp add: a(2) newtype_order)
  then have free: "3 + 3 * (\<Sum>a \<leftarrow> areas us. length (vpns_of (vpn_range a))) \<le> fa_free (mm_alloc st)"
    using e(4) by (simp add: a(1))
  have below: "range_r (vpn_range b) \<le> trampoline_vpn" if "b \<in> set (areas us)" for b
    using that by (simp add: a trampoline_vpn_eq newtype_order)
  have al: "PhysAddr_page_offset (PhysAddr_from 0x80201000) = 0"
    by (simp add: PhysAddr_page_offset_def PhysAddr_from_def config_defs)
  obtain ms st' where f: "MemorySet_from_existed_user 0x80201000 us st = Inr (ms, st')"
    "map area_shape (areas ms) = map area_shape (areas us)"
    "(set (owned_frames ms) \<union> tables (frames (page_table ms)))
        \<inter> (set (owned_frames us) \<union> tables (frames (page_table us))) = {}"
    using from_existed_user_isolates [OF e(2) al below free] by blast
  have "length (areas ms) = 1" using f(2) a(1) by (metis length_map One_nat_def length_Cons list.size(3))
  then show ?thesis using e(1) f(1,3) by blast
qed



text \<open>
  C17. \<open>munmap\<close> on every branch: it never panics; it fails with \<open>-1\<close> and changes nothing exactly
  when the length is zero, the address is not page aligned, the end of the range overflows, the
  range is empty, or no area covers exactly the range; otherwise it removes that area, unmaps its
  pages and only these, and returns exactly its frames to the allocator.
\<close>

theorem munmap_frees_area:
  assumes inv: "ms_inv l ms st"
  shows "let r = \<lparr>range_l = VirtAddr_floor (VirtAddr_from start), range_r = VirtAddr_ceil (VirtAddr_from (start + len))\<rparr>;
             ok = (len \<noteq> 0 \<and> VirtAddr_aligned (VirtAddr_from start) \<and> unat start + unat len < 2 ^ 64
                   \<and> range_l r < range_r r \<and> (\<exists>a \<in> set (areas ms). vpn_range a = r))
    in case MemorySet_munmap start len (ms, st) of
         Inl _ \<Rightarrow> False
       | Inr (Inl e, ms', st') \<Rightarrow> \<not> ok \<and> e = - 1 \<and> ms' = ms \<and> st' = st
       | Inr (Inr _, ms', st') \<Rightarrow> ok \<and> ms_inv l ms' st'
           \<and> (\<exists>xs a ys. areas ms = xs @ a # ys \<and> vpn_range a = r \<and> ms' = ms\<lparr>areas := xs @ ys\<rparr>
                \<and> fa_live l (mm_alloc st') = fa_live l (mm_alloc st) - set (area_frames a)
                \<and> fa_free (mm_alloc st') = fa_free (mm_alloc st) + length (area_frames a))
           \<and> (\<forall>v. unat (vpn0 v) < 2 ^ 27 \<longrightarrow> pt_lookup (page_table ms) st' v =
                (if v \<in> set (vpns_of r) then None else pt_lookup (page_table ms) st v))"
proof -
  define r where "r = \<lparr>range_l = VirtAddr_floor (VirtAddr_from start), range_r = VirtAddr_ceil (VirtAddr_from (start + len))\<rparr>"
  let ?P = "\<lambda>area. range_l (vpn_range area) = range_l r \<and> range_r (vpn_range area) = range_r r"
  have P: "?P a \<longleftrightarrow> vpn_range a = r" for a :: MapArea by (cases "vpn_range a"; cases r) auto
  show ?thesis
  proof (cases "len \<noteq> 0 \<and> VirtAddr_aligned (VirtAddr_from start) \<and> unat start + unat len < 2 ^ 64 \<and> range_l r < range_r r")
    case False
    then show ?thesis
      by (auto simp: Let_def MemorySet_munmap_def checked_add_def r_def not_less)
  next
    case True
    have m: "MemorySet_munmap start len (ms, st) = (case position ?P (areas ms) of
        None \<Rightarrow> Inr (Inl (- 1), ms, st) | Some idx \<Rightarrow> rbind (unmap_and_remove idx (ms, st)) (\<lambda>s'. Inr (Inr (), s')))"
      using True by (auto simp: MemorySet_munmap_def checked_add_def r_def Let_def dest: leD)
    show ?thesis
    proof (cases "position ?P (areas ms)")
      case None
      then have "\<not> (\<exists>a \<in> set (areas ms). vpn_range a = r)" using P by (auto simp: position_None_iff)
      then show ?thesis unfolding m None r_def [symmetric] Let_def by simp
    next
      case (Some idx)
      then have idx: "idx < length (areas ms)" "vpn_range (areas ms ! idx) = r"
        using position_SomeD [OF Some] P by blast+
      let ?a = "areas ms ! idx"
      let ?ps = "zip (vpns_of (vpn_range ?a)) (area_frames ?a)"
      obtain st' where u: "unmap_and_remove idx (ms, st) = Inr (ms\<lparr>areas := take idx (areas ms) @ drop (Suc idx) (areas ms)\<rparr>, st')"
        "unmaps l ?ps (page_table ms) st st'"
        "ms_inv l (ms\<lparr>areas := take idx (areas ms) @ drop (Suc idx) (areas ms)\<rparr>) st'"
        using unmap_and_remove_spec [OF inv list_split_at [OF idx(1)]] idx(1) by auto
      have len: "length (area_frames ?a) = length (vpns_of (vpn_range ?a))"
        using data_frames_zip(2) [OF area_okD(5) [OF ms_invD(2) [OF inv]]] idx(1) by simp
      have kv: "fst ` set ?ps = set (vpns_of r)" "snd ` set ?ps = set (area_frames ?a)" "length ?ps = length (area_frames ?a)"
        using len idx(2) by (metis map_fst_zip set_map, metis map_snd_zip set_map, simp)
      have "\<exists>xs a ys. areas ms = xs @ a # ys \<and> vpn_range a = r \<and>
            ms\<lparr>areas := take idx (areas ms) @ drop (Suc idx) (areas ms)\<rparr> = ms\<lparr>areas := xs @ ys\<rparr>
          \<and> fa_live l (mm_alloc st') = fa_live l (mm_alloc st) - set (area_frames a)
          \<and> fa_free (mm_alloc st') = fa_free (mm_alloc st) + length (area_frames a)"
        using list_split_at [OF idx(1)] idx(2) unmapsD(2,3) [OF u(2)] kv by metis
      moreover have "\<exists>a \<in> set (areas ms). vpn_range a = r" using idx nth_mem by blast
      ultimately show ?thesis
        using True u(1,3) unmapsD(4) [OF u(2)] unfolding m Some r_def [symmetric] Let_def kv by simp
    qed
  qed
qed

theorem munmap_frees_area_witness:
  "\<exists>us st ms st'. rbind (MemorySet_new_bare example_mm) (insert_framed_area (VirtAddr 0x1000) (VirtAddr 0x3000) perm_RWU)
       = Inr (us, st)
     \<and> MemorySet_munmap 0x1000 0x2000 (us, st) = Inr (Inr (), ms, st') \<and> areas ms = []
     \<and> pt_lookup (page_table us) st' (VirtPageNum 2) = None"
proof -
  obtain us st where e: "rbind (MemorySet_new_bare example_mm) (insert_framed_area (VirtAddr 0x1000) (VirtAddr 0x3000) perm_RWU)
      = Inr (us, st)" "ms_inv 0x80400 us st" "map area_shape (areas us) =
        [(\<lparr>range_l = VirtPageNum 1, range_r = VirtPageNum 3\<rparr>, perm_RWU)]"
    using example_space by metis
  obtain a where a: "areas us = [a]" "vpn_range a = \<lparr>range_l = VirtPageNum 1, range_r = VirtPageNum 3\<rparr>"
    using e(3) by (auto simp: area_shape_def)
  have fc: "VirtAddr_floor (VirtAddr_from 0x1000) = VirtPageNum 1" "VirtAddr_ceil (VirtAddr_from 0x3000) = VirtPageNum 3"
    "VirtAddr_aligned (VirtAddr_from 0x1000)" "(0x1000 :: usize) + 0x2000 = 0x3000"
    by (simp_all add: VirtAddr_floor_def VirtAddr_ceil_def VirtAddr_from_def VirtAddr_aligned_def
        VirtAddr_page_offset_def config_defs)
  note m = munmap_frees_area [OF e(2), of "0x1000" "0x2000", unfolded fc Let_def a(1)]
  have two: "VirtPageNum 2 \<in> set (vpns_of \<lparr>range_l = VirtPageNum 1, range_r = VirtPageNum 3\<rparr>)"
    by (simp add: vpns_of_set newtype_order)
  obtain x ms st' where x: "MemorySet_munmap 0x1000 0x2000 (us, st) = Inr (x, ms, st')"
    using m by (cases "MemorySet_munmap 0x1000 0x2000 (us, st)") auto
  then have r: "MemorySet_munmap 0x1000 0x2000 (us, st) = Inr (Inr (), ms, st')"
    using m a(2) fc(3) by (cases x) (auto simp: newtype_order)
  then have "areas ms = []" "pt_lookup (page_table us) st' (VirtPageNum 2) = None"
    using m two by (auto simp: Cons_eq_append_conv)
  then show ?thesis using e(1) r by blast
qed

section \<open>Searching and mapping\<close>

lemma page_of_addr:
  assumes "n < 2 ^ 26"
  shows "VirtAddr_floor (VirtAddr_from (of_nat (4096 * n))) = VirtPageNum (of_nat n)"
    "VirtAddr_ceil (VirtAddr_from (of_nat (4096 * n))) = VirtPageNum (of_nat n)"
    "usize_from_VirtAddr (VirtAddr_from_VirtPageNum (VirtPageNum (of_nat n))) = of_nat (4096 * n)"
proof -
  let ?a = "of_nat (4096 * n) :: usize"
  have u: "unat ?a = 4096 * n" "unat (of_nat n :: usize) = n" 
    using assms by (simp_all add: unat_of_nat take_bit_nat_eq_self del: of_nat_mult)
  have va: "va0 (VirtAddr_from ?a) = ?a"
    using assms u by (simp only: from_take_bit VirtAddr.sel) (simp add: take_bit_word_self del: of_nat_mult)
  show "VirtAddr_floor (VirtAddr_from ?a) = VirtPageNum (of_nat n)"
    using unat_floor [of "VirtAddr_from ?a"] u va by (simp add: VirtPageNum.expand word_unat_eq_iff)
  show "VirtAddr_ceil (VirtAddr_from ?a) = VirtPageNum (of_nat n)"
    using unat_ceil [of "VirtAddr_from ?a"] u va assms by (simp add: VirtPageNum.expand word_unat_eq_iff)
  have "push_bit 12 (of_nat n :: usize) = ?a" by (simp add: push_bit_eq_mult)
  then show "usize_from_VirtAddr (VirtAddr_from_VirtPageNum (VirtPageNum (of_nat n))) = ?a"
    using u assms by (simp add: usize_from_VirtAddr_def from_vpn_push_bit config_defs word_le_nat_alt)
qed

text \<open>
  The areas of a user address space lie in one half of the 39-bit space each: an area of the upper
  half has addresses above every address of the lower half.
\<close>

definition area_in_half :: "MapArea \<Rightarrow> bool" where
  "area_in_half a \<longleftrightarrow> range_l (vpn_range a) \<le> range_r (vpn_range a)
     \<and> unat (vpn0 (range_r (vpn_range a))) \<le> 2 ^ 27
     \<and> (unat (vpn0 (range_r (vpn_range a))) < 2 ^ 26 \<or> 2 ^ 26 \<le> unat (vpn0 (range_l (vpn_range a))))"

lemma upper_half_addr:
  assumes "2 ^ 26 \<le> unat (vpn0 v)" "unat (vpn0 v) < 2 ^ 27" "n < 2 ^ 26"
  shows "\<not> usize_from_VirtAddr (VirtAddr_from_VirtPageNum v) \<le> of_nat (4096 * n)"
proof -
  let ?x = "usize_from_VirtAddr (VirtAddr_from_VirtPageNum v)"
  have u: "unat (push_bit 12 (vpn0 v)) = 4096 * unat (vpn0 v)"
    using assms(2) unat_mult_nowrap [of 4096 "vpn0 v"] by (simp add: push_bit_eq_mult mult.commute)
  have ge: "push_bit 38 (1 :: usize) \<le> push_bit 12 (vpn0 v)" using u assms(1) by (simp add: word_le_nat_alt)
  then have x: "?x = push_bit 12 (vpn0 v) OR NOT (push_bit 39 1 - 1)"
    by (simp add: usize_from_VirtAddr_def from_vpn_push_bit config_defs)
  have "push_bit 12 (vpn0 v) AND ?x = push_bit 12 (vpn0 v)" unfolding x by (rule bit_word_eqI) (auto simp: bit_simps)
  then have "push_bit 12 (vpn0 v) \<le> ?x" by (metis word_and_le1)
  then have "2 ^ 38 \<le> unat ?x" using ge by (simp add: word_le_nat_alt)
  moreover have "unat (of_nat (4096 * n) :: usize) < 2 ^ 38" using assms(3) by (simp add: unat_of_nat take_bit_nat_eq_self del: of_nat_mult)
  ultimately show ?thesis by (simp add: word_le_nat_alt del: of_nat_mult)
qed

lemma next_search_addr_page:
  assumes half: "list_all area_in_half as" and n: "n < B" "B < 2 ^ 26"
    and gap: "\<not> overlaps_any as (VirtPageNum (of_nat B)) (VirtPageNum (of_nat (B + k)))" and k: "B + k < 2 ^ 26"
  obtains n' where "next_search_addr as (of_nat (4096 * n)) = of_nat (4096 * n')" "n < n'" "n' \<le> B"
proof -
  let ?addr = "of_nat (4096 * n) :: usize"
  let ?in = "\<lambda>area. usize_from_VirtAddr (VirtAddr_from_VirtPageNum (range_l (vpn_range area))) \<le> ?addr
      \<and> ?addr < usize_from_VirtAddr (VirtAddr_from_VirtPageNum (range_r (vpn_range area)))"
  show thesis
  proof (cases "find ?in as")
    case None
    have "?addr + PAGE_SIZE = of_nat (4096 * (n + 1))" by (simp add: config_defs)
    then show thesis using that [of "n + 1"] None n(1) by (simp add: next_search_addr_def)
  next
    case (Some a)
    then have a: "a \<in> set as" "?in a" by (auto simp: find_Some_iff)
    then have ha: "area_in_half a" using half by (simp add: list_all_iff)
    let ?l = "unat (vpn0 (range_l (vpn_range a)))" and ?r = "unat (vpn0 (range_r (vpn_range a)))"
    have lr: "?l \<le> ?r" "?r \<le> 2 ^ 27" "?r < 2 ^ 26 \<or> 2 ^ 26 \<le> ?l"
      using ha by (auto simp: area_in_half_def newtype_order word_le_nat_alt)
    have pg: "v = VirtPageNum (of_nat (unat (vpn0 v)))" for v by (cases v) simp
    have r: "?r < 2 ^ 26"
    proof (rule ccontr)
      assume "\<not> ?r < 2 ^ 26"
      then have l: "2 ^ 26 \<le> ?l" using lr by simp
      show False
      proof (cases "?l < 2 ^ 27")
        case True
        then show False using upper_half_addr [OF l True, of n] a(2) n by simp
      next
        case False
        then have "range_l (vpn_range a) = range_r (vpn_range a)"
          using lr by (simp add: VirtPageNum.expand word_unat_eq_iff)
        then show False using a(2) by (auto dest: leD)
      qed
    qed
    have u: "unat (of_nat (4096 * m) :: usize) = 4096 * m" if "m < 2 ^ 26" for m
      using that by (simp add: unat_of_nat take_bit_nat_eq_self del: of_nat_mult)
    have "usize_from_VirtAddr (VirtAddr_from_VirtPageNum (range_l (vpn_range a))) = of_nat (4096 * ?l)"
      and er: "usize_from_VirtAddr (VirtAddr_from_VirtPageNum (range_r (vpn_range a))) = of_nat (4096 * ?r)"
      using page_of_addr(3) [of ?l] page_of_addr(3) [of ?r] pg lr(1) r by simp_all
    then have nr: "?l \<le> n" "n < ?r"
      using a(2) u [of ?l] u [of ?r] u [of n] lr(1) r n by (simp_all add: word_le_nat_alt word_less_nat_alt del: of_nat_mult)
    have "check_overlapping a (VirtPageNum (of_nat B)) (VirtPageNum (of_nat (B + k))) = None"
      using gap a(1) unfolding overlaps_any_def list_ex_iff by blast
    then have "B + k < ?l \<or> ?r < B"
      using k n by (auto simp: check_overlapping_def Let_def newtype_order word_less_nat_alt unat_of_nat
          take_bit_nat_eq_self simp del: of_nat_add split: if_splits)
    then show thesis using that [of ?r] Some er nr n(1) by (simp add: next_search_addr_def)
  qed
qed

lemma find_free_area_loop_gap:
  assumes half: "list_all area_in_half as" and B: "n \<le> B" "B + k < 2 ^ 26"
    and gap: "\<not> overlaps_any as (VirtPageNum (of_nat B)) (VirtPageNum (of_nat (B + k)))"
  shows "\<exists>m. n \<le> m \<and> m \<le> B \<and> find_free_area_loop as (of_nat (4096 * k)) (of_nat (4096 * n)) = Some (of_nat (4096 * m))
    \<and> \<not> overlaps_any as (VirtPageNum (of_nat m)) (VirtPageNum (of_nat (m + k)))"
  using B(1)
proof (induction "B - n" arbitrary: n rule: less_induct)
  case less
  have pages: "VirtAddr_floor (VirtAddr_from (of_nat (4096 * n))) = VirtPageNum (of_nat n)"
    "VirtAddr_ceil (VirtAddr_from (of_nat (4096 * n) + of_nat (4096 * k))) = VirtPageNum (of_nat (n + k))"
    using page_of_addr(1) [of n] page_of_addr(2) [of "n + k"] less.prems B(2) by (simp_all add: distrib_left)
  show ?case
  proof (cases "overlaps_any as (VirtPageNum (of_nat n)) (VirtPageNum (of_nat (n + k)))")
    case False
    then show ?thesis
      using pages less.prems by (subst find_free_area_loop.simps) (auto simp del: of_nat_mult of_nat_add)
  next
    case True
    then have "n < B" using gap less.prems by (cases "n = B") auto
    then obtain n' where n': "next_search_addr as (of_nat (4096 * n)) = of_nat (4096 * n')" "n < n'" "n' \<le> B"
      using next_search_addr_page [OF half _ _ gap B(2)] B(2) by (metis add_lessD1)
    then have step: "find_free_area_loop as (of_nat (4096 * k)) (of_nat (4096 * n))
        = find_free_area_loop as (of_nat (4096 * k)) (of_nat (4096 * n'))"
      using pages True by (subst find_free_area_loop.simps) (simp del: of_nat_mult of_nat_add)
    obtain m where "n' \<le> m" "m \<le> B"
      "find_free_area_loop as (of_nat (4096 * k)) (of_nat (4096 * n')) = Some (of_nat (4096 * m))"
      "\<not> overlaps_any as (VirtPageNum (of_nat m)) (VirtPageNum (of_nat (m + k)))"
      using less.hyps [OF _ n'(3)] diff_less_mono2 [OF n'(2) \<open>n < B\<close>] by blast
    then show ?thesis unfolding step using n'(2) by (intro exI [of _ m]) simp
  qed
qed



lemma low_address:
  assumes "unat a < 2 ^ 38"
  shows "VirtAddr_from a = VirtAddr a" "usize_from_VirtAddr (VirtAddr_from a) = a"
proof -
  show "VirtAddr_from a = VirtAddr a"
    using assms by (simp only: from_take_bit) (simp add: take_bit_word_self)
  then show "usize_from_VirtAddr (VirtAddr_from a) = a"
    using assms by (simp add: usize_from_VirtAddr_def config_defs word_le_nat_alt)
qed

lemma munmap_last_area:
  assumes inv: "ms_inv l ms st" and areas: "areas ms = xs @ [a]"
    and r: "vpn_range a = \<lparr>range_l = VirtAddr_floor (VirtAddr_from start),
      range_r = VirtAddr_ceil (VirtAddr_from (start + len))\<rparr>" "range_l (vpn_range a) < range_r (vpn_range a)"
    and ok: "len \<noteq> 0" "VirtAddr_aligned (VirtAddr_from start)" "unat start + unat len < 2 ^ 64"
  shows "\<exists>st'. MemorySet_munmap start len (ms, st) = Inr (Inr (), ms\<lparr>areas := xs\<rparr>, st')
    \<and> unmaps l (zip (vpns_of (vpn_range a)) (area_frames a)) (page_table ms) st st'
    \<and> ms_inv l (ms\<lparr>areas := xs\<rparr>) st'"
proof -
  let ?P = "\<lambda>area. range_l (vpn_range area) = VirtAddr_floor (VirtAddr_from start)
      \<and> range_r (vpn_range area) = VirtAddr_ceil (VirtAddr_from (start + len))"
  have "\<not> ?P b" if b: "b \<in> set xs" for b
  proof
    assume "?P b"
    then have "vpn_range b = vpn_range a" using r(1) by (cases "vpn_range b") simp
    moreover have "range_l (vpn_range a) \<in> area_pages a" using r(2) by (simp add: vpns_of_set)
    ultimately show False using areas_disjoint(1) [OF inv, of xs a "[]" b] areas b by auto
  qed
  then have "\<not> ?P ((xs @ [a]) ! j)" if "j < length xs" for j using that by (simp add: nth_append)
  then have "position ?P (areas ms) = Some (length xs)"
    unfolding areas position_Some_iff using r(1) by simp
  moreover obtain st' where "unmap_and_remove (length xs) (ms, st) = Inr (ms\<lparr>areas := xs\<rparr>, st')"
    "unmaps l (zip (vpns_of (vpn_range a)) (area_frames a)) (page_table ms) st st'"
    "ms_inv l (ms\<lparr>areas := xs\<rparr>) st'"
    using unmap_and_remove_spec [OF inv, of xs a "[]"] areas by auto
  ultimately show ?thesis
    using ok r by (auto simp: MemorySet_munmap_def checked_add_def Let_def dest: leD)
qed

lemma prot_perm:
  "(case bitflags_from_bits MapPermission_all b of None \<Rightarrow> perm_RWU | Some p \<Rightarrow> p) AND NOT MapPermission_all = 0"
  by (simp add: bitflags_from_bits_def perm_defs split: if_splits)

text \<open>
  C18. \<open>mmap\<close> and \<open>munmap\<close> are inverse: an anonymous mapping at a page-aligned address of the lower
  half, in a range that no area overlaps or touches and whose pages are free, succeeds and returns
  the address asked for; unmapping the same range then succeeds, and the address space has the
  areas and the map of pages it had before, with no frame lost but those of new page tables.
\<close>

theorem mmap_munmap_roundtrip:
  assumes inv: "ms_inv l ms st" and start: "start \<noteq> 0" "VirtAddr_aligned (VirtAddr_from start)"
    and len: "len \<noteq> 0" "unat start + unat len < 2 ^ 38"
    and gap: "\<not> overlaps_any (areas ms) (VirtAddr_floor (VirtAddr start)) (VirtAddr_ceil (VirtAddr (start + len)))"
    and none: "\<forall>v \<in> {VirtAddr_floor (VirtAddr start) ..< VirtAddr_ceil (VirtAddr (start + len))}.
      pt_lookup (page_table ms) st v = None"
    and free: "3 * ((unat start + unat len + 4095) div 4096 - unat start div 4096) \<le> fa_free (mm_alloc st)"
  shows "\<exists>ms1 st1 ms2 st2. MemorySet_mmap start len prot flags None off (ms, st) = Some (Inr (Inr start, ms1, st1))
    \<and> MemorySet_munmap start len (ms1, st1) = Inr (Inr (), ms2, st2)
    \<and> areas ms2 = areas ms \<and> ms_inv l ms2 st2
    \<and> (\<forall>v. unat (vpn0 v) < 2 ^ 27 \<longrightarrow> pt_lookup (page_table ms2) st2 v = pt_lookup (page_table ms) st v)
    \<and> fa_live l (mm_alloc st2) - tables (frames (page_table ms2)) = fa_live l (mm_alloc st) - tables (frames (page_table ms))"
proof -
  define perm where "perm = (case bitflags_from_bits MapPermission_all (ucast prot :: u8) of None \<Rightarrow> perm_RWU | Some p \<Rightarrow> p)"
  let ?s = "VirtAddr start" and ?e = "VirtAddr (start + len)"
  have sum: "unat (start + len) = unat start + unat len" using len(2) by (subst unat_add_lem [THEN iffD1]) simp_all
  have va: "VirtAddr_from start = ?s" "usize_from_VirtAddr ?s = start" "VirtAddr_from (start + len) = ?e"
    using low_address [of start] low_address(1) [of "start + len"] len(2) sum by auto
  have fl: "unat (vpn0 (VirtAddr_floor ?s)) = unat start div 4096"
    and ce: "unat (vpn0 (VirtAddr_ceil ?e)) = (unat start + unat len + 4095) div 4096"
    using unat_floor [of ?s] unat_ceil [of ?e] sum len(2) by simp_all
  have "0 < unat len" using len(1) by (simp add: unat_gt_0)
  then have lt: "VirtAddr_floor ?s < VirtAddr_ceil ?e"
    using fl ce by (simp add: newtype_order word_less_nat_alt)
  have r: "VirtAddr_floor ?s \<le> VirtAddr_ceil ?e" "unat (vpn0 (VirtAddr_ceil ?e)) \<le> 2 ^ 27"
    using lt ce len(2) by auto
  obtain ms1 st1 a ps where ins: "insert_framed_area ?s ?e perm (ms, st) = Inr (ms1, st1)" and inv1: "ms_inv l ms1 st1"
    and a: "areas ms1 = areas ms @ [a]" "vpn_range a = \<lparr>range_l = VirtAddr_floor ?s, range_r = VirtAddr_ceil ?e\<rparr>"
    and ps: "map fst ps = vpns_of (vpn_range a)" "map snd ps = area_frames a"
    and m: "maps l perm ps (page_table ms) st (page_table ms1) st1"
    using insert_framed_area_spec [OF inv r _ none] prot_perm free unfolding perm_def fl ce by blast
  have new: "MapArea_new ?s ?e Framed perm = Inr \<lparr>vpn_range = \<lparr>range_l = VirtAddr_floor ?s, range_r = VirtAddr_ceil ?e\<rparr>,
      data_frames = [], map_type = Framed, map_perm = perm\<rparr>"
    using r(1) by (simp add: MapArea_new_def SimpleRange_new_def)
  have ov: "unat start + unat len < 2 ^ 64" using len(2) by simp
  have run: "MemorySet_mmap start len prot flags None off (ms, st) = Some (Inr (Inr start, ms1, st1))"
    using start len(1) gap ins new ov va
    by (simp add: MemorySet_mmap_def mmap_at_def checked_add_def Let_def perm_def [symmetric])
  have ra: "vpn_range a = \<lparr>range_l = VirtAddr_floor (VirtAddr_from start), range_r = VirtAddr_ceil (VirtAddr_from (start + len))\<rparr>"
    using a(2) va by simp
  obtain st2 where un: "MemorySet_munmap start len (ms1, st1) = Inr (Inr (), ms1\<lparr>areas := areas ms\<rparr>, st2)"
    and u: "unmaps l (zip (vpns_of (vpn_range a)) (area_frames a)) (page_table ms1) st1 st2"
    and inv2: "ms_inv l (ms1\<lparr>areas := areas ms\<rparr>) st2"
    using munmap_last_area [OF inv1 a(1) ra _ len(1) start(2) ov] lt a(2) by auto
  have zip: "zip (vpns_of (vpn_range a)) (area_frames a) = ps" using ps by (metis zip_map_fst_snd)
  have look: "pt_lookup (page_table ms1) st2 v = pt_lookup (page_table ms) st v" if v: "unat (vpn0 v) < 2 ^ 27" for v
  proof (cases "v \<in> fst ` set ps")
    case True
    then have "v \<in> area_pages a" using ps(1) by (metis set_map)
    then have "v \<in> {VirtAddr_floor ?s ..< VirtAddr_ceil ?e}" using r(1) by (simp add: vpns_of_set a(2))
    then show ?thesis using unmapsD(4) [OF u v] True none zip by simp
  next
    case False
    then have "map_of ps v = None" by (simp add: map_of_eq_None_iff)
    then show ?thesis using unmapsD(4) [OF u v] False zip mapsD(4) [OF m v] by simp
  qed
  obtain fs where fs: "takes_frames l fs (map snd ps) (page_table ms) st (page_table ms1) st1" using mapsD(3) [OF m] by blast
  have "fa_live l (mm_alloc st2) - tables (frames (page_table ms1)) = fa_live l (mm_alloc st) - tables (frames (page_table ms))"
    using unmapsD(2) [OF u] takes_framesD(1,3,7,8) [OF fs] unfolding zip by auto
  then show ?thesis
    using run un inv2 look by (intro exI [of _ ms1] exI [of _ st1] exI [of _ "ms1\<lparr>areas := areas ms\<rparr>"] exI [of _ st2]) simp
qed

theorem mmap_munmap_roundtrip_witness:
  "\<exists>us st ms1 st1 ms2 st2.
     rbind (MemorySet_new_bare example_mm) (insert_framed_area (VirtAddr 0x1000) (VirtAddr 0x3000) perm_RWU) = Inr (us, st)
     \<and> MemorySet_mmap 0x5000 0x1800 3 0 None 0 (us, st) = Some (Inr (Inr 0x5000, ms1, st1))
     \<and> MemorySet_munmap 0x5000 0x1800 (ms1, st1) = Inr (Inr (), ms2, st2) \<and> areas ms2 = areas us"
proof -
  obtain us st where e: "rbind (MemorySet_new_bare example_mm) (insert_framed_area (VirtAddr 0x1000) (VirtAddr 0x3000) perm_RWU)
      = Inr (us, st)" "ms_inv 0x80400 us st" "100 \<le> fa_free (mm_alloc st)"
    "map area_shape (areas us) = [(\<lparr>range_l = VirtPageNum 1, range_r = VirtPageNum 3\<rparr>, perm_RWU)]"
    and none: "\<And>w. unat (vpn0 w) < 2 ^ 27 \<Longrightarrow> w < VirtPageNum 1 \<or> VirtPageNum 3 \<le> w \<Longrightarrow> pt_lookup (page_table us) st w = None"
    using example_space by metis
  have fc: "VirtAddr_floor (VirtAddr 0x5000) = VirtPageNum 5" "VirtAddr_ceil (VirtAddr (0x5000 + 0x1800)) = VirtPageNum 7"
    "VirtAddr_aligned (VirtAddr_from 0x5000)"
    by (simp_all add: VirtAddr_floor_def VirtAddr_ceil_def VirtAddr_from_def VirtAddr_aligned_def
        VirtAddr_page_offset_def config_defs)
  have n: "\<forall>v \<in> {VirtPageNum 5 ..< VirtPageNum 7}. pt_lookup (page_table us) st v = None"
    using none by (simp add: newtype_order word_le_nat_alt word_less_nat_alt)
  obtain a where "areas us = [a]" "vpn_range a = \<lparr>range_l = VirtPageNum 1, range_r = VirtPageNum 3\<rparr>"
    using e(4) by (auto simp: area_shape_def)
  then have gap: "\<not> overlaps_any (areas us) (VirtPageNum 5) (VirtPageNum 7)"
    by (simp add: overlaps_any_def check_overlapping_def newtype_order)
  show ?thesis
    using mmap_munmap_roundtrip [OF e(2), of "0x5000" "0x1800" 3 0 0, unfolded fc, OF _ _ _ _ gap n] fc(3) e(1,3)
    by fastforce
qed

text \<open>
  \<open>check_overlapping\<close> treats ranges that only touch as overlapping, so \<open>mmap\<close> refuses a fixed
  address directly above an area although no page is shared: it returns \<open>-1\<close> and changes nothing.
\<close>

lemma mmap_adjacent_refused:
  assumes "a \<in> set (areas ms)" "range_l (vpn_range a) \<le> range_r (vpn_range a)"
    and "range_r (vpn_range a) = VirtAddr_floor (VirtAddr_from start)"
    and "range_r (vpn_range a) \<le> VirtAddr_ceil (VirtAddr_from (start + len))"
    and "start \<noteq> 0" "unat start + unat len < 2 ^ 38"
  shows "MemorySet_mmap start len prot flags file off (ms, st) = Some (Inr (Inl (- 1), ms, st))
    \<and> area_pages a \<inter> {VirtAddr_floor (VirtAddr_from start) ..< VirtAddr_ceil (VirtAddr_from (start + len))} = {}"
proof
  have "check_overlapping a (VirtAddr_floor (VirtAddr_from start)) (VirtAddr_ceil (VirtAddr_from (start + len))) \<noteq> None"
    using assms(2-4) by (auto simp: check_overlapping_def Let_def)
  then have "overlaps_any (areas ms) (VirtAddr_floor (VirtAddr_from start)) (VirtAddr_ceil (VirtAddr_from (start + len)))"
    using assms(1) unfolding overlaps_any_def list_ex_iff by blast
  then show "MemorySet_mmap start len prot flags file off (ms, st) = Some (Inr (Inl (- 1), ms, st))"
    using assms(5,6) low_address(2) [of start]
    by (auto simp: MemorySet_mmap_def mmap_at_def checked_add_def Let_def)
  show "area_pages a \<inter> {VirtAddr_floor (VirtAddr_from start) ..< VirtAddr_ceil (VirtAddr_from (start + len))} = {}"
    using assms(2,3) by (auto simp: vpns_of_set dest: leD)
qed

lemma mmap_adjacent_refused_witness:
  "MemorySet_mmap 0x12000 0x1000 3 0 None 0 (\<lparr>page_table = \<lparr>root_ppn = PhysPageNum 0, frames = []\<rparr>,
        areas = [\<lparr>vpn_range = \<lparr>range_l = VirtPageNum 0x10, range_r = VirtPageNum 0x12\<rparr>, data_frames = [],
                  map_type = Framed, map_perm = 0\<rparr>], brk = 0x10000, heap_start = 0x10000\<rparr>, example_mm)
     = Some (Inr (Inl (- 1), \<lparr>page_table = \<lparr>root_ppn = PhysPageNum 0, frames = []\<rparr>,
        areas = [\<lparr>vpn_range = \<lparr>range_l = VirtPageNum 0x10, range_r = VirtPageNum 0x12\<rparr>, data_frames = [],
                  map_type = Framed, map_perm = 0\<rparr>], brk = 0x10000, heap_start = 0x10000\<rparr>, example_mm))"
proof -
  let ?a = "\<lparr>vpn_range = \<lparr>range_l = VirtPageNum 0x10, range_r = VirtPageNum 0x12\<rparr>, data_frames = [],
      map_type = Framed, map_perm = 0\<rparr>"
  let ?ms = "\<lparr>page_table = \<lparr>root_ppn = PhysPageNum 0, frames = []\<rparr>, areas = [?a], brk = 0x10000, heap_start = 0x10000\<rparr>"
  have "VirtAddr_floor (VirtAddr_from 0x12000) = VirtPageNum 0x12" "VirtAddr_ceil (VirtAddr_from (0x12000 + 0x1000)) = VirtPageNum 0x13"
    by (simp_all add: VirtAddr_floor_def VirtAddr_ceil_def VirtAddr_from_def config_defs)
  then show ?thesis
    using mmap_adjacent_refused [of ?a ?ms "0x12000" "0x1000" 3 0 None 0 example_mm] by (simp add: newtype_order)
qed

end
