(* ===== verification/Vfs.thy ===== *)
theory Vfs
  imports User_Memory
begin

text \<open>
  The data of the file layer: \<open>os/src/fs/file.rs\<close> (\<open>UserStat\<close>, directory entries, the mode
  constants) and the standard streams of \<open>os/src/fs/stdio.rs\<close>. \<open>Stat\<close> has the fields of
  \<open>UserStat\<close> (two of them in an \<open>UnsafeCell\<close>), so one record stands for both.
\<close>

section \<open>\<open>file.rs\<close>\<close>

definition S_IFREG :: u32 where "S_IFREG = 0x8000"
definition S_IFDIR :: u32 where "S_IFDIR = 0x4000"
definition BLK_SIZE :: u32 where "BLK_SIZE = 512"

lemmas mode_defs = S_IFREG_def S_IFDIR_def BLK_SIZE_def

record UserStat =
  st_dev :: u64
  st_ino :: u64
  st_mode :: u32
  st_nlink :: u32
  st_uid :: u32
  st_gid :: u32
  st_rdev :: u64
  st_pad :: u64
  st_size :: i64
  st_blksize :: u32
  st_pad2 :: i32
  st_blocks :: u64
  st_atime_sec :: i64
  st_atime_nsec :: i64
  st_mtime_sec :: i64
  st_mtime_nsec :: i64
  st_ctime_sec :: i64
  st_ctime_nsec :: i64
  st_unused :: "u32 list"

type_synonym Stat = UserStat

record LinuxDirent64 =
  d_ino :: u64
  d_off :: i64
  d_reclen :: u16
  d_type :: u8
  d_name :: "u8 list"

text \<open>The name of a \<open>DirEntry\<close> is the UTF-8 encoding of the \<open>String\<close>.\<close>

record DirEntry =
  de_name :: "u8 list"
  de_is_dir :: bool

section \<open>\<open>stdio.rs\<close>\<close>

text \<open>
  \<open>console_getchar\<close> is the firmware's; its answers are a list, \<open>- 1\<close> (\<open>usize::MAX\<close>) standing for
  no input. Reading ends at the first other answer: \<open>None\<close> is a list without one.
\<close>

fun wait_char :: "usize list \<Rightarrow> (usize \<times> usize list) option" where
  "wait_char [] = None"
| "wait_char (c # cs) = (if c \<noteq> - 1 then Some (c, cs) else wait_char cs)"

definition Stdin_read :: "UserBuffer \<Rightarrow> usize list \<Rightarrow> memory \<Rightarrow> ((nat \<times> usize list \<times> memory) result) option" where
  "Stdin_read user_buf console m =
     (if UserBuffer_len user_buf \<noteq> 1 then Some (Inl Assert_Failed)
      else case wait_char console of
             None \<Rightarrow> None
           | Some (ch, console') \<Rightarrow>
               (case buffers user_buf of
                  [] \<Rightarrow> Some (Inl Index_Out_Of_Range)
                | b # _ \<Rightarrow> Some (Inr (1, console', m(sl_addr b := ucast ch)))))"

definition Stdin_write :: "UserBuffer \<Rightarrow> nat result" where
  "Stdin_write user_buf = Inl Explicit_Panic"

definition Stdout_read :: "UserBuffer \<Rightarrow> nat result" where
  "Stdout_read user_buf = Inl Explicit_Panic"

text \<open>
  \<open>core::str::from_utf8\<close> is an argument (\<open>None\<close>: not valid UTF-8); printing appends to the console
  output.
\<close>

definition Stdout_write ::
  "(u8 list \<Rightarrow> string option) \<Rightarrow> UserBuffer \<Rightarrow> memory \<Rightarrow> string \<Rightarrow> (nat \<times> string) result" where
  "Stdout_write from_utf8 user_buf m out =
     rbind (rfold (\<lambda>b out. rbind (unwrap (from_utf8 (read_bytes m (sl_addr b) (sl_len b)))) (\<lambda>s. Inr (out @ s)))
              (buffers user_buf) out) (\<lambda>out'.
     Inr (UserBuffer_len user_buf, out'))"

end
