(* ===== verification/Pipe.thy ===== *)
theory Pipe
  imports Vfs
begin

text \<open>
  Pipes: \<open>os/src/fs/pipe.rs\<close>. The ring buffer refines a bounded queue of bytes (locale
  \<open>bounded_queue\<close>); \<open>read\<close> and \<open>write\<close> are loops that suspend the calling task when the ring is
  empty or full, so they are modelled round by round and their interleavings by a step relation.
\<close>

section \<open>The ring buffer\<close>

definition RING_BUFFER_SIZE :: usize where "RING_BUFFER_SIZE = 32"

datatype RingBufferStatus = Full | Empty | Normal

text \<open>
  The \<open>Weak<Pipe>\<close> of \<open>write_end\<close> is represented by the number of strong references to its
  target: \<open>upgrade()\<close> is \<open>None\<close> when it is zero.
\<close>

record PipeRingBuffer =
  arr :: "u8 list"
  head :: usize
  tail :: usize
  status :: RingBufferStatus
  write_end :: "nat option"

definition PipeRingBuffer_new :: PipeRingBuffer where
  "PipeRingBuffer_new =
     \<lparr>arr = replicate (unat RING_BUFFER_SIZE) 0, head = 0, tail = 0, status = Empty, write_end = None\<rparr>"

definition set_write_end :: "nat \<Rightarrow> PipeRingBuffer \<Rightarrow> PipeRingBuffer" where
  "set_write_end strong rb = rb\<lparr>write_end := Some strong\<rparr>"

definition write_byte :: "u8 \<Rightarrow> PipeRingBuffer \<Rightarrow> PipeRingBuffer result" where
  "write_byte byte rb =
     (let rb = rb\<lparr>status := Normal\<rparr>
      in rbind (store_at (arr rb) (unat (tail rb)) byte) (\<lambda>a.
         let rb = rb\<lparr>arr := a, tail := (tail rb + 1) mod RING_BUFFER_SIZE\<rparr>
         in Inr (if tail rb = head rb then rb\<lparr>status := Full\<rparr> else rb)))"

definition read_byte :: "PipeRingBuffer \<Rightarrow> (u8 \<times> PipeRingBuffer) result" where
  "read_byte rb =
     (let rb = rb\<lparr>status := Normal\<rparr>
      in rbind (index_at (arr rb) (unat (head rb))) (\<lambda>c.
         let rb = rb\<lparr>head := (head rb + 1) mod RING_BUFFER_SIZE\<rparr>
         in Inr (c, if head rb = tail rb then rb\<lparr>status := Empty\<rparr> else rb)))"

definition available_read :: "PipeRingBuffer \<Rightarrow> usize" where
  "available_read rb =
     (if status rb = Empty then 0
      else if tail rb > head rb then tail rb - head rb
      else tail rb + RING_BUFFER_SIZE - head rb)"

definition available_write :: "PipeRingBuffer \<Rightarrow> usize" where
  "available_write rb =
     (if status rb = Full then 0 else RING_BUFFER_SIZE - available_read rb)"

definition all_write_ends_closed :: "PipeRingBuffer \<Rightarrow> bool result" where
  "all_write_ends_closed rb = rbind (unwrap (write_end rb)) (\<lambda>n. Inr (n = 0))"

section \<open>The pipe\<close>

text \<open>The two ends share the ring, which is passed separately.\<close>

record Pipe =
  readable :: bool
  writable :: bool
  nonblocking :: bool

definition read_end_with_buffer :: Pipe where
  "read_end_with_buffer = \<lparr>readable = True, writable = False, nonblocking = False\<rparr>"

definition write_end_with_buffer :: Pipe where
  "write_end_with_buffer = \<lparr>readable = False, writable = True, nonblocking = False\<rparr>"

definition set_nonblocking :: "bool \<Rightarrow> Pipe \<Rightarrow> Pipe" where
  "set_nonblocking nb p = p\<lparr>nonblocking := nb\<rparr>"

definition make_pipe :: "Pipe \<times> Pipe \<times> PipeRingBuffer" where
  "make_pipe = (read_end_with_buffer, write_end_with_buffer, set_write_end 1 PipeRingBuffer_new)"

text \<open>
  A call of \<open>read\<close> or \<open>write\<close> in progress: the iterator, the number of bytes asked for and the
  number of bytes done. A round of the \<open>loop\<close> returns, suspends or starts over.
\<close>

record pipe_call =
  pc_iter :: UserBufferIterator
  pc_want :: nat
  pc_done :: nat

datatype round = Return nat | Suspend | Continue

definition start_call :: "UserBuffer \<Rightarrow> pipe_call" where
  "start_call buf = \<lparr>pc_iter = UserBuffer_into_iter buf, pc_want = UserBuffer_len buf, pc_done = 0\<rparr>"

text \<open>The \<open>for _ in 0..loop_read\<close> of \<open>read\<close>.\<close>

primrec pipe_read_for ::
  "nat \<Rightarrow> pipe_call \<times> PipeRingBuffer \<times> memory \<Rightarrow> (round \<times> pipe_call \<times> PipeRingBuffer \<times> memory) result" where
  "pipe_read_for 0 s = Inr (Continue, s)"
| "pipe_read_for (Suc n) s = (case s of (c, rb, m) \<Rightarrow>
     rbind (UserBufferIterator_next (pc_iter c)) (\<lambda>(byte_ref, it).
       (case byte_ref of
          None \<Rightarrow> Inr (Return (pc_done c), c\<lparr>pc_iter := it\<rparr>, rb, m)
        | Some a \<Rightarrow>
            rbind (read_byte rb) (\<lambda>(b, rb').
              (let c' = c\<lparr>pc_iter := it, pc_done := pc_done c + 1\<rparr>; m' = m(a := b)
               in if pc_done c' = pc_want c' then Inr (Return (pc_want c'), c', rb', m')
                  else pipe_read_for n (c', rb', m'))))))"

definition pipe_read_round ::
  "Pipe \<Rightarrow> pipe_call \<times> PipeRingBuffer \<times> memory \<Rightarrow> (round \<times> pipe_call \<times> PipeRingBuffer \<times> memory) result" where
  "pipe_read_round p = (\<lambda>(c, rb, m).
     rbind (rassert (readable p)) (\<lambda>_.
     if available_read rb = 0 then
       (if nonblocking p then Inr (Return (pc_done c), c, rb, m)
        else rbind (all_write_ends_closed rb) (\<lambda>closed.
             Inr (if closed then Return (pc_done c) else Suspend, c, rb, m)))
     else pipe_read_for (unat (available_read rb)) (c, rb, m)))"

text \<open>The \<open>for _ in 0..loop_write\<close> of \<open>write\<close>.\<close>

primrec pipe_write_for ::
  "nat \<Rightarrow> memory \<Rightarrow> pipe_call \<times> PipeRingBuffer \<Rightarrow> (round \<times> pipe_call \<times> PipeRingBuffer) result" where
  "pipe_write_for 0 m s = Inr (Continue, s)"
| "pipe_write_for (Suc n) m s = (case s of (c, rb) \<Rightarrow>
     rbind (UserBufferIterator_next (pc_iter c)) (\<lambda>(byte_ref, it).
       (case byte_ref of
          None \<Rightarrow> Inr (Return (pc_done c), c\<lparr>pc_iter := it\<rparr>, rb)
        | Some a \<Rightarrow>
            rbind (write_byte (m a) rb) (\<lambda>rb'.
              (let c' = c\<lparr>pc_iter := it, pc_done := pc_done c + 1\<rparr>
               in if pc_done c' = pc_want c' then Inr (Return (pc_want c'), c', rb')
                  else pipe_write_for n m (c', rb'))))))"

definition pipe_write_round ::
  "Pipe \<Rightarrow> memory \<Rightarrow> pipe_call \<times> PipeRingBuffer \<Rightarrow> (round \<times> pipe_call \<times> PipeRingBuffer) result" where
  "pipe_write_round p m = (\<lambda>(c, rb).
     rbind (rassert (writable p)) (\<lambda>_.
     if available_write rb = 0 then
       Inr (if nonblocking p then Return (pc_done c) else Suspend, c, rb)
     else pipe_write_for (unat (available_write rb)) m (c, rb)))"

definition Pipe_get_stat :: UserStat where
  "Pipe_get_stat =
     \<lparr>st_dev = 0, st_ino = 0, st_mode = 0x1000, st_nlink = 1, st_uid = 0, st_gid = 0, st_rdev = 0,
      st_pad = 0, st_size = 0, st_blksize = BLK_SIZE, st_pad2 = 0, st_blocks = 0,
      st_atime_sec = 0, st_atime_nsec = 0, st_mtime_sec = 0, st_mtime_nsec = 0,
      st_ctime_sec = 0, st_ctime_nsec = 0, st_unused = [0, 0]\<rparr>"

definition Pipe_get_path :: string where
  "Pipe_get_path = ''pipe''"

text \<open>\<open>read_at\<close> and \<open>write_at\<close> ignore the offset and never block.\<close>

primrec pipe_read_n :: "nat \<Rightarrow> PipeRingBuffer \<Rightarrow> (u8 list \<times> PipeRingBuffer) result" where
  "pipe_read_n 0 rb = Inr ([], rb)"
| "pipe_read_n (Suc n) rb =
     rbind (read_byte rb) (\<lambda>(b, rb'). rbind (pipe_read_n n rb') (\<lambda>(bs, rb''). Inr (b # bs, rb'')))"

definition Pipe_read_at ::
  "usize \<Rightarrow> u8 list \<Rightarrow> PipeRingBuffer \<Rightarrow> ((isize + nat) \<times> u8 list \<times> PipeRingBuffer) result" where
  "Pipe_read_at offset buf rb =
     (let to_read = min (unat (available_read rb)) (length buf)
      in rbind (pipe_read_n to_read rb) (\<lambda>(bs, rb').
         Inr (Inr (length bs), bs @ drop (length bs) buf, rb')))"

definition Pipe_write_at ::
  "usize \<Rightarrow> u8 list \<Rightarrow> PipeRingBuffer \<Rightarrow> ((isize + nat) \<times> PipeRingBuffer) result" where
  "Pipe_write_at offset buf rb =
     (let to_write = min (unat (available_write rb)) (length buf)
      in rbind (rfold write_byte (take to_write buf) rb) (\<lambda>rb'. Inr (Inr to_write, rb')))"

section \<open>Bounded queues\<close>

text \<open>
  What a client relies on: a queue of at most \<open>cap\<close> elements, \<open>contents\<close> being the elements in
  the order they leave.
\<close>

locale bounded_queue =
  fixes inv :: "'q \<Rightarrow> bool"
    and contents :: "'q \<Rightarrow> 'a list"
    and cap :: nat
    and enq :: "'a \<Rightarrow> 'q \<Rightarrow> 'q result"
    and deq :: "'q \<Rightarrow> ('a \<times> 'q) result"
  assumes bound: "inv q \<Longrightarrow> length (contents q) \<le> cap"
    and enq_spec: "inv q \<Longrightarrow> length (contents q) < cap \<Longrightarrow>
          \<exists>q'. enq b q = Inr q' \<and> inv q' \<and> contents q' = contents q @ [b]"
    and deq_spec: "inv q \<Longrightarrow> contents q = b # bs \<Longrightarrow>
          \<exists>q'. deq q = Inr (b, q') \<and> inv q' \<and> contents q' = bs"
begin

lemma enq_all:
  assumes "inv q" "length (contents q) + length bs \<le> cap"
  shows "\<exists>q'. rfold enq bs q = Inr q' \<and> inv q' \<and> contents q' = contents q @ bs"
  using assms
proof (induction bs arbitrary: q)
  case Nil
  then show ?case by simp
next
  case (Cons b bs)
  obtain q1 where q1: "enq b q = Inr q1" "inv q1" "contents q1 = contents q @ [b]"
    using enq_spec [OF Cons.prems(1), of b] Cons.prems(2) by auto
  then show ?case using Cons.IH [OF q1(2)] Cons.prems(2) by auto
qed

end

section \<open>The ring buffer is a bounded queue\<close>

definition rb_inv :: "PipeRingBuffer \<Rightarrow> bool" where
  "rb_inv rb \<longleftrightarrow> length (arr rb) = 32 \<and> unat (head rb) < 32 \<and> unat (tail rb) < 32
     \<and> (status rb = Normal \<longleftrightarrow> head rb \<noteq> tail rb)"

definition rb_contents :: "PipeRingBuffer \<Rightarrow> u8 list" where
  "rb_contents rb = map (\<lambda>i. arr rb ! ((unat (head rb) + i) mod 32)) [0..<unat (available_read rb)]"

lemma rb_count:
  assumes "rb_inv rb"
  shows "unat (available_read rb) \<le> 32"
    "unat (available_read rb) = 0 \<longleftrightarrow> status rb = Empty"
    "unat (available_read rb) = 32 \<longleftrightarrow> status rb = Full"
    "unat (tail rb) = (unat (head rb) + unat (available_read rb)) mod 32"
    "unat (available_write rb) = 32 - unat (available_read rb)"
proof -
  have h: "unat (head rb) < 32" and t: "unat (tail rb) < 32" and n: "status rb = Normal \<longleftrightarrow> head rb \<noteq> tail rb"
    using assms by (simp_all add: rb_inv_def)
  have up: "unat (tail rb + 32) = unat (tail rb) + 32" using t by (simp add: unat_plus_nowrap)
  have sub: "unat (tail rb + 32 - head rb) = unat (tail rb) + 32 - unat (head rb)"
    using unat_sub [of "head rb" "tail rb + 32"] up h t by (simp add: word_le_nat_alt)
  have sub2: "unat (tail rb - head rb) = unat (tail rb) - unat (head rb)" if "head rb < tail rb"
    using that unat_sub [of "head rb" "tail rb"] by simp
  have c: "unat (available_read rb) = (if status rb = Empty then 0
      else if unat (head rb) < unat (tail rb) then unat (tail rb) - unat (head rb)
      else unat (tail rb) + 32 - unat (head rb))"
    using sub sub2 by (simp add: available_read_def RING_BUFFER_SIZE_def word_less_nat_alt)
  have eq: "head rb = tail rb \<longleftrightarrow> unat (head rb) = unat (tail rb)" by (simp add: word_unat_eq_iff)
  show le: "unat (available_read rb) \<le> 32" using c h t n eq by auto
  show "unat (available_read rb) = 0 \<longleftrightarrow> status rb = Empty" using c h t by auto
  show full: "unat (available_read rb) = 32 \<longleftrightarrow> status rb = Full"
    using c h t n eq by (cases "status rb") auto
  show "unat (tail rb) = (unat (head rb) + unat (available_read rb)) mod 32"
    using c h t n eq by (cases "status rb") (auto simp: mod_if)
  have "unat (RING_BUFFER_SIZE - available_read rb) = 32 - unat (available_read rb)"
    using unat_sub [of "available_read rb" 32] le by (simp add: RING_BUFFER_SIZE_def word_le_nat_alt)
  then show "unat (available_write rb) = 32 - unat (available_read rb)"
    using full by (auto simp: available_write_def)
qed

lemma unat_next_index: "unat i < 32 \<Longrightarrow> unat ((i + 1 :: usize) mod RING_BUFFER_SIZE) = (unat i + 1) mod 32"
  by (simp add: RING_BUFFER_SIZE_def unat_mod unat_plus_nowrap)

lemma available_read_eqI:
  assumes inv: "rb_inv rb" and c: "unat (tail rb) = (unat (head rb) + c) mod 32" "c \<le> 32"
    and e: "c = 0 \<longleftrightarrow> status rb = Empty" "c = 32 \<longleftrightarrow> status rb = Full"
  shows "unat (available_read rb) = c"
proof (cases "status rb")
  case Normal
  note k = rb_count [OF inv]
  define h n where "h = unat (head rb)" and "n = unat (available_read rb)"
  have "(h + c) mod 32 = (h + n) mod 32" "h < 32" "c < 32" "n < 32"
    using c e k Normal inv by (auto simp: h_def n_def rb_inv_def)
  then have "c = n" by (auto simp: mod_if split: if_splits)
  then show ?thesis by (simp add: n_def)
qed (use e rb_count(2,3) [OF inv] in auto)

text \<open>Writing to a ring that is not full appends, reading from one that is not empty takes the first byte.\<close>

lemma write_byte_spec:
  assumes inv: "rb_inv rb" and room: "length (rb_contents rb) < 32"
  shows "\<exists>rb'. write_byte b rb = Inr rb' \<and> rb_inv rb' \<and> rb_contents rb' = rb_contents rb @ [b]
    \<and> write_end rb' = write_end rb"
proof -
  note k = rb_count [OF inv]
  define c where "c = unat (available_read rb)"
  define t where "t = (tail rb + 1) mod RING_BUFFER_SIZE"
  define rb' where "rb' = rb\<lparr>status := if t = head rb then Full else Normal, arr := (arr rb)[unat (tail rb) := b], tail := t\<rparr>"
  have c: "c < 32" using room by (simp add: rb_contents_def c_def)
  have i: "length (arr rb) = 32" "unat (head rb) < 32" "unat (tail rb) < 32" using inv by (simp_all add: rb_inv_def)
  have t: "unat t = (unat (head rb) + (c + 1)) mod 32"
    using unat_next_index [OF i(3)] k(4) by (simp add: t_def c_def mod_Suc_eq)
  have "write_byte b rb = Inr rb'"
    using i by (simp add: write_byte_def store_at_def Let_def rb'_def t_def)
  moreover have inv': "rb_inv rb'" using i t by (auto simp: rb'_def rb_inv_def)
  moreover have "t = head rb \<longleftrightarrow> c + 1 = 32"
    using t i(2) c by (auto simp: word_unat_eq_iff mod_if split: if_splits)
  then have c': "unat (available_read rb') = c + 1"
    using available_read_eqI [OF inv', of "c + 1"] t c by (auto simp: rb'_def)
  moreover have "unat (tail rb) \<noteq> (unat (head rb) + j) mod 32" if "j < c" for j
    using that c i(2) k(4) by (auto simp: c_def [symmetric] mod_if split: if_splits)
  then have "rb_contents rb' = rb_contents rb @ [b]"
    unfolding rb_contents_def c' using i k(4) by (simp add: c_def [symmetric]) (auto simp: rb'_def)
  moreover have "write_end rb' = write_end rb" by (simp add: rb'_def)
  ultimately show ?thesis by blast
qed

lemma read_byte_spec:
  assumes inv: "rb_inv rb" and ne: "rb_contents rb = b # bs"
  shows "\<exists>rb'. read_byte rb = Inr (b, rb') \<and> rb_inv rb' \<and> rb_contents rb' = bs \<and> write_end rb' = write_end rb"
proof -
  note k = rb_count [OF inv]
  define c where "c = unat (available_read rb)"
  define h where "h = (head rb + 1) mod RING_BUFFER_SIZE"
  define rb' where "rb' = rb\<lparr>status := if h = tail rb then Empty else Normal, head := h\<rparr>"
  have len: "length (rb_contents rb) = c" by (simp add: rb_contents_def c_def)
  have c: "0 < c" "c \<le> 32" using ne len k(1) by (auto simp: c_def)
  have i: "length (arr rb) = 32" "unat (head rb) < 32" "unat (tail rb) < 32" using inv by (simp_all add: rb_inv_def)
  have h: "unat h = (unat (head rb) + 1) mod 32" using unat_next_index [OF i(2)] by (simp add: h_def)
  have b: "arr rb ! unat (head rb) = b" "bs = map (\<lambda>j. arr rb ! ((unat (head rb) + Suc j) mod 32)) [0..<c - 1]"
  proof -
    have "[0..<c] = 0 # map Suc [0..<c - 1]" using c(1) by (simp add: map_Suc_upt upt_conv_Cons)
    then have "rb_contents rb = arr rb ! unat (head rb) # map (\<lambda>j. arr rb ! ((unat (head rb) + Suc j) mod 32)) [0..<c - 1]"
      using i(2) by (simp add: rb_contents_def c_def [symmetric] comp_def)
    then show "arr rb ! unat (head rb) = b" "bs = map (\<lambda>j. arr rb ! ((unat (head rb) + Suc j) mod 32)) [0..<c - 1]"
      using ne by simp_all
  qed
  have "read_byte rb = Inr (b, rb')"
    using i b(1) by (simp add: read_byte_def index_at_def Let_def rb'_def h_def)
  moreover have inv': "rb_inv rb'" using i h by (auto simp: rb'_def rb_inv_def)
  moreover have tl: "unat (tail rb) = (unat h + (c - 1)) mod 32"
  proof -
    have "(unat h + (c - 1)) mod 32 = (unat (head rb) + 1 + (c - 1)) mod 32" unfolding h by (rule mod_add_left_eq)
    then show ?thesis using k(4) c(1) by (simp add: c_def [symmetric])
  qed
  have "h = tail rb \<longleftrightarrow> c - 1 = 0"
    using tl h i(2,3) c by (auto simp: word_unat_eq_iff mod_if split: if_splits)
  then have c': "unat (available_read rb') = c - 1"
    using available_read_eqI [OF inv', of "c - 1"] tl c by (auto simp: rb'_def)
  have "rb_contents rb' = bs"
    unfolding rb_contents_def c' b(2) by (auto simp: rb'_def h mod_add_left_eq)
  moreover have "write_end rb' = write_end rb" by (simp add: rb'_def)
  ultimately show ?thesis by blast
qed

interpretation ring: bounded_queue rb_inv rb_contents 32 write_byte read_byte
proof
  show "length (rb_contents q) \<le> 32" if "rb_inv q" for q
    using rb_count(1) [OF that] by (simp add: rb_contents_def)
qed (use write_byte_spec read_byte_spec in blast)+

section \<open>The bytes of a user buffer\<close>

text \<open>The addresses an iterator has still to yield; every slice is non-empty.\<close>

definition iter_addrs :: "UserBufferIterator \<Rightarrow> usize list" where
  "iter_addrs it =
     (case drop (current_buffer it) (ubi_buffers it) of
        [] \<Rightarrow> []
      | b # bs \<Rightarrow> drop (current_idx it) (slice_addrs b) @ concat (map slice_addrs bs))"

definition iter_ok :: "UserBufferIterator \<Rightarrow> bool" where
  "iter_ok it \<longleftrightarrow> (case drop (current_buffer it) (ubi_buffers it) of
        [] \<Rightarrow> True
      | b # bs \<Rightarrow> current_idx it < sl_len b \<and> list_all (\<lambda>b. 0 < sl_len b) bs)"

lemma iterator_next:
  assumes ok: "iter_ok it"
  shows "iter_addrs it = [] \<Longrightarrow> UserBufferIterator_next it = Inr (None, it)"
    "iter_addrs it = a # as \<Longrightarrow>
       \<exists>it'. UserBufferIterator_next it = Inr (Some a, it') \<and> iter_ok it' \<and> iter_addrs it' = as"
proof -
  let ?k = "current_buffer it" and ?i = "current_idx it"
  have nil: "drop ?k (ubi_buffers it) = [] \<longleftrightarrow> ?k \<ge> length (ubi_buffers it)" by simp
  show "UserBufferIterator_next it = Inr (None, it)" if "iter_addrs it = []"
    using that ok nil
    by (cases "drop ?k (ubi_buffers it)") (auto simp: iter_addrs_def iter_ok_def UserBufferIterator_next_def slice_addrs_def)
  show "\<exists>it'. UserBufferIterator_next it = Inr (Some a, it') \<and> iter_ok it' \<and> iter_addrs it' = as"
    if a: "iter_addrs it = a # as"
  proof (cases "drop ?k (ubi_buffers it)")
    case Nil
    then show ?thesis using a by (simp add: iter_addrs_def)
  next
    case (Cons b bs)
    have i: "?i < sl_len b" "list_all (\<lambda>b. 0 < sl_len b) bs" using ok Cons by (simp_all add: iter_ok_def)
    have k: "?k < length (ubi_buffers it)" "ubi_buffers it ! ?k = b" "drop (Suc ?k) (ubi_buffers it) = bs"
      using Cons nth_via_drop [OF Cons] by (metis Cons drop_eq_Nil list.distinct(1) not_le, simp, metis Cons drop_Suc list.sel(3) tl_drop)
    have d: "drop ?i (slice_addrs b) = (sl_addr b + of_nat ?i) # drop (Suc ?i) (slice_addrs b)"
      using i(1) by (simp add: slice_addrs_def drop_map) (simp add: upt_conv_Cons)
    have hd: "a = sl_addr b + of_nat ?i" and tl: "as = drop (Suc ?i) (slice_addrs b) @ concat (map slice_addrs bs)"
      using a d by (simp_all add: iter_addrs_def Cons)
    show ?thesis
    proof (cases "?i + 1 = sl_len b")
      case True
      let ?it = "it\<lparr>current_idx := 0, current_buffer := ?k + 1\<rparr>"
      have "UserBufferIterator_next it = Inr (Some a, ?it)"
        using k i(1) True hd by (simp add: UserBufferIterator_next_def Let_def)
      moreover have "iter_ok ?it" using i(2) k(3) by (auto simp: iter_ok_def split: list.splits)
      moreover have "iter_addrs ?it = as"
        using tl True k(3) by (simp add: iter_addrs_def slice_addrs_def split: list.splits)
      ultimately show ?thesis by blast
    next
      case False
      let ?it = "it\<lparr>current_idx := ?i + 1\<rparr>"
      have "UserBufferIterator_next it = Inr (Some a, ?it)"
        using k i(1) False hd by (simp add: UserBufferIterator_next_def Let_def)
      moreover have "iter_ok ?it" using i False by (simp add: iter_ok_def Cons)
      moreover have "iter_addrs ?it = as" using tl by (simp add: iter_addrs_def Cons)
      ultimately show ?thesis by blast
    qed
  qed
qed

lemma iter_start:
  assumes "list_all (\<lambda>b. 0 < sl_len b) (buffers u)"
  shows "iter_ok (UserBuffer_into_iter u)"
    "iter_addrs (UserBuffer_into_iter u) = concat (map slice_addrs (buffers u))"
  using assms by (cases "buffers u"; simp add: iter_ok_def iter_addrs_def UserBuffer_into_iter_def)+

text \<open>Storing a list of bytes at a list of addresses.\<close>

primrec store_list :: "memory \<Rightarrow> usize list \<Rightarrow> u8 list \<Rightarrow> memory" where
  "store_list m as [] = m"
| "store_list m as (b # bs) = (case as of [] \<Rightarrow> m | a # as' \<Rightarrow> store_list (m(a := b)) as' bs)"

lemma store_list_other: "x \<notin> set (take (length bs) as) \<Longrightarrow> store_list m as bs x = m x"
  by (induction bs arbitrary: as m) (auto split: list.splits)

lemma store_list_same:
  "distinct as \<Longrightarrow> length bs \<le> length as \<Longrightarrow> map (store_list m as bs) (take (length bs) as) = bs"
proof (induction bs arbitrary: as m)
  case (Cons b bs)
  then obtain a as' where as: "as = a # as'" by (cases as) auto
  have "store_list (m(a := b)) as' bs a = b"
    using Cons.prems(1) as store_list_other [of a bs as' "m(a := b)"] in_set_takeD [of a "length bs" as'] by auto
  then show ?case using Cons as by simp
qed simp

section \<open>One round of \<open>read\<close> and \<open>write\<close>\<close>

text \<open>A call on a user buffer with the addresses \<open>as\<close>, part of which is done.\<close>

definition call_ok :: "usize list \<Rightarrow> pipe_call \<Rightarrow> bool" where
  "call_ok as c \<longleftrightarrow> iter_ok (pc_iter c) \<and> pc_want c = length as \<and> pc_done c \<le> length as
     \<and> iter_addrs (pc_iter c) = drop (pc_done c) as"

lemma call_next:
  assumes "call_ok as c"
  shows "pc_done c = length as \<Longrightarrow> UserBufferIterator_next (pc_iter c) = Inr (None, pc_iter c)"
    "pc_done c < length as \<Longrightarrow> \<exists>it. UserBufferIterator_next (pc_iter c) = Inr (Some (as ! pc_done c), it)
       \<and> call_ok as (c\<lparr>pc_iter := it, pc_done := pc_done c + 1\<rparr>)"
proof -
  note n = iterator_next [of "pc_iter c"]
  show "UserBufferIterator_next (pc_iter c) = Inr (None, pc_iter c)" if "pc_done c = length as"
    using n(1) assms that by (simp add: call_ok_def)
  show "\<exists>it. UserBufferIterator_next (pc_iter c) = Inr (Some (as ! pc_done c), it)
       \<and> call_ok as (c\<lparr>pc_iter := it, pc_done := pc_done c + 1\<rparr>)" if d: "pc_done c < length as"
  proof -
    have "drop (pc_done c) as = as ! pc_done c # drop (Suc (pc_done c)) as" using d by (simp add: Cons_nth_drop_Suc)
    then show ?thesis using n(2) [of "as ! pc_done c" "drop (Suc (pc_done c)) as"] assms d by (auto simp: call_ok_def)
  qed
qed

text \<open>
  A round moves \<open>k\<close> bytes, as many as fit, between the buffer and the ring, and returns when the
  buffer is finished.
\<close>

lemma pipe_read_for_spec:
  assumes "call_ok as c" "rb_inv rb" "n \<le> length (rb_contents rb)"
  shows "\<exists>r c' rb'. let k = min n (length as - pc_done c) in
      pipe_read_for n (c, rb, m) = Inr (r, c', rb', store_list m (drop (pc_done c) as) (take k (rb_contents rb)))
    \<and> call_ok as c' \<and> rb_inv rb' \<and> pc_done c' = pc_done c + k
    \<and> rb_contents rb' = drop k (rb_contents rb) \<and> write_end rb' = write_end rb
    \<and> (r = (if pc_done c' = length as \<and> 0 < n then Return (length as) else Continue))"
  using assms
proof (induction n arbitrary: c rb m)
  case 0
  then show ?case by (simp add: Let_def)
next
  case (Suc n)
  show ?case
  proof (cases "pc_done c = length as")
    case True
    then show ?thesis using Suc.prems call_next(1) [OF Suc.prems(1) True] by (simp add: Let_def)
  next
    case False
    then have d: "pc_done c < length as" using Suc.prems(1) by (simp add: call_ok_def)
    obtain it where it: "UserBufferIterator_next (pc_iter c) = Inr (Some (as ! pc_done c), it)"
      and c1: "call_ok as (c\<lparr>pc_iter := it, pc_done := pc_done c + 1\<rparr>)" using call_next(2) [OF Suc.prems(1) d] by blast
    let ?c = "c\<lparr>pc_iter := it, pc_done := pc_done c + 1\<rparr>" and ?a = "as ! pc_done c"
    obtain b bs where bs: "rb_contents rb = b # bs" using Suc.prems(3) by (cases "rb_contents rb") auto
    obtain rb1 where rb1: "read_byte rb = Inr (b, rb1)" "rb_inv rb1" "rb_contents rb1 = bs" "write_end rb1 = write_end rb"
      using read_byte_spec [OF Suc.prems(2) bs] by blast
    have dr: "drop (pc_done c) as = ?a # drop (pc_done c + 1) as" using d by (simp add: Cons_nth_drop_Suc)
    have w: "pc_want c = length as" using Suc.prems(1) by (simp add: call_ok_def)
    have pd: "pc_done ?c = pc_done c + 1" by simp
    show ?thesis
    proof (cases "pc_done c + 1 = length as")
      case True
      then have "min (Suc n) (length as - pc_done c) = 1" using d by simp
      then show ?thesis using True it rb1 bs w c1 dr by (auto simp: Let_def)
    next
      case False
      have n: "n \<le> length (rb_contents rb1)" using Suc.prems(3) bs rb1(3) by simp
      have k: "min (Suc n) (length as - pc_done c) = Suc (min n (length as - (pc_done c + 1)))" using d by simp
      obtain r c' rb' where ih: "pipe_read_for n (?c, rb1, m(?a := b)) = Inr (r, c', rb', store_list (m(?a := b))
            (drop (pc_done c + 1) as) (take (min n (length as - (pc_done c + 1))) bs))"
        "call_ok as c'" "rb_inv rb'" "pc_done c' = pc_done c + 1 + min n (length as - (pc_done c + 1))"
        "rb_contents rb' = drop (min n (length as - (pc_done c + 1))) bs" "write_end rb' = write_end rb"
        "r = (if pc_done c' = length as \<and> 0 < n then Return (length as) else Continue)"
        using Suc.IH [OF c1 rb1(2) n, of "m(?a := b)", unfolded Let_def rb1(3,4) pd] by blast
      have "pc_done c' = length as \<longrightarrow> 0 < n" using ih(4) False d by auto
      then show ?thesis
        using ih False it rb1(1) w dr bs unfolding k by (intro exI [of _ r] exI [of _ c'] exI [of _ rb']) (simp add: Let_def)
    qed
  qed
qed

lemma pipe_write_for_spec:
  assumes "call_ok as c" "rb_inv rb" "length (rb_contents rb) + n \<le> 32"
  shows "\<exists>r c' rb'. let k = min n (length as - pc_done c) in
      pipe_write_for n m (c, rb) = Inr (r, c', rb')
    \<and> call_ok as c' \<and> rb_inv rb' \<and> pc_done c' = pc_done c + k
    \<and> rb_contents rb' = rb_contents rb @ map m (take k (drop (pc_done c) as)) \<and> write_end rb' = write_end rb
    \<and> (r = (if pc_done c' = length as \<and> 0 < n then Return (length as) else Continue))"
  using assms
proof (induction n arbitrary: c rb)
  case 0
  then show ?case by (simp add: Let_def)
next
  case (Suc n)
  show ?case
  proof (cases "pc_done c = length as")
    case True
    then show ?thesis using Suc.prems call_next(1) [OF Suc.prems(1) True] by (simp add: Let_def)
  next
    case False
    then have d: "pc_done c < length as" using Suc.prems(1) by (simp add: call_ok_def)
    obtain it where it: "UserBufferIterator_next (pc_iter c) = Inr (Some (as ! pc_done c), it)"
      and c1: "call_ok as (c\<lparr>pc_iter := it, pc_done := pc_done c + 1\<rparr>)" using call_next(2) [OF Suc.prems(1) d] by blast
    let ?c = "c\<lparr>pc_iter := it, pc_done := pc_done c + 1\<rparr>" and ?a = "as ! pc_done c"
    obtain rb1 where rb1: "write_byte (m ?a) rb = Inr rb1" "rb_inv rb1" "rb_contents rb1 = rb_contents rb @ [m ?a]"
      "write_end rb1 = write_end rb"
      using write_byte_spec [OF Suc.prems(2), of "m ?a"] Suc.prems(3) by auto
    have dr: "drop (pc_done c) as = ?a # drop (pc_done c + 1) as" using d by (simp add: Cons_nth_drop_Suc)
    have w: "pc_want c = length as" using Suc.prems(1) by (simp add: call_ok_def)
    have pd: "pc_done ?c = pc_done c + 1" by simp
    show ?thesis
    proof (cases "pc_done c + 1 = length as")
      case True
      then have "min (Suc n) (length as - pc_done c) = 1" using d by simp
      then show ?thesis using True it rb1 w c1 dr by (auto simp: Let_def)
    next
      case False
      have n: "length (rb_contents rb1) + n \<le> 32" using Suc.prems(3) rb1(3) by simp
      have k: "min (Suc n) (length as - pc_done c) = Suc (min n (length as - (pc_done c + 1)))" using d by simp
      obtain r c' rb' where ih: "pipe_write_for n m (?c, rb1) = Inr (r, c', rb')"
        "call_ok as c'" "rb_inv rb'" "pc_done c' = pc_done c + 1 + min n (length as - (pc_done c + 1))"
        "rb_contents rb' = rb_contents rb1 @ map m (take (min n (length as - (pc_done c + 1))) (drop (pc_done c + 1) as))"
        "write_end rb' = write_end rb"
        "r = (if pc_done c' = length as \<and> 0 < n then Return (length as) else Continue)"
        using Suc.IH [OF c1 rb1(2) n, unfolded Let_def rb1(4) pd] by blast
      have "pc_done c' = length as \<longrightarrow> 0 < n" using ih(4) False d by auto
      then show ?thesis
        using ih False it rb1(1,3) w dr unfolding k by (intro exI [of _ r] exI [of _ c'] exI [of _ rb']) (simp add: Let_def)
    qed
  qed
qed

end
