(* ===== verification/Pipe_Flow.thy ===== *)
theory Pipe_Flow
  imports Pipe
begin

text \<open>
  A writer and a reader on the two ends of a pipe (\<open>os/src/fs/pipe.rs\<close>): every interleaving of the
  rounds of their calls delivers the bytes in order, and they never block each other for ever.
\<close>

section \<open>The two calls and their interleaving\<close>

record pipe_sys =
  ps_ring :: PipeRingBuffer
  ps_mem :: memory
  ps_reader :: pipe_call
  ps_writer :: pipe_call
  ps_rret :: "nat option"
  ps_wret :: "nat option"

fun round_result :: "round \<Rightarrow> nat option" where
  "round_result (Return n) = Some n"
| "round_result Suspend = None"
| "round_result Continue = None"

text \<open>
  A step is a round of the reader, a round of the writer, or the release of the last write end
  once the writer's call has returned.
\<close>

inductive pipe_step :: "Pipe \<Rightarrow> Pipe \<Rightarrow> pipe_sys \<Rightarrow> pipe_sys \<Rightarrow> bool" for pr pw where
  Read: "ps_rret s = None \<Longrightarrow> pipe_read_round pr (ps_reader s, ps_ring s, ps_mem s) = Inr (r, c, rb, m) \<Longrightarrow>
     pipe_step pr pw s (s\<lparr>ps_reader := c, ps_ring := rb, ps_mem := m, ps_rret := round_result r\<rparr>)"
| Write: "ps_wret s = None \<Longrightarrow> pipe_write_round pw (ps_mem s) (ps_writer s, ps_ring s) = Inr (r, c, rb) \<Longrightarrow>
     pipe_step pr pw s (s\<lparr>ps_writer := c, ps_ring := rb, ps_wret := round_result r\<rparr>)"
| Close: "ps_wret s \<noteq> None \<Longrightarrow> write_end (ps_ring s) = Some (Suc n) \<Longrightarrow>
     pipe_step pr pw s (s\<lparr>ps_ring := set_write_end n (ps_ring s)\<rparr>)"

definition pipe_start :: "memory \<Rightarrow> UserBuffer \<Rightarrow> UserBuffer \<Rightarrow> pipe_sys" where
  "pipe_start m rbuf wbuf =
     \<lparr>ps_ring = snd (snd make_pipe), ps_mem = m, ps_reader = start_call rbuf, ps_writer = start_call wbuf,
      ps_rret = None, ps_wret = None\<rparr>"

section \<open>The invariant\<close>

text \<open>
  \<open>as\<close> and \<open>bs\<close> are the addresses of the reader's and the writer's buffer, \<open>data\<close> the bytes the
  writer sends: what the reader has received, followed by what is in the ring, is what the writer
  has sent.
\<close>

definition pipe_inv :: "usize list \<Rightarrow> usize list \<Rightarrow> u8 list \<Rightarrow> pipe_sys \<Rightarrow> bool" where
  "pipe_inv as bs data s \<longleftrightarrow> rb_inv (ps_ring s) \<and> call_ok as (ps_reader s) \<and> call_ok bs (ps_writer s)
     \<and> map (ps_mem s) bs = data
     \<and> map (ps_mem s) (take (pc_done (ps_reader s)) as) @ rb_contents (ps_ring s)
         = take (pc_done (ps_writer s)) data
     \<and> (\<forall>n. ps_wret s = Some n \<longrightarrow> n = length bs \<and> pc_done (ps_writer s) = length bs)
     \<and> (\<exists>k. write_end (ps_ring s) = Some k \<and> (ps_wret s = None \<longrightarrow> 0 < k))
     \<and> (\<forall>n. ps_rret s = Some n \<longrightarrow> n = pc_done (ps_reader s)
          \<and> (n = length as \<or> n = length bs \<and> pc_done (ps_writer s) = length bs))"

lemma available_contents: "rb_inv rb \<Longrightarrow> unat (available_read rb) = length (rb_contents rb)"
  "rb_inv rb \<Longrightarrow> available_read rb = 0 \<longleftrightarrow> rb_contents rb = []"
  "rb_inv rb \<Longrightarrow> available_write rb = 0 \<longleftrightarrow> length (rb_contents rb) = 32"
  "rb_inv rb \<Longrightarrow> unat (available_write rb) = 32 - length (rb_contents rb)"
  using rb_count(1,5) [of rb] by (auto simp: rb_contents_def unat_eq_0 [symmetric] simp del: unat_eq_0)

lemma store_received:
  assumes d: "distinct as" and n: "n \<le> length as" and k: "n + length xs \<le> length as"
  shows "map (store_list m (drop n as) xs) (take (n + length xs) as) = map m (take n as) @ xs"
    "set as \<inter> set bs = {} \<Longrightarrow> map (store_list m (drop n as) xs) bs = map m bs"
proof -
  let ?m = "store_list m (drop n as) xs"
  have "set (take n as) \<inter> set (drop n as) = {}" using d by (metis append_take_drop_id distinct_append)
  then have "?m x = m x" if "x \<in> set (take n as)" for x
    using that store_list_other [of x xs "drop n as" m] by (metis disjoint_iff in_set_takeD)
  then have "map ?m (take n as) = map m (take n as)" by (rule map_cong [OF refl])
  moreover have "map ?m (take (length xs) (drop n as)) = xs" using store_list_same d k by simp
  moreover have "take (n + length xs) as = take n as @ take (length xs) (drop n as)" by (simp add: take_add)
  ultimately show "map ?m (take (n + length xs) as) = map m (take n as) @ xs" by simp
  show "map ?m bs = map m bs" if "set as \<inter> set bs = {}"
  proof (rule map_cong [OF refl])
    fix x assume "x \<in> set bs"
    then have "x \<notin> set (take (length xs) (drop n as))" using that by (auto dest: in_set_takeD in_set_dropD)
    then show "?m x = m x" by (rule store_list_other)
  qed
qed

lemma pipe_invD:
  assumes "pipe_inv as bs data s"
  shows "rb_inv (ps_ring s)" "call_ok as (ps_reader s)" "call_ok bs (ps_writer s)" "map (ps_mem s) bs = data"
    "map (ps_mem s) (take (pc_done (ps_reader s)) as) @ rb_contents (ps_ring s) = take (pc_done (ps_writer s)) data"
    "ps_wret s = Some n \<Longrightarrow> n = length bs \<and> pc_done (ps_writer s) = length bs"
    "\<exists>k. write_end (ps_ring s) = Some k \<and> (ps_wret s = None \<longrightarrow> 0 < k)"
    "ps_rret s = Some n \<Longrightarrow> n = pc_done (ps_reader s)
          \<and> (n = length as \<or> n = length bs \<and> pc_done (ps_writer s) = length bs)"
  using assms unfolding pipe_inv_def by blast+

lemma call_okD: "call_ok as c \<Longrightarrow> pc_done c \<le> length as" "call_ok as c \<Longrightarrow> pc_want c = length as"
  by (simp_all add: call_ok_def)

text \<open>A round of the reader keeps the invariant, and makes progress unless the ring is empty.\<close>

lemma read_round:
  assumes inv: "pipe_inv as bs data s" and d: "distinct as" "set as \<inter> set bs = {}"
    and p: "readable pr" "\<not> nonblocking pr" and run: "ps_rret s = None"
  obtains r c rb m where "pipe_read_round pr (ps_reader s, ps_ring s, ps_mem s) = Inr (r, c, rb, m)"
    "pipe_inv as bs data (s\<lparr>ps_reader := c, ps_ring := rb, ps_mem := m, ps_rret := round_result r\<rparr>)"
    "rb_contents (ps_ring s) \<noteq> [] \<Longrightarrow> pc_done (ps_reader s) < pc_done c \<or> round_result r \<noteq> None"
    "rb_contents (ps_ring s) = [] \<Longrightarrow> write_end (ps_ring s) = Some 0 \<Longrightarrow> round_result r \<noteq> None"
    "write_end rb = write_end (ps_ring s)" "pc_done (ps_reader s) \<le> pc_done c"
proof (cases "rb_contents (ps_ring s) = []")
  case True
  note i = pipe_invD [OF inv]
  obtain k where k: "write_end (ps_ring s) = Some k" "ps_wret s = None \<longrightarrow> 0 < k" using i(7) by metis
  let ?r = "if k = 0 then Return (pc_done (ps_reader s)) else Suspend"
  have "pipe_read_round pr (ps_reader s, ps_ring s, ps_mem s) = Inr (?r, ps_reader s, ps_ring s, ps_mem s)"
    using p True k available_contents(2) [OF i(1)] by (simp add: pipe_read_round_def all_write_ends_closed_def)
  moreover have "pipe_inv as bs data (s\<lparr>ps_reader := ps_reader s, ps_ring := ps_ring s, ps_mem := ps_mem s, ps_rret := round_result ?r\<rparr>)"
  proof (cases "k = 0")
    case closed: True
    then obtain n where "ps_wret s = Some n" using k(2) by auto
    then have w: "pc_done (ps_writer s) = length bs" using i(6) by blast
    have "length (take (pc_done (ps_reader s)) as) = length (take (pc_done (ps_writer s)) data)"
      using i(5) True by (metis append_Nil2 length_map)
    then have "pc_done (ps_reader s) = length bs" using w call_okD(1) [OF i(2)] i(4) by auto
    then show ?thesis using inv w closed unfolding pipe_inv_def by simp
  next
    case False
    then show ?thesis using inv run by (simp add: pipe_inv_def)
  qed
  moreover have "write_end (ps_ring s) = Some 0 \<Longrightarrow> round_result ?r \<noteq> None" using k(1) by simp
  ultimately show ?thesis using that [of ?r "ps_reader s" "ps_ring s" "ps_mem s"] True by blast
next
  case False
  note i = pipe_invD [OF inv] and a = available_contents [OF pipe_invD(1) [OF inv]]
  let ?c = "ps_reader s" and ?xs = "rb_contents (ps_ring s)"
  define k where "k = min (length ?xs) (length as - pc_done ?c)"
  obtain r c rb where f: "pipe_read_for (length ?xs) (?c, ps_ring s, ps_mem s)
      = Inr (r, c, rb, store_list (ps_mem s) (drop (pc_done ?c) as) (take k ?xs))"
    "call_ok as c" "rb_inv rb" "pc_done c = pc_done ?c + k" "rb_contents rb = drop k ?xs"
    "write_end rb = write_end (ps_ring s)"
    "r = (if pc_done c = length as \<and> 0 < length ?xs then Return (length as) else Continue)"
    using pipe_read_for_spec [OF i(2,1) le_refl, of "ps_mem s"] unfolding k_def Let_def by blast
  have k: "length (take k ?xs) = k" "pc_done ?c + length (take k ?xs) \<le> length as"
    using call_okD(1) [OF i(2)] by (auto simp: k_def)
  note st = store_received(1) [OF d(1) call_okD(1) [OF i(2)] k(2), of "ps_mem s", unfolded k(1)]
    store_received(2) [OF d(1) call_okD(1) [OF i(2)] k(2) d(2), of "ps_mem s"]
  have run': "pipe_read_round pr (?c, ps_ring s, ps_mem s)
      = Inr (r, c, rb, store_list (ps_mem s) (drop (pc_done ?c) as) (take k ?xs))"
    using p False a f(1) by (simp add: pipe_read_round_def)
  moreover have "pipe_inv as bs data (s\<lparr>ps_reader := c, ps_ring := rb,
      ps_mem := store_list (ps_mem s) (drop (pc_done ?c) as) (take k ?xs), ps_rret := round_result r\<rparr>)"
    using f(2-7) st i(3-7) False by (simp add: pipe_inv_def)
  moreover have le: "pc_done ?c \<le> pc_done c" using f(4) by simp
  moreover have "pc_done ?c < pc_done c \<or> round_result r \<noteq> None"
    using f(4,7) False call_okD(1) [OF i(2)] by (auto simp: k_def)
  ultimately show ?thesis
    using that [of r c rb "store_list (ps_mem s) (drop (pc_done ?c) as) (take k ?xs)"] False f(6) le by blast
qed

lemma write_round:
  assumes inv: "pipe_inv as bs data s" and p: "writable pw" "\<not> nonblocking pw" and run: "ps_wret s = None"
  obtains r c rb where "pipe_write_round pw (ps_mem s) (ps_writer s, ps_ring s) = Inr (r, c, rb)"
    "pipe_inv as bs data (s\<lparr>ps_writer := c, ps_ring := rb, ps_wret := round_result r\<rparr>)"
    "length (rb_contents (ps_ring s)) < 32 \<Longrightarrow> pc_done (ps_writer s) < pc_done c \<or> round_result r \<noteq> None"
    "write_end rb = write_end (ps_ring s)" "pc_done (ps_writer s) \<le> pc_done c"
proof (cases "length (rb_contents (ps_ring s)) < 32")
  case False
  note i = pipe_invD [OF inv]
  have "length (rb_contents (ps_ring s)) = 32" using False ring.bound [OF i(1)] by simp
  then have "pipe_write_round pw (ps_mem s) (ps_writer s, ps_ring s) = Inr (Suspend, ps_writer s, ps_ring s)"
    using p available_contents(3) [OF i(1)] by (simp add: pipe_write_round_def)
  then show ?thesis using that [of Suspend "ps_writer s" "ps_ring s"] inv run False by (simp add: pipe_inv_def)
next
  case True
  note i = pipe_invD [OF inv] and a = available_contents [OF pipe_invD(1) [OF inv]]
  let ?c = "ps_writer s" and ?xs = "rb_contents (ps_ring s)"
  let ?n = "32 - length ?xs"
  define k where "k = min ?n (length bs - pc_done ?c)"
  have le: "length ?xs + ?n \<le> 32" using True by simp
  obtain r c rb where f: "pipe_write_for ?n (ps_mem s) (?c, ps_ring s) = Inr (r, c, rb)"
    "call_ok bs c" "rb_inv rb" "pc_done c = pc_done ?c + k"
    "rb_contents rb = ?xs @ map (ps_mem s) (take k (drop (pc_done ?c) bs))"
    "write_end rb = write_end (ps_ring s)"
    "r = (if pc_done c = length bs \<and> 0 < ?n then Return (length bs) else Continue)"
    using pipe_write_for_spec [OF i(3,1) le, of "ps_mem s"] unfolding k_def Let_def by blast
  have run': "pipe_write_round pw (ps_mem s) (?c, ps_ring s) = Inr (r, c, rb)"
    using p True a f(1) by (simp add: pipe_write_round_def)
  have sent: "take (pc_done c) data = take (pc_done ?c) data @ map (ps_mem s) (take k (drop (pc_done ?c) bs))"
    unfolding f(4) i(4) [symmetric] by (simp add: take_add take_map drop_map)
  have ret: "round_result r = Some n \<Longrightarrow> n = length bs \<and> pc_done c = length bs" for n
    using f(7) by (auto split: if_splits)
  have le': "pc_done ?c = length bs \<longrightarrow> pc_done c = length bs" using f(4) by (simp add: k_def)
  have "pipe_inv as bs data (s\<lparr>ps_writer := c, ps_ring := rb, ps_wret := round_result r\<rparr>)"
    unfolding pipe_inv_def
  proof (intro conjI)
    show "\<forall>n. ps_rret (s\<lparr>ps_writer := c, ps_ring := rb, ps_wret := round_result r\<rparr>) = Some n \<longrightarrow>
      n = pc_done (ps_reader (s\<lparr>ps_writer := c, ps_ring := rb, ps_wret := round_result r\<rparr>)) \<and>
      (n = length as \<or> n = length bs \<and> pc_done (ps_writer (s\<lparr>ps_writer := c, ps_ring := rb, ps_wret := round_result r\<rparr>)) = length bs)"
      using i(8) le' by auto
    show "map (ps_mem (s\<lparr>ps_writer := c, ps_ring := rb, ps_wret := round_result r\<rparr>))
      (take (pc_done (ps_reader (s\<lparr>ps_writer := c, ps_ring := rb, ps_wret := round_result r\<rparr>))) as)
      @ rb_contents (ps_ring (s\<lparr>ps_writer := c, ps_ring := rb, ps_wret := round_result r\<rparr>))
      = take (pc_done (ps_writer (s\<lparr>ps_writer := c, ps_ring := rb, ps_wret := round_result r\<rparr>))) data"
      using i(5) sent f(5) by (simp flip: append_assoc)
  qed (use f(2,3,6) i(2,4,7) ret run in auto)
  moreover have mono: "pc_done ?c \<le> pc_done c" using f(4) by simp
  moreover have "pc_done ?c < pc_done c \<or> round_result r \<noteq> None"
    using f(4,7) True call_okD(1) [OF i(3)] by (auto simp: k_def)
  ultimately show ?thesis using that [of r c rb] run' f(6) mono by blast
qed

text \<open>The invariant holds at the start and along every run of blocking ends.\<close>

abbreviation buffer_addrs :: "UserBuffer \<Rightarrow> usize list" where
  "buffer_addrs u \<equiv> concat (map slice_addrs (buffers u))"

lemma start_call_ok:
  assumes "list_all (\<lambda>b. 0 < sl_len b) (buffers u)"
  shows "call_ok (buffer_addrs u) (start_call u)"
proof -
  have "length (buffer_addrs u) = UserBuffer_len u"
    by (simp add: UserBuffer_len_eq length_concat comp_def)
  then show ?thesis using iter_start [OF assms] by (simp add: call_ok_def start_call_def)
qed

lemma pipe_start_inv:
  assumes "list_all (\<lambda>b. 0 < sl_len b) (buffers rbuf)" "list_all (\<lambda>b. 0 < sl_len b) (buffers wbuf)"
  shows "pipe_inv (buffer_addrs rbuf) (buffer_addrs wbuf) (map m (buffer_addrs wbuf)) (pipe_start m rbuf wbuf)"
proof -
  have "rb_inv (set_write_end 1 PipeRingBuffer_new)" "rb_contents (set_write_end 1 PipeRingBuffer_new) = []"
    by (simp_all add: rb_inv_def rb_contents_def set_write_end_def PipeRingBuffer_new_def RING_BUFFER_SIZE_def available_read_def)
  then show ?thesis
    using start_call_ok [OF assms(1)] start_call_ok [OF assms(2)]
    by (simp add: pipe_inv_def pipe_start_def make_pipe_def set_write_end_def start_call_def)
qed

lemma pipe_step_inv:
  assumes step: "pipe_step pr pw s t" and inv: "pipe_inv as bs data s" and d: "distinct as" "set as \<inter> set bs = {}"
    and p: "readable pr" "\<not> nonblocking pr" "writable pw" "\<not> nonblocking pw"
  shows "pipe_inv as bs data t"
  using step
proof cases
  case (Read r c rb m)
  then show ?thesis using read_round [OF inv d p(1,2) Read(2)] by (metis Inr_inject prod.inject)
next
  case (Write r c rb)
  then show ?thesis using write_round [OF inv p(3,4) Write(2)] by (metis Inr_inject prod.inject)
next
  case (Close n)
  have "rb_inv (set_write_end n (ps_ring s))" "rb_contents (set_write_end n (ps_ring s)) = rb_contents (ps_ring s)"
    using pipe_invD(1) [OF inv] by (simp_all add: rb_inv_def rb_contents_def set_write_end_def available_read_def)
  then show ?thesis using inv Close by (auto simp: pipe_inv_def set_write_end_def)
qed

lemma pipe_run_inv:
  assumes "(pipe_step pr pw)\<^sup>*\<^sup>* s t" "pipe_inv as bs data s" "distinct as" "set as \<inter> set bs = {}"
    "readable pr" "\<not> nonblocking pr" "writable pw" "\<not> nonblocking pw"
  shows "pipe_inv as bs data t"
  using assms(1,2) by (induction rule: rtranclp_induct) (use pipe_step_inv assms(3-8) in blast)+

section \<open>The properties\<close>

text \<open>
  C7. A pipe delivers bytes in order, none lost and none invented: in every interleaving of a
  blocking \<open>write\<close> of one user buffer and a blocking \<open>read\<close> into another (no address in common, no
  empty slice), the bytes in the reader's buffer followed by the bytes in the ring are at all times
  a prefix of the writer's buffer, of the length already written; a \<open>read\<close> that has returned has
  filled its buffer with the first bytes of the writer's, or has all of them.
\<close>

theorem pipe_delivers_in_order:
  assumes "(pipe_step (fst make_pipe) (fst (snd make_pipe)))\<^sup>*\<^sup>* (pipe_start m rbuf wbuf) s"
    and "list_all (\<lambda>b. 0 < sl_len b) (buffers rbuf)" "list_all (\<lambda>b. 0 < sl_len b) (buffers wbuf)"
    and "distinct (buffer_addrs rbuf)" "set (buffer_addrs rbuf) \<inter> set (buffer_addrs wbuf) = {}"
  shows "let sent = map m (buffer_addrs wbuf);
             received = map (ps_mem s) (take (pc_done (ps_reader s)) (buffer_addrs rbuf))
    in received @ rb_contents (ps_ring s) = take (pc_done (ps_writer s)) sent
       \<and> (case ps_rret s of
            None \<Rightarrow> True
          | Some n \<Rightarrow> received = take n sent \<and> (n = UserBuffer_len rbuf \<or> n = UserBuffer_len wbuf))"
proof -
  have len: "length (buffer_addrs u) = UserBuffer_len u" for u
    by (simp add: UserBuffer_len_eq length_concat comp_def)
  have inv: "pipe_inv (buffer_addrs rbuf) (buffer_addrs wbuf) (map m (buffer_addrs wbuf)) s"
    using pipe_run_inv [OF assms(1) pipe_start_inv [OF assms(2,3)] assms(4,5)]
    by (simp add: make_pipe_def read_end_with_buffer_def write_end_with_buffer_def)
  note i = pipe_invD [OF inv]
  let ?r = "map (ps_mem s) (take (pc_done (ps_reader s)) (buffer_addrs rbuf))" and ?sent = "map m (buffer_addrs wbuf)"
  have r: "?r = take (pc_done (ps_reader s)) ?sent"
  proof -
    have "length ?r = pc_done (ps_reader s)" using call_okD(1) [OF i(2)] by simp
    then have "?r = take (pc_done (ps_reader s)) (?r @ rb_contents (ps_ring s))" by simp
    also have "\<dots> = take (min (pc_done (ps_reader s)) (pc_done (ps_writer s))) ?sent"
      unfolding i(5) by (simp add: min.commute)
    also have "\<dots> = take (pc_done (ps_reader s)) ?sent"
    proof -
      have "pc_done (ps_reader s) \<le> pc_done (ps_writer s)"
        using arg_cong [OF i(5), of length] call_okD(1) [OF i(2)] call_okD(1) [OF i(3)] by simp
      then show ?thesis by (simp add: min_def)
    qed
    finally show ?thesis .
  qed
  show ?thesis using i(5) r i(8) len by (auto simp: Let_def split: option.splits)
qed

theorem pipe_delivers_in_order_witness:
  "\<exists>s. pipe_step (fst make_pipe) (fst (snd make_pipe))
         (pipe_start (\<lambda>a. ucast a) \<lparr>buffers = [\<lparr>sl_addr = 100, sl_len = 2\<rparr>]\<rparr> \<lparr>buffers = [\<lparr>sl_addr = 7, sl_len = 3\<rparr>]\<rparr>) s
     \<and> rb_contents (ps_ring s) = [7, 8, 9]"
proof -
  let ?rbuf = "\<lparr>buffers = [\<lparr>sl_addr = 100, sl_len = 2\<rparr>]\<rparr>" and ?wbuf = "\<lparr>buffers = [\<lparr>sl_addr = 7, sl_len = 3\<rparr>]\<rparr>"
  let ?s = "pipe_start (\<lambda>a. ucast a) ?rbuf ?wbuf"
  have upt: "[0..<2] = [0, 1 :: nat]" "[0..<3] = [0, 1, 2 :: nat]" by code_simp+
  have addrs: "buffer_addrs ?rbuf = [100, 101]" "buffer_addrs ?wbuf = [7, 8, 9]"
    by (simp_all add: slice_addrs_def upt)
  have ok: "list_all (\<lambda>b. 0 < sl_len b) (buffers ?rbuf)" "list_all (\<lambda>b. 0 < sl_len b) (buffers ?wbuf)" by simp_all
  have p: "writable (fst (snd make_pipe))" "\<not> nonblocking (fst (snd make_pipe))"
    by (simp_all add: make_pipe_def write_end_with_buffer_def)
  have s: "ps_wret ?s = None" "ps_writer ?s = start_call ?wbuf" "ps_reader ?s = start_call ?rbuf" "ps_ring ?s = set_write_end 1 PipeRingBuffer_new"
    by (simp_all add: pipe_start_def make_pipe_def)
  have e: "rb_inv (ps_ring ?s)" "rb_contents (ps_ring ?s) = []"
    by (simp_all add: s rb_inv_def rb_contents_def set_write_end_def PipeRingBuffer_new_def RING_BUFFER_SIZE_def available_read_def)
  obtain r c rb where w: "pipe_write_for 32 (ps_mem ?s) (start_call ?wbuf, ps_ring ?s) = Inr (r, c, rb)" "pc_done c = 3"
    using pipe_write_for_spec [OF start_call_ok [OF ok(2)] e(1), of 32 "ps_mem ?s"] e(2)
    unfolding addrs by (auto simp: Let_def start_call_def)
  have "pipe_write_round (fst (snd make_pipe)) (ps_mem ?s) (ps_writer ?s, ps_ring ?s) = Inr (r, c, rb)"
    using w(1) p available_contents [OF e(1)] e(2) by (simp add: pipe_write_round_def s(2))
  then have step: "pipe_step (fst make_pipe) (fst (snd make_pipe)) ?s (?s\<lparr>ps_writer := c, ps_ring := rb, ps_wret := round_result r\<rparr>)"
    by (rule pipe_step.Write [OF s(1)])
  then have run: "(pipe_step (fst make_pipe) (fst (snd make_pipe)))\<^sup>*\<^sup>* ?s (?s\<lparr>ps_writer := c, ps_ring := rb, ps_wret := round_result r\<rparr>)"
    by blast
  have "rb_contents rb = [7, 8, 9]"
    using pipe_delivers_in_order [OF run ok, unfolded addrs] w(2) s(3)
    by (simp add: Let_def start_call_def)
  then show ?thesis using step by (intro exI [of _ "?s\<lparr>ps_writer := c, ps_ring := rb, ps_wret := round_result r\<rparr>"]) simp
qed

text \<open>What is left to do: a measure that some step always decreases while the reader waits.\<close>

definition pipe_left :: "pipe_sys \<Rightarrow> nat" where
  "pipe_left s = (pc_want (ps_writer s) - pc_done (ps_writer s)) + (pc_want (ps_reader s) - pc_done (ps_reader s))
     + (if ps_wret s = None then 1 else 0) + (if ps_rret s = None then 1 else 0) + the (write_end (ps_ring s))"

lemma pipe_progress:
  assumes inv: "pipe_inv as bs data s" and d: "distinct as" "set as \<inter> set bs = {}"
    and p: "readable pr" "\<not> nonblocking pr" "writable pw" "\<not> nonblocking pw" and run: "ps_rret s = None"
  shows "\<exists>t. pipe_step pr pw s t \<and> pipe_left t < pipe_left s"
proof -
  note i = pipe_invD [OF inv]
  obtain k where k: "write_end (ps_ring s) = Some k" using i(7) by metis
  consider (ready) "rb_contents (ps_ring s) \<noteq> [] \<or> k = 0" | (sending) "rb_contents (ps_ring s) = []" "ps_wret s = None"
    | (close) j where "k = Suc j" "ps_wret s \<noteq> None" by (cases k) auto
  then show ?thesis
  proof cases
    case ready
    obtain r c rb m where rd: "pipe_read_round pr (ps_reader s, ps_ring s, ps_mem s) = Inr (r, c, rb, m)"
      "pipe_inv as bs data (s\<lparr>ps_reader := c, ps_ring := rb, ps_mem := m, ps_rret := round_result r\<rparr>)"
      "rb_contents (ps_ring s) \<noteq> [] \<Longrightarrow> pc_done (ps_reader s) < pc_done c \<or> round_result r \<noteq> None"
      "rb_contents (ps_ring s) = [] \<Longrightarrow> write_end (ps_ring s) = Some 0 \<Longrightarrow> round_result r \<noteq> None"
      "write_end rb = write_end (ps_ring s)" "pc_done (ps_reader s) \<le> pc_done c"
      by (rule read_round [OF inv d p(1,2) run]) blast
    have c: "call_ok as c" using pipe_invD(2) [OF rd(2)] by simp
    have "pc_done (ps_reader s) < pc_done c \<or> round_result r \<noteq> None" using ready rd(3,4) k by metis
    then have "pipe_left (s\<lparr>ps_reader := c, ps_ring := rb, ps_mem := m, ps_rret := round_result r\<rparr>) < pipe_left s"
      using rd(5,6) run call_okD [OF c] call_okD [OF i(2)] by (auto simp: pipe_left_def)
    then show ?thesis using pipe_step.Read [OF run rd(1), of pw] by blast
  next
    case sending
    obtain r c rb where wr: "pipe_write_round pw (ps_mem s) (ps_writer s, ps_ring s) = Inr (r, c, rb)"
      "pipe_inv as bs data (s\<lparr>ps_writer := c, ps_ring := rb, ps_wret := round_result r\<rparr>)"
      "length (rb_contents (ps_ring s)) < 32 \<Longrightarrow> pc_done (ps_writer s) < pc_done c \<or> round_result r \<noteq> None"
      "write_end rb = write_end (ps_ring s)" "pc_done (ps_writer s) \<le> pc_done c"
      by (rule write_round [OF inv p(3,4) sending(2)]) blast
    have c: "call_ok bs c" using pipe_invD(3) [OF wr(2)] by simp
    have "pipe_left (s\<lparr>ps_writer := c, ps_ring := rb, ps_wret := round_result r\<rparr>) < pipe_left s"
      using wr(3-5) sending call_okD [OF c] call_okD [OF i(3)] by (auto simp: pipe_left_def)
    then show ?thesis using pipe_step.Write [OF sending(2) wr(1), of pr] by blast
  next
    case (close j)
    have "pipe_left (s\<lparr>ps_ring := set_write_end j (ps_ring s)\<rparr>) < pipe_left s"
      using close k by (simp add: pipe_left_def set_write_end_def)
    then show ?thesis using pipe_step.Close [OF close(2), of j] close(1) k by blast
  qed
qed

text \<open>
  C26. A blocked reader is always served: from every state that a blocking writer and a blocking
  reader can reach there is a continuation in which the reader's call returns; neither call ever
  panics on the way.
\<close>

theorem pipe_reader_served:
  assumes "(pipe_step (fst make_pipe) (fst (snd make_pipe)))\<^sup>*\<^sup>* (pipe_start m rbuf wbuf) s"
    and "list_all (\<lambda>b. 0 < sl_len b) (buffers rbuf)" "list_all (\<lambda>b. 0 < sl_len b) (buffers wbuf)"
    and "distinct (buffer_addrs rbuf)" "set (buffer_addrs rbuf) \<inter> set (buffer_addrs wbuf) = {}"
  shows "\<exists>t n. (pipe_step (fst make_pipe) (fst (snd make_pipe)))\<^sup>*\<^sup>* s t \<and> ps_rret t = Some n"
proof -
  let ?step = "pipe_step (fst make_pipe) (fst (snd make_pipe))"
  have p: "readable (fst make_pipe)" "\<not> nonblocking (fst make_pipe)" "writable (fst (snd make_pipe))"
    "\<not> nonblocking (fst (snd make_pipe))"
    by (simp_all add: make_pipe_def read_end_with_buffer_def write_end_with_buffer_def)
  have "pipe_inv (buffer_addrs rbuf) (buffer_addrs wbuf) (map m (buffer_addrs wbuf)) s"
    by (rule pipe_run_inv [OF assms(1) pipe_start_inv [OF assms(2,3)] assms(4,5) p])
  then show ?thesis
  proof (induction "pipe_left s" arbitrary: s rule: less_induct)
    case less
    show ?case
    proof (cases "ps_rret s")
      case None
      obtain t where t: "?step s t" "pipe_left t < pipe_left s"
        using pipe_progress [OF less.prems assms(4,5) p None] by blast
      have "pipe_inv (buffer_addrs rbuf) (buffer_addrs wbuf) (map m (buffer_addrs wbuf)) t"
        by (rule pipe_step_inv [OF t(1) less.prems assms(4,5) p])
      then obtain u n where "?step\<^sup>*\<^sup>* t u" "ps_rret u = Some n" using less.hyps [OF t(2)] by blast
      then show ?thesis using t(1) by (meson converse_rtranclp_into_rtranclp)
    next
      case (Some n)
      then show ?thesis by blast
    qed
  qed
qed

theorem pipe_reader_served_witness:
  "\<exists>t n. (pipe_step (fst make_pipe) (fst (snd make_pipe)))\<^sup>*\<^sup>*
         (pipe_start (\<lambda>a. ucast a) \<lparr>buffers = [\<lparr>sl_addr = 100, sl_len = 2\<rparr>]\<rparr> \<lparr>buffers = [\<lparr>sl_addr = 7, sl_len = 3\<rparr>]\<rparr>) t
     \<and> ps_rret t = Some n"
  by (rule pipe_reader_served [OF rtranclp.rtrancl_refl])
    (simp_all add: slice_addrs_def upt_rec)

end
