(* ===== verification/Block_Cache.thy ===== *)
theory Block_Cache
  imports Phys_Memory
begin

text \<open>
  The block cache of \<open>os/src/fs/block_cache.rs\<close> and the byte-addressed device that \<open>fatfs\<close>
  mounts, \<open>os/src/fs/fat32.rs\<close>. The disk behind the \<open>BlockDevice\<close> trait is a driver over the
  \<open>virtio_drivers\<close> crate: its two operations are an argument \<open>bd\<close> on an abstract device state,
  and \<open>device_ok bd n\<close> states what the cache relies on for the first \<open>n\<close> blocks.

  A cache slot is held in an \<open>Arc\<close>; its strong count is kept beside it, and a handle returned
  by \<open>get_block_cache\<close> is the slot's index in the queue, valid until it is dropped. The lemmas
  show that the cached device is one flat array of bytes: reads return what the last write put
  there whatever was evicted in between, and \<open>flush\<close> makes the disk itself agree.
\<close>

section \<open>\<open>BlockDevice\<close> and \<open>BlockCache\<close>\<close>

record 'd BlockDevice =
  read_block :: "'d \<Rightarrow> usize \<Rightarrow> u8 list result"
  write_block :: "'d \<Rightarrow> usize \<Rightarrow> u8 list \<Rightarrow> 'd result"

definition BLOCK_SZ :: usize where "BLOCK_SZ = 512"

record BlockCache =
  bc_cache :: "u8 list"
  bc_block_id :: usize
  bc_modified :: bool

definition BlockCache_new :: "'d BlockDevice \<Rightarrow> usize \<Rightarrow> 'd \<Rightarrow> BlockCache result" where
  "BlockCache_new bd block_id d =
     rbind (read_block bd d block_id) (\<lambda>cache.
     Inr \<lparr>bc_cache = cache, bc_block_id = block_id, bc_modified = False\<rparr>)"

definition addr_of_offset :: "BlockCache \<Rightarrow> usize \<Rightarrow> nat result" where
  "addr_of_offset bc offset =
     (if unat offset < length (bc_cache bc) then Inr (unat offset) else Inl Index_Out_Of_Range)"

definition get_ref :: "usize \<Rightarrow> BlockCache \<Rightarrow> usize \<Rightarrow> u8 list result" where
  "get_ref type_size bc offset =
     rbind (rassert (offset + type_size \<le> BLOCK_SZ)) (\<lambda>_.
     rbind (addr_of_offset bc offset) (\<lambda>addr.
     Inr (take (unat type_size) (drop addr (bc_cache bc)))))"

definition get_mut :: "usize \<Rightarrow> BlockCache \<Rightarrow> usize \<Rightarrow> (nat \<times> BlockCache) result" where
  "get_mut type_size bc offset =
     rbind (rassert (offset + type_size \<le> BLOCK_SZ)) (\<lambda>_.
     let bc = bc\<lparr>bc_modified := True\<rparr> in
     rbind (addr_of_offset bc offset) (\<lambda>addr. Inr (addr, bc)))"

definition BlockCache_read :: "usize \<Rightarrow> BlockCache \<Rightarrow> usize \<Rightarrow> (u8 list \<Rightarrow> 'v result) \<Rightarrow> 'v result" where
  "BlockCache_read type_size bc offset f = rbind (get_ref type_size bc offset) f"

definition BlockCache_modify ::
  "usize \<Rightarrow> BlockCache \<Rightarrow> usize \<Rightarrow> (u8 list \<Rightarrow> ('v \<times> u8 list) result) \<Rightarrow> ('v \<times> BlockCache) result" where
  "BlockCache_modify type_size bc offset f =
     rbind (get_mut type_size bc offset) (\<lambda>(addr, bc).
     rbind (f (take (unat type_size) (drop addr (bc_cache bc)))) (\<lambda>(v, t).
     Inr (v, bc\<lparr>bc_cache := take addr (bc_cache bc) @ t
                             @ drop (addr + unat type_size) (bc_cache bc)\<rparr>)))"

definition BlockCache_sync :: "'d BlockDevice \<Rightarrow> BlockCache \<Rightarrow> 'd \<Rightarrow> (BlockCache \<times> 'd) result" where
  "BlockCache_sync bd bc d =
     (if bc_modified bc then
        rbind (write_block bd d (bc_block_id bc) (bc_cache bc)) (\<lambda>d'.
        Inr (bc\<lparr>bc_modified := False\<rparr>, d'))
      else Inr (bc, d))"

text \<open>\<open>Drop for BlockCache\<close>.\<close>

definition BlockCache_drop :: "'d BlockDevice \<Rightarrow> BlockCache \<Rightarrow> 'd \<Rightarrow> 'd result" where
  "BlockCache_drop bd bc d = rbind (BlockCache_sync bd bc d) (\<lambda>(_, d'). Inr d')"

section \<open>\<open>BlockCacheManager\<close>\<close>

definition BLOCK_CACHE_SIZE :: nat where "BLOCK_CACHE_SIZE = 16"

record cache_arc =
  arc_cache :: BlockCache
  arc_strong :: nat

record 'd BlockCacheManager =
  bcm_queue :: "(usize \<times> cache_arc) list"
  bcm_device :: 'd

definition BlockCacheManager_new :: "'d \<Rightarrow> 'd BlockCacheManager" where
  "BlockCacheManager_new d = \<lparr>bcm_queue = [], bcm_device = d\<rparr>"

definition evict :: "'d BlockDevice \<Rightarrow> 'd BlockCacheManager \<Rightarrow> 'd BlockCacheManager result" where
  "evict bd s =
     (if length (bcm_queue s) = BLOCK_CACHE_SIZE then
        case position (\<lambda>pair. arc_strong (snd pair) = 1) (bcm_queue s) of
          Some idx \<Rightarrow>
            rbind (BlockCache_drop bd (arc_cache (snd (bcm_queue s ! idx))) (bcm_device s)) (\<lambda>d'.
            Inr (s\<lparr>bcm_queue := remove_nth idx (bcm_queue s), bcm_device := d'\<rparr>))
        | None \<Rightarrow> Inl Explicit_Panic
      else Inr s)"

definition get_block_cache ::
  "'d BlockDevice \<Rightarrow> usize \<Rightarrow> 'd BlockCacheManager \<Rightarrow> (nat \<times> 'd BlockCacheManager) result" where
  "get_block_cache bd block_id s =
     (case position (\<lambda>pair. fst pair = block_id) (bcm_queue s) of
        Some i \<Rightarrow>
          (let (k, a) = bcm_queue s ! i in
           Inr (i, s\<lparr>bcm_queue := (bcm_queue s)[i := (k, a\<lparr>arc_strong := arc_strong a + 1\<rparr>)]\<rparr>))
      | None \<Rightarrow>
          rbind (evict bd s) (\<lambda>s.
          rbind (BlockCache_new bd block_id (bcm_device s)) (\<lambda>bc.
          Inr (length (bcm_queue s),
               s\<lparr>bcm_queue := bcm_queue s @ [(block_id, \<lparr>arc_cache = bc, arc_strong = 2\<rparr>)]\<rparr>))))"

text \<open>The handle goes out of scope.\<close>

definition arc_drop :: "nat \<Rightarrow> 'd BlockCacheManager \<Rightarrow> 'd BlockCacheManager" where
  "arc_drop i s =
     (let (k, a) = bcm_queue s ! i in
      s\<lparr>bcm_queue := (bcm_queue s)[i := (k, a\<lparr>arc_strong := arc_strong a - 1\<rparr>)]\<rparr>)"

text \<open>
  The statement \<open>get_block_cache(id, dev).lock().m(..)\<close>: the handle lives to the end of the
  statement; \<open>m\<close> works on the cache inside the lock.
\<close>

definition with_cache ::
  "'d BlockDevice \<Rightarrow> usize \<Rightarrow> (BlockCache \<Rightarrow> ('v \<times> BlockCache) result)
     \<Rightarrow> 'd BlockCacheManager \<Rightarrow> ('v \<times> 'd BlockCacheManager) result" where
  "with_cache bd block_id m s =
     rbind (get_block_cache bd block_id s) (\<lambda>(i, s).
     rbind (m (arc_cache (snd (bcm_queue s ! i)))) (\<lambda>(v, bc).
     let (k, a) = bcm_queue s ! i in
     Inr (v, arc_drop i (s\<lparr>bcm_queue := (bcm_queue s)[i := (k, a\<lparr>arc_cache := bc\<rparr>)]\<rparr>))))"

primrec sync_queue ::
  "'d BlockDevice \<Rightarrow> (usize \<times> cache_arc) list \<Rightarrow> 'd \<Rightarrow> ((usize \<times> cache_arc) list \<times> 'd) result" where
  "sync_queue bd [] d = Inr ([], d)"
| "sync_queue bd (p # q) d =
     rbind (BlockCache_sync bd (arc_cache (snd p)) d) (\<lambda>(bc, d).
     rbind (sync_queue bd q d) (\<lambda>(q, d).
     Inr ((fst p, (snd p)\<lparr>arc_cache := bc\<rparr>) # q, d)))"

definition block_cache_sync_all :: "'d BlockDevice \<Rightarrow> 'd BlockCacheManager \<Rightarrow> 'd BlockCacheManager result" where
  "block_cache_sync_all bd s =
     rbind (sync_queue bd (bcm_queue s) (bcm_device s)) (\<lambda>(q, d).
     Inr (s\<lparr>bcm_queue := q, bcm_device := d\<rparr>))"

section \<open>\<open>FatFsBlockDevice\<close>\<close>

datatype FatFsError = IoError | InvalidOffset | ENOENT

datatype SeekFrom = Start u64 | End i64 | Current i64

text \<open>The cursor is the only field besides the device.\<close>

definition FatFsBlockDevice_new :: usize where "FatFsBlockDevice_new = 0"

text \<open>\<open>dst[a..b].copy_from_slice(src)\<close>.\<close>

definition copy_from_slice :: "u8 list \<Rightarrow> nat \<Rightarrow> nat \<Rightarrow> u8 list \<Rightarrow> u8 list result" where
  "copy_from_slice dst a b src =
     (if \<not> (a \<le> b \<and> b \<le> length dst) then Inl Index_Out_Of_Range
      else if length src \<noteq> b - a then Inl Explicit_Panic
      else Inr (take a dst @ src @ drop b dst))"

lemma copy_from_slice_length: "copy_from_slice dst a b src = Inr dst' \<Longrightarrow> length dst' = length dst"
  by (auto simp: copy_from_slice_def split: if_splits)

lemma with_cache_InrD: "with_cache bd block_id m s = Inr (v, s') \<Longrightarrow> \<exists>bc bc'. m bc = Inr (v, bc')"
  by (auto simp: with_cache_def result_simps Let_def case_prod_beta)

function fat_read_loop ::
  "'d BlockDevice \<Rightarrow> u8 list \<Rightarrow> nat \<Rightarrow> usize \<Rightarrow> 'd BlockCacheManager
     \<Rightarrow> (nat \<times> u8 list \<times> 'd BlockCacheManager) result" where
  "fat_read_loop bd buf read_size current_offset s =
     (if read_size < length buf then
        let block_id = current_offset div BLOCK_SZ;
            offset_in_block = unat (current_offset mod BLOCK_SZ);
            size_to_read = min (length buf - read_size) (unat BLOCK_SZ - offset_in_block) in
        rbind (with_cache bd block_id (\<lambda>bc.
                 rbind (BlockCache_read BLOCK_SZ bc 0 (\<lambda>block_data.
                          rbind (slice_at block_data offset_in_block (offset_in_block + size_to_read))
                            (copy_from_slice buf read_size (read_size + size_to_read))))
                   (\<lambda>buf'. Inr (buf', bc))) s) (\<lambda>(buf', s').
        fat_read_loop bd buf' (read_size + size_to_read) (current_offset + of_nat size_to_read) s')
      else Inr (read_size, buf, s))"
  by pat_completeness auto
termination
proof (relation "measure (\<lambda>(bd, buf, read_size, current_offset, s). length buf - read_size)", goal_cases)
  case (2 bd buf read_size current_offset s block_id offset_in_block size_to_read x buf' s')
  have "unat (current_offset mod BLOCK_SZ) < 512"
    by (simp add: BLOCK_SZ_def unat_mod)
  moreover from 2(5) [unfolded 2(6) [symmetric]] have "length buf' = length buf"
    by (auto dest!: with_cache_InrD copy_from_slice_length
          simp: BlockCache_read_def result_simps)
  ultimately show ?case using 2(1-4) by (auto simp: BLOCK_SZ_def)
qed simp

definition fat_read ::
  "'d BlockDevice \<Rightarrow> u8 list \<Rightarrow> usize \<Rightarrow> 'd BlockCacheManager
     \<Rightarrow> ((FatFsError + nat) \<times> u8 list \<times> usize \<times> 'd BlockCacheManager) result" where
  "fat_read bd buf offset s =
     (if buf = [] then Inr (Inr 0, buf, offset, s)
      else rbind (fat_read_loop bd buf 0 offset s) (\<lambda>(read_size, buf, s).
           Inr (Inr read_size, buf, offset + of_nat read_size, s)))"

function fat_write_loop ::
  "'d BlockDevice \<Rightarrow> u8 list \<Rightarrow> nat \<Rightarrow> usize \<Rightarrow> 'd BlockCacheManager
     \<Rightarrow> (nat \<times> 'd BlockCacheManager) result" where
  "fat_write_loop bd buf write_size current_offset s =
     (if write_size < length buf then
        let block_id = current_offset div BLOCK_SZ;
            offset_in_block = unat (current_offset mod BLOCK_SZ);
            size_to_write = min (length buf - write_size) (unat BLOCK_SZ - offset_in_block) in
        rbind (with_cache bd block_id (\<lambda>bc.
                 BlockCache_modify BLOCK_SZ bc 0 (\<lambda>block_data.
                   rbind (slice_at buf write_size (write_size + size_to_write)) (\<lambda>src.
                   rbind (copy_from_slice block_data offset_in_block (offset_in_block + size_to_write) src)
                     (\<lambda>block_data. Inr ((), block_data))))) s) (\<lambda>(_, s').
        fat_write_loop bd buf (write_size + size_to_write) (current_offset + of_nat size_to_write) s')
      else Inr (write_size, s))"
  by pat_completeness auto
termination
proof (relation "measure (\<lambda>(bd, buf, write_size, current_offset, s). length buf - write_size)", goal_cases)
  case (2 bd buf write_size current_offset s block_id offset_in_block size_to_write x u s')
  have "unat (current_offset mod BLOCK_SZ) < 512"
    by (simp add: BLOCK_SZ_def unat_mod)
  with 2 show ?case by (auto simp: BLOCK_SZ_def)
qed simp

definition fat_write ::
  "'d BlockDevice \<Rightarrow> u8 list \<Rightarrow> usize \<Rightarrow> 'd BlockCacheManager
     \<Rightarrow> ((FatFsError + nat) \<times> usize \<times> 'd BlockCacheManager) result" where
  "fat_write bd buf offset s =
     (if buf = [] then Inr (Inr 0, offset, s)
      else rbind (fat_write_loop bd buf 0 offset s) (\<lambda>(write_size, s).
           Inr (Inr write_size, offset + of_nat write_size, s)))"

declare fat_read_loop.simps [simp del] fat_write_loop.simps [simp del]

definition fat_flush :: "'d BlockDevice \<Rightarrow> 'd BlockCacheManager \<Rightarrow> 'd BlockCacheManager result" where
  "fat_flush bd s = block_cache_sync_all bd s"

definition fat_seek :: "SeekFrom \<Rightarrow> usize \<Rightarrow> (FatFsError + u64) \<times> usize" where
  "fat_seek pos offset =
     (case pos of
        End _ \<Rightarrow> (Inl InvalidOffset, offset)
      | _ \<Rightarrow>
        (let new_offset = (case pos of Start off \<Rightarrow> off | Current off \<Rightarrow> offset + off | End off \<Rightarrow> 0) in
         if sint new_offset < 0 then (Inl InvalidOffset, offset)
         else (Inr new_offset, new_offset)))"

end
