(* ===== verification/Fat_Device.thy ===== *)
theory Fat_Device
  imports Block_Cache
begin

text \<open>
  The cached device is a flat array of bytes: the invariant of the cache queue, the contents it
  stands for, and what reading, writing and flushing do to them.
\<close>

section \<open>What the cache relies on, and its invariant\<close>

text \<open>
  The device answers for its first \<open>n\<close> blocks: a read fills the buffer, a write is read back and
  leaves the other blocks alone.
\<close>

definition device_ok :: "'d BlockDevice \<Rightarrow> nat \<Rightarrow> bool" where
  "device_ok bd n \<longleftrightarrow> n < 2 ^ 54
     \<and> (\<forall>d b. unat b < n \<longrightarrow> (\<exists>x. read_block bd d b = Inr x \<and> length x = 512))
     \<and> (\<forall>d b x. unat b < n \<and> length x = 512 \<longrightarrow>
          (\<exists>d'. write_block bd d b x = Inr d'
             \<and> (\<forall>c. read_block bd d' c = (if c = b then Inr x else read_block bd d c))))"

definition slot_ok :: "'d BlockDevice \<Rightarrow> nat \<Rightarrow> 'd \<Rightarrow> usize \<times> cache_arc \<Rightarrow> bool" where
  "slot_ok bd n d p \<longleftrightarrow>
     bc_block_id (arc_cache (snd p)) = fst p \<and> length (bc_cache (arc_cache (snd p))) = 512
   \<and> unat (fst p) < n \<and> arc_strong (snd p) = 1
   \<and> (\<not> bc_modified (arc_cache (snd p)) \<longrightarrow> read_block bd d (fst p) = Inr (bc_cache (arc_cache (snd p))))"

definition cache_inv :: "'d BlockDevice \<Rightarrow> nat \<Rightarrow> 'd BlockCacheManager \<Rightarrow> bool" where
  "cache_inv bd n s \<longleftrightarrow> device_ok bd n \<and> distinct (map fst (bcm_queue s))
     \<and> length (bcm_queue s) \<le> BLOCK_CACHE_SIZE \<and> (\<forall>p \<in> set (bcm_queue s). slot_ok bd n (bcm_device s) p)"

definition device_block :: "'d BlockDevice \<Rightarrow> 'd \<Rightarrow> usize \<Rightarrow> u8 list" where
  "device_block bd d b = (case read_block bd d b of Inr x \<Rightarrow> x | Inl _ \<Rightarrow> [])"

text \<open>The contents of block \<open>b\<close> as the file system sees them.\<close>

definition block_view :: "'d BlockDevice \<Rightarrow> 'd BlockCacheManager \<Rightarrow> usize \<Rightarrow> u8 list" where
  "block_view bd s b = (case map_of (bcm_queue s) b of
      Some a \<Rightarrow> bc_cache (arc_cache a) | None \<Rightarrow> device_block bd (bcm_device s) b)"

definition disk_byte :: "'d BlockDevice \<Rightarrow> 'd BlockCacheManager \<Rightarrow> nat \<Rightarrow> u8" where
  "disk_byte bd s a = block_view bd s (of_nat (a div 512)) ! (a mod 512)"

lemma device_readE:
  assumes "device_ok bd n" and "unat b < n"
  obtains x where "read_block bd d b = Inr x" and "length x = 512" and "device_block bd d b = x"
proof -
  from assms obtain x where "read_block bd d b = Inr x" "length x = 512"
    unfolding device_ok_def by metis
  with that show thesis by (simp add: device_block_def)
qed

lemma device_writeE:
  assumes "device_ok bd n" and "unat b < n" and "length x = 512"
  obtains d' where "write_block bd d b x = Inr d'"
    and "\<And>c. read_block bd d' c = (if c = b then Inr x else read_block bd d c)"
  using assms unfolding device_ok_def by blast

lemma cache_inv_new: "device_ok bd n \<Longrightarrow> cache_inv bd n (BlockCacheManager_new d)"
  by (simp add: cache_inv_def BlockCacheManager_new_def)

lemma block_view_length: "cache_inv bd n s \<Longrightarrow> unat b < n \<Longrightarrow> length (block_view bd s b) = 512"
  by (auto simp: block_view_def cache_inv_def slot_ok_def split: option.split
        dest!: map_of_SomeD elim: device_readE)

lemma block_view_None:
  "b \<notin> fst ` set (bcm_queue s) \<Longrightarrow> block_view bd s b = device_block bd (bcm_device s) b"
  by (simp add: block_view_def map_of_eq_None_iff [THEN iffD2])

lemma block_view_Some:
  "distinct (map fst (bcm_queue s)) \<Longrightarrow> (b, a) \<in> set (bcm_queue s)
   \<Longrightarrow> block_view bd s b = bc_cache (arc_cache a)"
  by (simp add: block_view_def)

section \<open>One cache access\<close>

lemma sync_slot:
  assumes dev: "device_ok bd n" and ok: "slot_ok bd n d p"
  obtains d' where
      "BlockCache_sync bd (arc_cache (snd p)) d = Inr ((arc_cache (snd p))\<lparr>bc_modified := False\<rparr>, d')"
    and "\<And>c. read_block bd d' c = (if c = fst p then Inr (bc_cache (arc_cache (snd p))) else read_block bd d c)"
proof (cases "bc_modified (arc_cache (snd p))")
  case True
  from ok have b: "unat (fst p) < n" and len: "length (bc_cache (arc_cache (snd p))) = 512"
    and id: "bc_block_id (arc_cache (snd p)) = fst p" by (simp_all add: slot_ok_def)
  obtain d' where "write_block bd d (fst p) (bc_cache (arc_cache (snd p))) = Inr d'"
    "\<And>c. read_block bd d' c = (if c = fst p then Inr (bc_cache (arc_cache (snd p))) else read_block bd d c)"
    by (rule device_writeE [OF dev b len, of d]) blast
  with that [of d'] True id show thesis by (simp add: BlockCache_sync_def)
next
  case False
  with ok that [of d] show thesis by (simp add: slot_ok_def BlockCache_sync_def)
qed

lemma evict_ok:
  assumes inv: "cache_inv bd n s"
  obtains s' where "evict bd s = Inr s'" and "cache_inv bd n s'"
    and "length (bcm_queue s') < BLOCK_CACHE_SIZE" and "set (bcm_queue s') \<subseteq> set (bcm_queue s)"
    and "\<And>b. block_view bd s' b = block_view bd s b"
proof (cases "length (bcm_queue s) = BLOCK_CACHE_SIZE")
  case False
  with inv that [of s] show thesis by (auto simp: evict_def cache_inv_def)
next
  case True
  then obtain k a q where q: "bcm_queue s = (k, a) # q"
    by (cases "bcm_queue s") (auto simp: BLOCK_CACHE_SIZE_def)
  from inv q have ok: "slot_ok bd n (bcm_device s) (k, a)" and k: "k \<notin> fst ` set q"
    and dev: "device_ok bd n" by (auto simp: cache_inv_def)
  let ?c = "arc_cache a"
  obtain d' where sync: "BlockCache_sync bd ?c (bcm_device s) = Inr (?c\<lparr>bc_modified := False\<rparr>, d')"
    and rd: "\<And>c. read_block bd d' c = (if c = k then Inr (bc_cache ?c) else read_block bd (bcm_device s) c)"
    by (rule sync_slot [OF dev ok, unfolded fst_conv snd_conv]) blast
  let ?s = "s\<lparr>bcm_queue := q, bcm_device := d'\<rparr>"
  have "evict bd s = Inr ?s"
    using True ok q sync by (simp add: evict_def slot_ok_def remove_nth_def BlockCache_drop_def)
  moreover have "cache_inv bd n ?s"
    using inv k by (auto simp: cache_inv_def q slot_ok_def rd) (metis image_eqI fst_conv)+
  moreover have "block_view bd ?s b = block_view bd s b" for b
    using k by (auto simp: block_view_def q device_block_def rd split: option.split
          dest: map_of_SomeD simp flip: not_None_eq) (metis fst_conv image_eqI map_of_SomeD)?
  ultimately show thesis using that [of ?s] True by (auto simp: q BLOCK_CACHE_SIZE_def)
qed

lemma map_of_list_update:
  assumes "distinct (map fst q)" and "i < length q" and "q ! i = (b, a)"
  shows "map_of (q[i := (b, a')]) = (map_of q)(b \<mapsto> a')"
  using assms
proof (induction q arbitrary: i)
  case (Cons p q)
  then show ?case by (cases i; cases p) (auto simp: fun_eq_iff, (metis fst_conv image_eqI nth_mem)?)
qed simp

lemma slot_update:
  assumes inv: "cache_inv bd n s" and i: "i < length (bcm_queue s)" "bcm_queue s ! i = (b, a)"
    and bc: "bc_block_id bc = b" "length (bc_cache bc) = 512" "bc = arc_cache a \<or> bc_modified bc"
  defines "s' \<equiv> s\<lparr>bcm_queue := (bcm_queue s)[i := (b, a\<lparr>arc_cache := bc\<rparr>)]\<rparr>"
  shows "cache_inv bd n s'"
    and "block_view bd s' b = bc_cache bc"
    and "c \<noteq> b \<Longrightarrow> block_view bd s' c = block_view bd s c"
proof -
  from i have "(b, a) \<in> set (bcm_queue s)" by (metis nth_mem)
  with inv have "slot_ok bd n (bcm_device s) (b, a)" by (auto simp: cache_inv_def)
  with bc have new: "slot_ok bd n (bcm_device s) (b, a\<lparr>arc_cache := bc\<rparr>)"
    by (auto simp: slot_ok_def)
  have "map fst ((bcm_queue s)[i := (b, a\<lparr>arc_cache := bc\<rparr>)]) = map fst (bcm_queue s)"
    using i by (simp add: map_update) (metis fst_conv list_update_id nth_map)
  with inv new show "cache_inv bd n s'"
    by (auto simp: cache_inv_def s'_def dest!: set_update_subset_insert [THEN subsetD])
  have "map_of (bcm_queue s') = (map_of (bcm_queue s))(b \<mapsto> a\<lparr>arc_cache := bc\<rparr>)"
    using inv i map_of_list_update by (fastforce simp: cache_inv_def s'_def)
  then show "block_view bd s' b = bc_cache bc"
    and "c \<noteq> b \<Longrightarrow> block_view bd s' c = block_view bd s c"
    by (simp_all add: block_view_def s'_def split: option.split)
qed

lemma load_block:
  assumes inv: "cache_inv bd n s" and b: "unat b < n" and q: "b \<notin> fst ` set (bcm_queue s)"
    and len: "length (bcm_queue s) < BLOCK_CACHE_SIZE"
    and bc: "BlockCache_new bd b (bcm_device s) = Inr bc"
  defines "s' \<equiv> s\<lparr>bcm_queue := bcm_queue s @ [(b, \<lparr>arc_cache = bc, arc_strong = 1\<rparr>)]\<rparr>"
  shows "cache_inv bd n s'" and "block_view bd s' c = block_view bd s c"
proof -
  from inv have dev: "device_ok bd n" by (simp add: cache_inv_def)
  obtain x where x: "read_block bd (bcm_device s) b = Inr x" "length x = 512"
    by (rule device_readE [OF dev b])
  with bc have c: "bc = \<lparr>bc_cache = x, bc_block_id = b, bc_modified = False\<rparr>"
    by (simp add: BlockCache_new_def)
  show "cache_inv bd n s'"
    using inv b q len x by (auto simp: cache_inv_def s'_def c slot_ok_def)
  show "block_view bd s' c = block_view bd s c"
    using q x by (auto simp: block_view_def s'_def c device_block_def map_of_eq_None_iff [THEN iffD2]
          split: option.split if_splits)
qed

text \<open>
  A method run on the cached block keeps the block number and the size, and marks the block when
  it changes it.
\<close>

definition keeps_block :: "BlockCache \<Rightarrow> BlockCache \<Rightarrow> bool" where
  "keeps_block bc bc' \<longleftrightarrow> bc_block_id bc' = bc_block_id bc
     \<and> length (bc_cache bc') = length (bc_cache bc) \<and> (bc' = bc \<or> bc_modified bc')"

lemma hit_access:
  assumes inv: "cache_inv bd n s" and pos: "position (\<lambda>p. fst p = b) (bcm_queue s) = Some i"
    and m: "m (arc_cache (snd (bcm_queue s ! i))) = Inr (v, bc)"
  shows "with_cache bd b m s
     = Inr (v, s\<lparr>bcm_queue := (bcm_queue s)[i := (b, (snd (bcm_queue s ! i))\<lparr>arc_cache := bc\<rparr>)]\<rparr>)"
proof -
  from position_SomeD [OF pos] have i: "i < length (bcm_queue s)" and b: "fst (bcm_queue s ! i) = b"
    by auto
  then obtain a where a: "bcm_queue s ! i = (b, a)" by (cases "bcm_queue s ! i") auto
  show ?thesis
    using i m a pos by (simp add: with_cache_def get_block_cache_def arc_drop_def)
qed

lemma miss_access:
  assumes pos: "position (\<lambda>p. fst p = b) (bcm_queue s) = None"
    and ev: "evict bd s = Inr s1" and new: "BlockCache_new bd b (bcm_device s1) = Inr bc0"
    and m: "m bc0 = Inr (v, bc)"
  shows "with_cache bd b m s
     = Inr (v, s1\<lparr>bcm_queue := bcm_queue s1 @ [(b, \<lparr>arc_cache = bc, arc_strong = 1\<rparr>)]\<rparr>)"
  using assms by (simp add: with_cache_def get_block_cache_def arc_drop_def)

lemma with_cache_hit:
  assumes inv: "cache_inv bd n s" and b: "unat b < n"
    and m: "\<And>bc. bc_cache bc = block_view bd s b \<Longrightarrow>
              \<exists>v bc'. m bc = Inr (v, bc') \<and> keeps_block bc bc' \<and> P v (bc_cache bc')"
    and Some: "position (\<lambda>p. fst p = b) (bcm_queue s) = Some i"
  obtains v s' where "with_cache bd b m s = Inr (v, s')" and "cache_inv bd n s'"
    and "P v (block_view bd s' b)" and "\<And>c. c \<noteq> b \<Longrightarrow> block_view bd s' c = block_view bd s c"
proof -
  from position_SomeD [OF Some] have i: "i < length (bcm_queue s)" and bi: "fst (bcm_queue s ! i) = b"
    by auto
  then obtain a where a: "bcm_queue s ! i = (b, a)" by (cases "bcm_queue s ! i") auto
  with i have mem: "(b, a) \<in> set (bcm_queue s)" by (metis nth_mem)
  with inv have ok: "slot_ok bd n (bcm_device s) (b, a)" by (auto simp: cache_inv_def)
  have view: "block_view bd s b = bc_cache (arc_cache a)"
    using inv mem by (intro block_view_Some) (auto simp: cache_inv_def)
  from m [OF view [symmetric]] obtain v bc where bc: "m (arc_cache a) = Inr (v, bc)"
    "keeps_block (arc_cache a) bc" "P v (bc_cache bc)" by blast
  have k: "bc_block_id bc = b" "length (bc_cache bc) = 512" "bc = arc_cache a \<or> bc_modified bc"
    using bc(2) ok by (auto simp: keeps_block_def slot_ok_def)
  note upd = slot_update [OF inv i a k]
  have "with_cache bd b m s = Inr (v, s\<lparr>bcm_queue := (bcm_queue s)[i := (b, a\<lparr>arc_cache := bc\<rparr>)]\<rparr>)"
    using hit_access [OF inv Some, of m v bc] bc(1) a by simp
  then show thesis by (rule that) (use upd bc(3) in auto)
qed

lemma with_cache_miss:
  assumes inv: "cache_inv bd n s" and b: "unat b < n"
    and m: "\<And>bc. bc_cache bc = block_view bd s b \<Longrightarrow>
              \<exists>v bc'. m bc = Inr (v, bc') \<and> keeps_block bc bc' \<and> P v (bc_cache bc')"
    and None: "position (\<lambda>p. fst p = b) (bcm_queue s) = None"
  obtains v s' where "with_cache bd b m s = Inr (v, s')" and "cache_inv bd n s'"
    and "P v (block_view bd s' b)" and "\<And>c. c \<noteq> b \<Longrightarrow> block_view bd s' c = block_view bd s c"
proof -
  from None have q: "b \<notin> fst ` set (bcm_queue s)" by (auto simp: position_None_iff)
  obtain s1 where s1: "evict bd s = Inr s1" "cache_inv bd n s1"
    "length (bcm_queue s1) < BLOCK_CACHE_SIZE" "set (bcm_queue s1) \<subseteq> set (bcm_queue s)"
    "\<And>c. block_view bd s1 c = block_view bd s c" by (rule evict_ok [OF inv]) blast
  from s1(2) have dev: "device_ok bd n" by (simp add: cache_inv_def)
  obtain x where x: "read_block bd (bcm_device s1) b = Inr x" "length x = 512"
    by (rule device_readE [OF dev b])
  define bc0 where "bc0 = \<lparr>bc_cache = x, bc_block_id = b, bc_modified = False\<rparr>"
  have new: "BlockCache_new bd b (bcm_device s1) = Inr bc0"
    using x by (simp add: BlockCache_new_def bc0_def)
  from q s1(4) have q1: "b \<notin> fst ` set (bcm_queue s1)" by auto
  let ?s2 = "s1\<lparr>bcm_queue := bcm_queue s1 @ [(b, \<lparr>arc_cache = bc0, arc_strong = 1\<rparr>)]\<rparr>"
  note load = load_block [OF s1(2) b q1 s1(3) new]
  have "bc_cache bc0 = block_view bd s b"
    using q1 x s1(5) by (simp add: block_view_None [symmetric] bc0_def block_view_None device_block_def
          flip: s1(5))
  from m [OF this] obtain v bc where bc: "m bc0 = Inr (v, bc)" "keeps_block bc0 bc" "P v (bc_cache bc)"
    by blast
  have k: "bc_block_id bc = b" "length (bc_cache bc) = 512"
    "bc = arc_cache \<lparr>arc_cache = bc0, arc_strong = 1\<rparr> \<or> bc_modified bc"
    using bc(2) x by (auto simp: keeps_block_def bc0_def)
  have i: "length (bcm_queue s1) < length (bcm_queue ?s2)"
    "bcm_queue ?s2 ! length (bcm_queue s1) = (b, \<lparr>arc_cache = bc0, arc_strong = 1\<rparr>)" by simp_all
  note upd = slot_update [OF load(1) i k]
  have "with_cache bd b m s
      = Inr (v, s1\<lparr>bcm_queue := bcm_queue s1 @ [(b, \<lparr>arc_cache = bc, arc_strong = 1\<rparr>)]\<rparr>)"
    by (rule miss_access [where m = m, OF None s1(1) new bc(1)])
  then show thesis by (rule that) (use upd bc(3) load(2) s1(5) in auto)
qed

lemma with_cache_ok:
  assumes inv: "cache_inv bd n s" and b: "unat b < n"
    and m: "\<And>bc. bc_cache bc = block_view bd s b \<Longrightarrow>
              \<exists>v bc'. m bc = Inr (v, bc') \<and> keeps_block bc bc' \<and> P v (bc_cache bc')"
  obtains v s' where "with_cache bd b m s = Inr (v, s')" and "cache_inv bd n s'"
    and "P v (block_view bd s' b)" and "\<And>c. c \<noteq> b \<Longrightarrow> block_view bd s' c = block_view bd s c"
proof (cases "position (\<lambda>p. fst p = b) (bcm_queue s)")
  case None
  show thesis by (rule with_cache_miss [OF inv b m None]) (assumption, rule that)
next
  case (Some i)
  show thesis by (rule with_cache_hit [OF inv b m Some]) (assumption, rule that)
qed

section \<open>Reading and writing bytes\<close>

text \<open>Block number and offset of a byte address inside the device.\<close>

lemma block_of_nat:
  assumes "o1 < n * 512" and "n < 2 ^ 54"
  shows "(of_nat o1 :: usize) div BLOCK_SZ = of_nat (o1 div 512)"
    and "unat ((of_nat o1 :: usize) mod BLOCK_SZ) = o1 mod 512"
    and "unat (of_nat (o1 div 512) :: usize) = o1 div 512" and "o1 div 512 < n"
proof -
  from assms have "o1 < 2 ^ 64" by simp
  then have u: "unat (of_nat o1 :: usize) = o1" by (simp add: unat_of_nat)
  show d: "unat (of_nat (o1 div 512) :: usize) = o1 div 512"
    using \<open>o1 < 2 ^ 64\<close> by (simp add: unat_of_nat)
  show "(of_nat o1 :: usize) div BLOCK_SZ = of_nat (o1 div 512)"
    unfolding word_unat_eq_iff d using u by (simp add: unat_div BLOCK_SZ_def)
  show "unat ((of_nat o1 :: usize) mod BLOCK_SZ) = o1 mod 512"
    using u by (simp add: unat_mod BLOCK_SZ_def)
  show "o1 div 512 < n" using assms by (simp add: less_mult_imp_div_less)
qed

lemma get_ref_whole: "length (bc_cache bc) = 512 \<Longrightarrow> get_ref BLOCK_SZ bc 0 = Inr (bc_cache bc)"
  by (auto simp: get_ref_def addr_of_offset_def BLOCK_SZ_def)

lemma modify_whole:
  "length (bc_cache bc) = 512 \<Longrightarrow> f (bc_cache bc) = Inr (v, t) \<Longrightarrow>
   BlockCache_modify BLOCK_SZ bc 0 f = Inr (v, bc\<lparr>bc_modified := True, bc_cache := t\<rparr>)"
  by (auto simp: BlockCache_modify_def get_mut_def addr_of_offset_def BLOCK_SZ_def)

lemma disk_byte_in_block:
  assumes "o1 mod 512 + j < 512"
  shows "disk_byte bd s (o1 + j) = block_view bd s (of_nat (o1 div 512)) ! (o1 mod 512 + j)"
proof -
  have "o1 + j = 512 * (o1 div 512) + (o1 mod 512 + j)" by simp
  with assms have "(o1 + j) div 512 = o1 div 512" "(o1 + j) mod 512 = o1 mod 512 + j"
    by (metis div_mult_self4 div_less add_0_right zero_neq_numeral mult.commute,
        metis mod_mult_self4 mod_less)
  then show ?thesis by (simp add: disk_byte_def)
qed

lemma fat_read_round:
  assumes inv: "cache_inv bd n s" and rs: "rs < length buf" and o1: "o1 < n * 512"
  defines "k \<equiv> min (length buf - rs) (512 - o1 mod 512)"
  defines "buf' \<equiv> take rs buf @ map (\<lambda>j. disk_byte bd s (o1 + j)) [0..<k] @ drop (rs + k) buf"
  obtains s' where "fat_read_loop bd buf rs (of_nat o1) s
      = fat_read_loop bd buf' (rs + k) (of_nat (o1 + k)) s'"
    and "cache_inv bd n s'" and "block_view bd s' = block_view bd s"
proof -
  from inv have n: "n < 2 ^ 54" by (simp add: cache_inv_def device_ok_def)
  note bl = block_of_nat [OF o1 n]
  let ?b = "of_nat (o1 div 512) :: usize"
  let ?m = "\<lambda>bc. rbind (BlockCache_read BLOCK_SZ bc 0 (\<lambda>block_data.
                    rbind (slice_at block_data (o1 mod 512) (o1 mod 512 + k))
                      (copy_from_slice buf rs (rs + k)))) (\<lambda>buf'. Inr (buf', bc))"
  have b: "unat ?b < n" using bl(3,4) by simp
  have len: "length (block_view bd s ?b) = 512" by (rule block_view_length [OF inv b])
  have k: "o1 mod 512 + k \<le> 512" "rs + k \<le> length buf" using rs by (auto simp: k_def)
  have src: "take k (drop (o1 mod 512) (block_view bd s ?b)) = map (\<lambda>j. disk_byte bd s (o1 + j)) [0..<k]"
    using k len by (intro nth_equalityI) (auto simp: disk_byte_in_block)
  have m: "?m bc = Inr (buf', bc)" if "bc_cache bc = block_view bd s ?b" for bc
    using that k len src by (simp add: BlockCache_read_def get_ref_whole slice_at_def copy_from_slice_def buf'_def)
  obtain v s' where s': "with_cache bd ?b ?m s = Inr (v, s')" "cache_inv bd n s'"
      "v = buf' \<and> block_view bd s' ?b = block_view bd s ?b"
      "\<And>c. c \<noteq> ?b \<Longrightarrow> block_view bd s' c = block_view bd s c"
    by (rule with_cache_ok [OF inv b, where m = ?m and P = "\<lambda>v x. v = buf' \<and> x = block_view bd s ?b"])
      (use m in \<open>auto simp: keeps_block_def\<close>)
  have "block_view bd s' = block_view bd s" using s'(3,4) by (intro ext) metis
  moreover have "fat_read_loop bd buf rs (of_nat o1) s
      = fat_read_loop bd buf' (rs + k) (of_nat (o1 + k)) s'"
    using rs s'(1,3) unfolding fat_read_loop.simps [of bd buf rs]
    by (simp add: Let_def bl(1,2) k_def BLOCK_SZ_def [THEN arg_cong, of unat])
  ultimately show thesis using that s'(2) by blast
qed

lemma disk_byte_cong: "block_view bd s' = block_view bd s \<Longrightarrow> disk_byte bd s' = disk_byte bd s"
  by (simp add: disk_byte_def fun_eq_iff)

lemma fat_read_loop_ok:
  assumes "cache_inv bd n s" and "rs \<le> length buf" and "o1 + (length buf - rs) \<le> n * 512"
  shows "\<exists>s'. fat_read_loop bd buf rs (of_nat o1) s
      = Inr (length buf, take rs buf @ map (\<lambda>j. disk_byte bd s (o1 + j)) [0..<length buf - rs], s')
    \<and> cache_inv bd n s' \<and> block_view bd s' = block_view bd s"
  using assms
proof (induction "length buf - rs" arbitrary: rs buf o1 s rule: less_induct)
  case less
  show ?case
  proof (cases "rs < length buf")
    case False
    with less.prems show ?thesis by (auto simp: fat_read_loop.simps [of bd buf])
  next
    case True
    with less.prems(3) have o1: "o1 < n * 512" by simp
    define k where "k = min (length buf - rs) (512 - o1 mod 512)"
    define buf' where "buf' = take rs buf @ map (\<lambda>j. disk_byte bd s (o1 + j)) [0..<k] @ drop (rs + k) buf"
    obtain s1 where s1: "fat_read_loop bd buf rs (of_nat o1) s
        = fat_read_loop bd buf' (rs + k) (of_nat (o1 + k)) s1"
      "cache_inv bd n s1" "block_view bd s1 = block_view bd s"
      using fat_read_round [OF less.prems(1) True o1] unfolding k_def buf'_def by blast
    have k: "0 < k" "rs + k \<le> length buf" using True by (auto simp: k_def)
    then have len: "length buf' = length buf" by (simp add: buf'_def)
    have "length buf' - (rs + k) < length buf - rs" "rs + k \<le> length buf'"
      "o1 + k + (length buf' - (rs + k)) \<le> n * 512" using k True less.prems(3) len by auto
    from less.hyps [OF this(1) s1(2) this(2,3)] len
    obtain s2 where s2: "fat_read_loop bd buf' (rs + k) (of_nat (o1 + k)) s1
        = Inr (length buf, take (rs + k) buf'
            @ map (\<lambda>j. disk_byte bd s1 (o1 + k + j)) [0..<length buf - (rs + k)], s2)"
      "cache_inv bd n s2" "block_view bd s2 = block_view bd s1" by auto
    have "take (rs + k) buf' @ map (\<lambda>j. disk_byte bd s1 (o1 + k + j)) [0..<length buf - (rs + k)]
        = take rs buf @ map (\<lambda>j. disk_byte bd s (o1 + j)) [0..<length buf - rs]"
      using k by (intro nth_equalityI) (auto simp: buf'_def nth_append disk_byte_cong [OF s1(3)])
    with s1 s2 show ?thesis by simp
  qed
qed

lemma same_block_offsets:
  assumes "a div 512 = o1 div (512 :: nat)"
  shows "o1 \<le> a \<longleftrightarrow> o1 mod 512 \<le> a mod 512" and "a < o1 + k \<longleftrightarrow> a mod 512 < o1 mod 512 + k"
    and "a - o1 = a mod 512 - o1 mod 512"
proof -
  define q r t where "q = o1 div 512" and "r = a mod 512" and "t = o1 mod 512"
  have "a = 512 * q + r" "o1 = 512 * q + t"
    using assms by (simp_all add: q_def r_def t_def) (metis mult_div_mod_eq)
  then show "o1 \<le> a \<longleftrightarrow> o1 mod 512 \<le> a mod 512" and "a < o1 + k \<longleftrightarrow> a mod 512 < o1 mod 512 + k"
    and "a - o1 = a mod 512 - o1 mod 512"
    unfolding r_def [symmetric] t_def [symmetric] by linarith+
qed

lemma other_block_offsets:
  assumes "a div 512 \<noteq> o1 div (512 :: nat)" and "o1 mod 512 + k \<le> 512"
  shows "\<not> (o1 \<le> a \<and> a < o1 + k)"
proof
  assume a: "o1 \<le> a \<and> a < o1 + k"
  define q t where "q = o1 div 512" and "t = o1 mod 512"
  have o1: "o1 = 512 * q + t" by (simp add: q_def t_def)
  with a assms(2) have "512 * q \<le> a" "a < 512 * q + 512" unfolding t_def [symmetric] by linarith+
  then have "a div 512 = q" by (simp add: div_nat_eqI)
  with assms(1) show False by (simp add: q_def)
qed

lemma splice_bytes:
  assumes n: "n < 2 ^ 54" and o1: "o1 < n * 512"
    and len: "length (block_view bd s (of_nat (o1 div 512))) = 512"
    and k: "o1 mod 512 + k \<le> 512" "ws + k \<le> length buf"
    and new: "block_view bd s' (of_nat (o1 div 512))
        = take (o1 mod 512) (block_view bd s (of_nat (o1 div 512))) @ take k (drop ws buf)
          @ drop (o1 mod 512 + k) (block_view bd s (of_nat (o1 div 512)))"
    and old: "\<And>c. c \<noteq> of_nat (o1 div 512) \<Longrightarrow> block_view bd s' c = block_view bd s c"
    and a: "a < n * 512"
  shows "disk_byte bd s' a = (if o1 \<le> a \<and> a < o1 + k then buf ! (ws + (a - o1)) else disk_byte bd s a)"
proof (cases "a div 512 = o1 div 512")
  case False
  with block_of_nat(3) [OF a n] block_of_nat(3) [OF o1 n]
  have "of_nat (a div 512) \<noteq> (of_nat (o1 div 512) :: usize)" by metis
  then have "disk_byte bd s' a = disk_byte bd s a" by (simp add: disk_byte_def old)
  with other_block_offsets [OF False k(1)] show ?thesis by (simp only: if_False)
next
  case True
  note ao = same_block_offsets [OF True]
  have "a mod 512 < 512" by simp
  then show ?thesis
    using len k unfolding disk_byte_def True new ao by (auto simp: nth_append)
qed

lemma fat_write_round:
  assumes inv: "cache_inv bd n s" and ws: "ws < length buf" and o1: "o1 < n * 512"
  defines "k \<equiv> min (length buf - ws) (512 - o1 mod 512)"
  obtains s' where "fat_write_loop bd buf ws (of_nat o1) s
      = fat_write_loop bd buf (ws + k) (of_nat (o1 + k)) s'"
    and "cache_inv bd n s'"
    and "\<And>a. a < n * 512 \<Longrightarrow>
      disk_byte bd s' a = (if o1 \<le> a \<and> a < o1 + k then buf ! (ws + (a - o1)) else disk_byte bd s a)"
proof -
  from inv have n: "n < 2 ^ 54" by (simp add: cache_inv_def device_ok_def)
  note bl = block_of_nat [OF o1 n]
  let ?b = "of_nat (o1 div 512) :: usize"
  let ?src = "take k (drop ws buf)"
  let ?m = "\<lambda>bc. BlockCache_modify BLOCK_SZ bc 0 (\<lambda>block_data.
                   rbind (slice_at buf ws (ws + k)) (\<lambda>src.
                   rbind (copy_from_slice block_data (o1 mod 512) (o1 mod 512 + k) src)
                     (\<lambda>block_data. Inr ((), block_data))))"
  let ?new = "take (o1 mod 512) (block_view bd s ?b) @ ?src @ drop (o1 mod 512 + k) (block_view bd s ?b)"
  have b: "unat ?b < n" using bl(3,4) by simp
  have len: "length (block_view bd s ?b) = 512" by (rule block_view_length [OF inv b])
  have k: "o1 mod 512 + k \<le> 512" "ws + k \<le> length buf" using ws by (auto simp: k_def)
  have m: "?m bc = Inr ((), bc\<lparr>bc_modified := True, bc_cache := ?new\<rparr>)"
    if "bc_cache bc = block_view bd s ?b" for bc
    using that k len by (intro modify_whole) (simp_all add: slice_at_def copy_from_slice_def)
  have "length ?new = 512" using k len by simp
  then have keeps: "\<exists>v bc'. ?m bc = Inr (v, bc') \<and> keeps_block bc bc' \<and> bc_cache bc' = ?new"
    if "bc_cache bc = block_view bd s ?b" for bc
    using that len unfolding m [OF that] by (simp add: keeps_block_def)
  obtain v s' where s': "with_cache bd ?b ?m s = Inr (v, s')" "cache_inv bd n s'"
      "block_view bd s' ?b = ?new" "\<And>c. c \<noteq> ?b \<Longrightarrow> block_view bd s' c = block_view bd s c"
    by (rule with_cache_ok [OF inv b, where m = ?m and P = "\<lambda>v x. x = ?new"])
      (erule keeps, blast)
  note bytes = splice_bytes [OF n o1 len k s'(3,4)]
  have "fat_write_loop bd buf ws (of_nat o1) s
      = fat_write_loop bd buf (ws + k) (of_nat (o1 + k)) s'"
    using ws s'(1) unfolding fat_write_loop.simps [of bd buf ws]
    by (simp add: Let_def bl(1,2) k_def BLOCK_SZ_def [THEN arg_cong, of unat])
  then show thesis using that s'(2) bytes by blast
qed

lemma fat_write_loop_ok:
  assumes "cache_inv bd n s" and "ws \<le> length buf" and "o1 + (length buf - ws) \<le> n * 512"
  shows "\<exists>s'. fat_write_loop bd buf ws (of_nat o1) s = Inr (length buf, s') \<and> cache_inv bd n s'
    \<and> (\<forall>a < n * 512. disk_byte bd s' a
         = (if o1 \<le> a \<and> a < o1 + (length buf - ws) then buf ! (ws + (a - o1)) else disk_byte bd s a))"
  using assms
proof (induction "length buf - ws" arbitrary: ws o1 s rule: less_induct)
  case less
  show ?case
  proof (cases "ws < length buf")
    case False
    with less.prems show ?thesis by (auto simp: fat_write_loop.simps [of bd buf])
  next
    case True
    with less.prems(3) have o1: "o1 < n * 512" by simp
    define k where "k = min (length buf - ws) (512 - o1 mod 512)"
    obtain s1 where s1: "fat_write_loop bd buf ws (of_nat o1) s
        = fat_write_loop bd buf (ws + k) (of_nat (o1 + k)) s1" "cache_inv bd n s1"
      "\<And>a. a < n * 512 \<Longrightarrow>
        disk_byte bd s1 a = (if o1 \<le> a \<and> a < o1 + k then buf ! (ws + (a - o1)) else disk_byte bd s a)"
      using fat_write_round [OF less.prems(1) True o1] unfolding k_def by blast
    have k: "0 < k" "ws + k \<le> length buf" using True by (auto simp: k_def)
    have "length buf - (ws + k) < length buf - ws" "o1 + k + (length buf - (ws + k)) \<le> n * 512"
      using k True less.prems(3) by auto
    from less.hyps [OF this(1) s1(2) k(2) this(2)] obtain s2 where
      s2: "fat_write_loop bd buf (ws + k) (of_nat (o1 + k)) s1 = Inr (length buf, s2)" "cache_inv bd n s2"
      "\<And>a. a < n * 512 \<Longrightarrow> disk_byte bd s2 a = (if o1 + k \<le> a \<and> a < o1 + k + (length buf - (ws + k))
         then buf ! (ws + k + (a - (o1 + k))) else disk_byte bd s1 a)" by blast
    have "disk_byte bd s2 a = (if o1 \<le> a \<and> a < o1 + (length buf - ws)
        then buf ! (ws + (a - o1)) else disk_byte bd s a)" if "a < n * 512" for a
    proof (cases "o1 + k \<le> a")
      case True
      then have "ws + k + (a - (o1 + k)) = ws + (a - o1)" by linarith
      moreover have "a < o1 + k + (length buf - (ws + k)) \<longleftrightarrow> a < o1 + (length buf - ws)" "o1 \<le> a"
        "\<not> a < o1 + k" using k(2) True by linarith+
      ultimately show ?thesis using s1(3) [OF that] s2(3) [OF that] True by (simp only: simp_thms if_True if_False)
    next
      case False
      then have "o1 \<le> a \<and> a < o1 + (length buf - ws) \<longleftrightarrow> o1 \<le> a \<and> a < o1 + k" using k(2) by linarith
      with False s1(3) [OF that] s2(3) [OF that] show ?thesis by (simp only: simp_thms if_False)
    qed
    with s1(1) s2(1,2) show ?thesis by auto
  qed
qed

section \<open>Writing the cache back\<close>

lemma sync_queue_ok:
  assumes "device_ok bd n" and "distinct (map fst q)" and "\<forall>p \<in> set q. slot_ok bd n d p"
  shows "\<exists>q' d'. sync_queue bd q d = Inr (q', d') \<and> map fst q' = map fst q
    \<and> (\<forall>p \<in> set q'. slot_ok bd n d' p \<and> \<not> bc_modified (arc_cache (snd p)))
    \<and> (\<forall>b. map_option (\<lambda>a. bc_cache (arc_cache a)) (map_of q' b)
          = map_option (\<lambda>a. bc_cache (arc_cache a)) (map_of q b))
    \<and> (\<forall>b. b \<notin> fst ` set q \<longrightarrow> read_block bd d' b = read_block bd d b)"
  using assms(2,3)
proof (induction q arbitrary: d)
  case Nil
  show ?case by simp
next
  case (Cons p q)
  let ?c = "arc_cache (snd p)"
  from Cons.prems have ok: "slot_ok bd n d p" and fresh: "fst p \<notin> fst ` set q" by auto
  obtain d1 where d1: "BlockCache_sync bd ?c d = Inr (?c\<lparr>bc_modified := False\<rparr>, d1)"
    "\<And>c. read_block bd d1 c = (if c = fst p then Inr (bc_cache ?c) else read_block bd d c)"
    by (rule sync_slot [OF assms(1) ok]) blast
  have "\<forall>p \<in> set q. slot_ok bd n d1 p"
    using Cons.prems fresh d1(2) by (auto simp: slot_ok_def) (metis fst_conv image_eqI)+
  with Cons.IH [of d1] Cons.prems(1) obtain q' d' where
    q': "sync_queue bd q d1 = Inr (q', d')" "map fst q' = map fst q"
      "\<forall>p \<in> set q'. slot_ok bd n d' p \<and> \<not> bc_modified (arc_cache (snd p))"
      "\<forall>b. map_option (\<lambda>a. bc_cache (arc_cache a)) (map_of q' b)
          = map_option (\<lambda>a. bc_cache (arc_cache a)) (map_of q b)"
      "\<forall>b. b \<notin> fst ` set q \<longrightarrow> read_block bd d' b = read_block bd d1 b" by auto
  have "slot_ok bd n d' (fst p, (snd p)\<lparr>arc_cache := ?c\<lparr>bc_modified := False\<rparr>\<rparr>)"
    using ok q'(5) fresh d1(2) by (simp add: slot_ok_def)
  with q' d1 show ?case by (cases p) auto
qed

lemma sync_all_ok:
  assumes inv: "cache_inv bd n s"
  obtains s' where "block_cache_sync_all bd s = Inr s'" and "cache_inv bd n s'"
    and "block_view bd s' = block_view bd s"
    and "\<And>b. unat b < n \<Longrightarrow> device_block bd (bcm_device s') b = block_view bd s b"
proof -
  from inv have "device_ok bd n" "distinct (map fst (bcm_queue s))"
    "\<forall>p \<in> set (bcm_queue s). slot_ok bd n (bcm_device s) p" by (auto simp: cache_inv_def)
  from sync_queue_ok [OF this] obtain q' d' where
    q': "sync_queue bd (bcm_queue s) (bcm_device s) = Inr (q', d')" "map fst q' = map fst (bcm_queue s)"
      "\<forall>p \<in> set q'. slot_ok bd n d' p \<and> \<not> bc_modified (arc_cache (snd p))"
      "\<forall>b. map_option (\<lambda>a. bc_cache (arc_cache a)) (map_of q' b)
          = map_option (\<lambda>a. bc_cache (arc_cache a)) (map_of (bcm_queue s) b)"
      "\<forall>b. b \<notin> fst ` set (bcm_queue s) \<longrightarrow> read_block bd d' b = read_block bd (bcm_device s) b"
    by blast
  let ?s = "s\<lparr>bcm_queue := q', bcm_device := d'\<rparr>"
  have "length q' = length (bcm_queue s)" using arg_cong [OF q'(2), of length] by simp
  then have "cache_inv bd n ?s" using inv q' by (simp add: cache_inv_def)
  moreover have v: "block_view bd ?s b = block_view bd s b" for b
    using q'(4) [rule_format, of b] q'(5) [rule_format, of b]
    by (auto simp: block_view_def device_block_def split: option.splits)
      (metis map_of_eq_None_iff)
  moreover have "device_block bd d' b = block_view bd ?s b" for b
    using q'(3) by (auto simp: block_view_def device_block_def slot_ok_def split: option.split
          dest!: map_of_SomeD)
  ultimately show thesis using that [of ?s] q'(1) by (auto simp: block_cache_sync_all_def)
qed

section \<open>The interface of a byte store\<close>

text \<open>
  A request reads \<open>k\<close> bytes at an address or writes bytes there; \<open>run_requests\<close> serves them in
  order, and \<open>apart\<close> are those that stay inside the device and write outside \<open>[lo, hi)\<close>.
\<close>

type_synonym request = "nat \<times> nat + nat \<times> u8 list"

definition serve :: "(nat \<Rightarrow> nat \<Rightarrow> 's \<Rightarrow> (u8 list \<times> 's) result) \<Rightarrow> (nat \<Rightarrow> u8 list \<Rightarrow> 's \<Rightarrow> 's result)
     \<Rightarrow> request \<Rightarrow> 's \<Rightarrow> 's result" where
  "serve rd wr r s = (case r of Inl (a, k) \<Rightarrow> rbind (rd a k s) (\<lambda>(_, s'). Inr s') | Inr (a, xs) \<Rightarrow> wr a xs s)"

definition run_requests :: "(nat \<Rightarrow> nat \<Rightarrow> 's \<Rightarrow> (u8 list \<times> 's) result) \<Rightarrow> (nat \<Rightarrow> u8 list \<Rightarrow> 's \<Rightarrow> 's result)
     \<Rightarrow> request list \<Rightarrow> 's \<Rightarrow> 's result" where
  "run_requests rd wr = rfold (serve rd wr)"

definition apart :: "nat \<Rightarrow> nat \<Rightarrow> nat \<Rightarrow> request \<Rightarrow> bool" where
  "apart cap lo hi r = (case r of Inl (a, k) \<Rightarrow> a + k \<le> cap
     | Inr (a, xs) \<Rightarrow> a + length xs \<le> cap \<and> (a + length xs \<le> lo \<or> hi \<le> a))"

text \<open>
  What a client of a seekable byte device relies on: a read returns the bytes and changes none, a
  write changes the bytes written and no other.
\<close>

locale byte_store =
  fixes ok :: "'s \<Rightarrow> bool"
    and capacity :: "'s \<Rightarrow> nat"
    and byte :: "'s \<Rightarrow> nat \<Rightarrow> u8"
    and rd :: "nat \<Rightarrow> nat \<Rightarrow> 's \<Rightarrow> (u8 list \<times> 's) result"
    and wr :: "nat \<Rightarrow> u8 list \<Rightarrow> 's \<Rightarrow> 's result"
  assumes rd: "ok s \<Longrightarrow> a + k \<le> capacity s \<Longrightarrow>
      \<exists>s'. rd a k s = Inr (map (\<lambda>j. byte s (a + j)) [0..<k], s') \<and> ok s' \<and> capacity s' = capacity s
         \<and> (\<forall>b. byte s' b = byte s b)"
    and wr: "ok s \<Longrightarrow> a + length xs \<le> capacity s \<Longrightarrow>
      \<exists>s'. wr a xs s = Inr s' \<and> ok s' \<and> capacity s' = capacity s
         \<and> (\<forall>b < capacity s. byte s' b = (if a \<le> b \<and> b < a + length xs then xs ! (b - a) else byte s b))"
begin

lemma request_keeps:
  assumes "ok s" and "apart (capacity s) lo hi r" and "hi \<le> capacity s"
  shows "\<exists>s'. serve rd wr r s = Inr s'
    \<and> ok s' \<and> capacity s' = capacity s \<and> (\<forall>b. lo \<le> b \<and> b < hi \<longrightarrow> byte s' b = byte s b)"
proof (cases r)
  case (Inl p)
  then obtain a k where r: "r = Inl (a, k)" by (cases p) auto
  with assms rd [of s a k] show ?thesis by (fastforce simp: apart_def serve_def)
next
  case (Inr p)
  then obtain a xs where r: "r = Inr (a, xs)" by (cases p) auto
  with assms(2) have d: "a + length xs \<le> capacity s" "a + length xs \<le> lo \<or> hi \<le> a"
    by (auto simp: apart_def)
  from wr [OF assms(1) d(1)] obtain s' where s': "wr a xs s = Inr s'" "ok s'" "capacity s' = capacity s"
    "\<And>b. b < capacity s \<Longrightarrow> byte s' b = (if a \<le> b \<and> b < a + length xs then xs ! (b - a) else byte s b)"
    by blast
  have "byte s' b = byte s b" if "lo \<le> b" "b < hi" for b
    using s'(4) [of b] d(2) that assms(3) by auto
  with r s' show ?thesis by (auto simp: serve_def)
qed

lemma run_keeps:
  assumes "ok s" and "\<forall>r \<in> set rs. apart (capacity s) lo hi r" and "hi \<le> capacity s"
  shows "\<exists>s'. run_requests rd wr rs s = Inr s' \<and> ok s' \<and> capacity s' = capacity s
    \<and> (\<forall>b. lo \<le> b \<and> b < hi \<longrightarrow> byte s' b = byte s b)"
  using assms
proof (induction rs arbitrary: s)
  case Nil
  then show ?case by (simp add: run_requests_def)
next
  case (Cons r rs)
  then have "apart (capacity s) lo hi r" by simp
  from request_keeps [OF Cons.prems(1) this Cons.prems(3)] obtain s1 where
    s1: "serve rd wr r s = Inr s1"
      "ok s1" "capacity s1 = capacity s" "\<forall>b. lo \<le> b \<and> b < hi \<longrightarrow> byte s1 b = byte s b" by blast
  have "\<forall>r \<in> set rs. apart (capacity s1) lo hi r" "hi \<le> capacity s1" using Cons.prems s1(3) by auto
  from Cons.IH [OF s1(2) this] obtain s2 where s2: "run_requests rd wr rs s1 = Inr s2" "ok s2" "capacity s2 = capacity s1"
    "\<forall>b. lo \<le> b \<and> b < hi \<longrightarrow> byte s2 b = byte s1 b" by blast
  have "run_requests rd wr (r # rs) s = Inr s2" using s1(1) s2(1) by (simp add: run_requests_def)
  with s1 s2 show ?case by metis
qed

lemma write_survives:
  assumes "ok s" and "a + length xs \<le> capacity s"
    and "\<forall>r \<in> set rs. apart (capacity s) a (a + length xs) r"
  shows "\<exists>s1 s2 s3. wr a xs s = Inr s1 \<and> run_requests rd wr rs s1 = Inr s2 \<and> rd a (length xs) s2 = Inr (xs, s3)"
proof -
  from wr [OF assms(1,2)] obtain s1 where s1: "wr a xs s = Inr s1" "ok s1" "capacity s1 = capacity s"
    "\<And>b. b < capacity s \<Longrightarrow> byte s1 b = (if a \<le> b \<and> b < a + length xs then xs ! (b - a) else byte s b)"
    by blast
  have "\<forall>r \<in> set rs. apart (capacity s1) a (a + length xs) r" using assms(3) s1(3) by simp
  from run_keeps [OF s1(2) this] assms(2) s1(3) obtain s2 where
    s2: "run_requests rd wr rs s1 = Inr s2" "ok s2" "capacity s2 = capacity s"
      "\<forall>b. a \<le> b \<and> b < a + length xs \<longrightarrow> byte s2 b = byte s1 b" by auto
  from rd [OF s2(2), of a "length xs"] s2(3) assms(2) obtain s3 where
    "rd a (length xs) s2 = Inr (map (\<lambda>j. byte s2 (a + j)) [0..<length xs], s3)" by auto
  moreover have "map (\<lambda>j. byte s2 (a + j)) [0..<length xs] = xs"
    using s2(4) s1(4) assms(2) by (intro nth_equalityI) auto
  ultimately show ?thesis using s1(1) s2(1) by auto
qed

end

text \<open>The device with its driver, size and cursor; an access seeks first.\<close>

type_synonym 'd fat_state = "'d BlockDevice \<times> nat \<times> usize \<times> 'd BlockCacheManager"

definition fat_ok :: "'d fat_state \<Rightarrow> bool" where "fat_ok = (\<lambda>(bd, n, off, s). cache_inv bd n s)"

definition fat_capacity :: "'d fat_state \<Rightarrow> nat" where "fat_capacity = (\<lambda>(bd, n, off, s). n * 512)"

definition fat_byte :: "'d fat_state \<Rightarrow> nat \<Rightarrow> u8" where "fat_byte = (\<lambda>(bd, n, off, s). disk_byte bd s)"

definition seek_read :: "nat \<Rightarrow> nat \<Rightarrow> 'd fat_state \<Rightarrow> (u8 list \<times> 'd fat_state) result" where
  "seek_read a k = (\<lambda>(bd, n, off, s).
     case fat_seek (Start (of_nat a)) off of
       (Inl e, off) \<Rightarrow> Inl Unwrap_None
     | (Inr _, off) \<Rightarrow> rbind (fat_read bd (replicate k 0) off s) (\<lambda>(_, buf, off, s). Inr (buf, bd, n, off, s)))"

definition seek_write :: "nat \<Rightarrow> u8 list \<Rightarrow> 'd fat_state \<Rightarrow> 'd fat_state result" where
  "seek_write a xs = (\<lambda>(bd, n, off, s).
     case fat_seek (Start (of_nat a)) off of
       (Inl e, off) \<Rightarrow> Inl Unwrap_None
     | (Inr _, off) \<Rightarrow> rbind (fat_write bd xs off s) (\<lambda>(_, off, s). Inr (bd, n, off, s)))"

lemma fat_read_ok:
  assumes "cache_inv bd n s" and "o1 + length buf \<le> n * 512"
  shows "\<exists>s'. fat_read bd buf (of_nat o1) s
      = Inr (Inr (length buf), map (\<lambda>j. disk_byte bd s (o1 + j)) [0..<length buf], of_nat (o1 + length buf), s')
    \<and> cache_inv bd n s' \<and> block_view bd s' = block_view bd s"
  using fat_read_loop_ok [of bd n s 0 buf o1] assms by (cases "buf = []") (auto simp: fat_read_def)

lemma fat_write_ok:
  assumes "cache_inv bd n s" and "o1 + length buf \<le> n * 512"
  shows "\<exists>s'. fat_write bd buf (of_nat o1) s = Inr (Inr (length buf), of_nat (o1 + length buf), s')
    \<and> cache_inv bd n s' \<and> (\<forall>a < n * 512. disk_byte bd s' a
         = (if o1 \<le> a \<and> a < o1 + length buf then buf ! (a - o1) else disk_byte bd s a))"
  using fat_write_loop_ok [of bd n s 0 buf o1] assms by (cases "buf = []") (auto simp: fat_write_def)

lemma seek_start:
  assumes "a + k \<le> n * 512" and "n < 2 ^ 54"
  shows "fat_seek (Start (of_nat a)) off = (Inr (of_nat a), of_nat a)"
proof -
  from assms have "a < 2 ^ 63" by simp
  then have "uint (of_nat a :: 64 word) = int a" by (simp add: unsigned_of_nat take_bit_nat_eq_self)
  with \<open>a < 2 ^ 63\<close> have "0 \<le> sint (of_nat a :: 64 word)"
    by (simp add: sint_uint signed_take_bit_int_eq_self)
  then show ?thesis by (simp add: fat_seek_def Let_def)
qed

interpretation fat: byte_store fat_ok fat_capacity fat_byte seek_read seek_write
proof
  fix s :: "'d fat_state" and a k
  assume s: "fat_ok s" "a + k \<le> fat_capacity s"
  obtain bd n off c where [simp]: "s = (bd, n, off, c)" by (cases s)
  from s have inv: "cache_inv bd n c" and r: "a + k \<le> n * 512" by (simp_all add: fat_ok_def fat_capacity_def)
  from inv have n: "n < 2 ^ 54" by (simp add: cache_inv_def device_ok_def)
  from fat_read_ok [OF inv, of a "replicate k 0"] r obtain c' where
    "fat_read bd (replicate k 0) (of_nat a) c
       = Inr (Inr k, map (\<lambda>j. disk_byte bd c (a + j)) [0..<k], of_nat (a + k), c')"
    "cache_inv bd n c'" "block_view bd c' = block_view bd c" by auto
  then show "\<exists>s'. seek_read a k s = Inr (map (\<lambda>j. fat_byte s (a + j)) [0..<k], s') \<and> fat_ok s'
      \<and> fat_capacity s' = fat_capacity s \<and> (\<forall>b. fat_byte s' b = fat_byte s b)"
    by (auto simp: seek_read_def seek_start [OF r n] fat_byte_def fat_ok_def fat_capacity_def
        dest: disk_byte_cong)
next
  fix s :: "'d fat_state" and a and xs :: "u8 list"
  assume s: "fat_ok s" "a + length xs \<le> fat_capacity s"
  obtain bd n off c where [simp]: "s = (bd, n, off, c)" by (cases s)
  from s have inv: "cache_inv bd n c" and r: "a + length xs \<le> n * 512"
    by (simp_all add: fat_ok_def fat_capacity_def)
  from inv have n: "n < 2 ^ 54" by (simp add: cache_inv_def device_ok_def)
  from fat_write_ok [OF inv r] show "\<exists>s'. seek_write a xs s = Inr s' \<and> fat_ok s'
      \<and> fat_capacity s' = fat_capacity s \<and> (\<forall>b < fat_capacity s. fat_byte s' b
         = (if a \<le> b \<and> b < a + length xs then xs ! (b - a) else fat_byte s b))"
    by (auto simp: seek_write_def seek_start [OF r n] fat_byte_def fat_ok_def fat_capacity_def)
qed

section \<open>Properties\<close>

text \<open>A disk held in memory, for the examples.\<close>

definition ram_disk :: "(usize \<Rightarrow> nat \<Rightarrow> u8) BlockDevice" where
  "ram_disk = \<lparr>read_block = \<lambda>d b. Inr (map (d b) [0..<512]), write_block = \<lambda>d b x. Inr (d(b := nth x))\<rparr>"

lemma ram_disk_ok: "n < 2 ^ 54 \<Longrightarrow> device_ok ram_disk n"
  by (auto simp: device_ok_def ram_disk_def intro: nth_equalityI)

lemma ram_disk_inv: "n < 2 ^ 54 \<Longrightarrow> cache_inv ram_disk n (BlockCacheManager_new d)"
  by (intro cache_inv_new ram_disk_ok)

text \<open>
  C2. The cached device refines a flat array of bytes. Inside the device, whatever is cached,
  evicted or dirty, a read fills the whole buffer with the bytes of the array and advances the
  cursor, changing no byte; a write stores its bytes, changes no other byte and advances the
  cursor. Neither ever runs out of cache slots.\<close>

theorem fat_device_refines_array:
  assumes "cache_inv bd n s" and "o1 + length buf \<le> n * 512"
  shows "(\<exists>s'. fat_read bd buf (of_nat o1) s
        = Inr (Inr (length buf), map (\<lambda>j. disk_byte bd s (o1 + j)) [0..<length buf], of_nat (o1 + length buf), s')
      \<and> cache_inv bd n s' \<and> disk_byte bd s' = disk_byte bd s)
    \<and> (\<exists>s'. fat_write bd buf (of_nat o1) s = Inr (Inr (length buf), of_nat (o1 + length buf), s')
      \<and> cache_inv bd n s' \<and> (\<forall>a. a < n * 512 \<longrightarrow> disk_byte bd s' a
           = (if o1 \<le> a \<and> a < o1 + length buf then buf ! (a - o1) else disk_byte bd s a)))"
  using fat_read_ok [OF assms] fat_write_ok [OF assms] by (blast intro: disk_byte_cong)

theorem fat_device_refines_array_witness:
  "\<exists>s'. fat_write ram_disk [1, 2, 3] 511 (BlockCacheManager_new (\<lambda>b i. 0)) = Inr (Inr 3, 514, s')
     \<and> cache_inv ram_disk 64 s' \<and> disk_byte ram_disk s' 513 = 3"
  using fat_device_refines_array [of ram_disk 64 "BlockCacheManager_new (\<lambda>b i. 0)" 511 "[1, 2, 3]",
      OF ram_disk_inv] by auto

text \<open>
  C21. What was written stays: after a write, any sequence of reads anywhere and of writes outside
  the written range succeeds, and a read of the range then returns the bytes written, however
  many cache slots were replaced in between.\<close>

theorem fat_write_survives:
  assumes "cache_inv bd n s" and "a + length xs \<le> n * 512"
    and "list_all (apart (n * 512) a (a + length xs)) rs"
  shows "\<exists>s1 s2 s3. seek_write a xs (bd, n, off, s) = Inr s1
    \<and> run_requests seek_read seek_write rs s1 = Inr s2 \<and> seek_read a (length xs) s2 = Inr (xs, s3)"
  using fat.write_survives [of "(bd, n, off, s)" a xs rs] assms
  by (simp add: fat_ok_def fat_capacity_def list_all_iff)

theorem fat_write_survives_witness:
  "\<exists>s1 s2 s3. seek_write 511 [7, 8] (ram_disk, 64, 0, BlockCacheManager_new (\<lambda>b i. 0)) = Inr s1
    \<and> run_requests seek_read seek_write [Inl (2048, 20000), Inr (513, [1, 1]), Inl (0, 4096)] s1 = Inr s2
    \<and> seek_read 511 (length [7, 8 :: u8]) s2 = Inr ([7, 8], s3)"
  using fat_write_survives [of ram_disk 64 "BlockCacheManager_new (\<lambda>b i. 0)" 511 "[7, 8]"
      "[Inl (2048, 20000), Inr (513, [1, 1]), Inl (0, 4096)]" 0, OF ram_disk_inv]
  by (simp add: apart_def)

text \<open>
  C22. \<open>flush\<close> makes the disk durable: it always succeeds, does not change what readers see, and
  afterwards a kernel that starts with an empty cache on the same disk sees every byte.\<close>

theorem fat_flush_durable:
  assumes "cache_inv bd n s"
  shows "\<exists>s'. fat_flush bd s = Inr s' \<and> cache_inv bd n s' \<and> disk_byte bd s' = disk_byte bd s
    \<and> (\<forall>a. a < n * 512 \<longrightarrow>
          disk_byte bd (BlockCacheManager_new (bcm_device s')) a = disk_byte bd s a)"
proof -
  from assms have n: "n < 2 ^ 54" by (simp add: cache_inv_def device_ok_def)
  obtain s' where s': "block_cache_sync_all bd s = Inr s'" "cache_inv bd n s'"
    "block_view bd s' = block_view bd s"
    "\<And>b. unat b < n \<Longrightarrow> device_block bd (bcm_device s') b = block_view bd s b"
    by (rule sync_all_ok [OF assms]) blast
  have "disk_byte bd (BlockCacheManager_new (bcm_device s')) a = disk_byte bd s a" if "a < n * 512" for a
    using s'(4) [of "of_nat (a div 512)"] block_of_nat(3,4) [OF that n]
    by (simp add: disk_byte_def block_view_def BlockCacheManager_new_def)
  with s' show ?thesis by (auto simp: fat_flush_def dest: disk_byte_cong)
qed

theorem fat_flush_durable_witness:
  "\<exists>s'. fat_flush ram_disk
        \<lparr>bcm_queue = [(3, \<lparr>arc_cache = \<lparr>bc_cache = replicate 512 9, bc_block_id = 3, bc_modified = True\<rparr>,
                          arc_strong = 1\<rparr>)], bcm_device = \<lambda>b i. 0\<rparr> = Inr s'
     \<and> disk_byte ram_disk (BlockCacheManager_new (bcm_device s')) 1540 = 9"
proof -
  let ?s = "\<lparr>bcm_queue = [(3, \<lparr>arc_cache = \<lparr>bc_cache = replicate 512 9, bc_block_id = 3, bc_modified = True\<rparr>,
                          arc_strong = 1\<rparr>)], bcm_device = \<lambda>b i. 0 :: u8\<rparr>"
  have "cache_inv ram_disk 64 ?s"
    by (simp add: cache_inv_def ram_disk_ok slot_ok_def BLOCK_CACHE_SIZE_def)
  moreover have "disk_byte ram_disk ?s 1540 = 9" by (simp add: disk_byte_def block_view_def)
  ultimately show ?thesis using fat_flush_durable [of ram_disk 64 ?s] by auto
qed

text \<open>
  A typed reference into a cached block never leaves it. For a type of any size that Rust
  allows (at most \<open>isize::MAX\<close>), \<open>get_ref\<close> returns a reference exactly
  when offset plus size stays in the block without wrapping (and the offset is inside it); an
  offset chosen to make the sum wrap passes the assertion but stops at the index check.\<close>

lemma get_ref_in_block:
  assumes "length (bc_cache bc) = 512" and "unat sz < 2 ^ 63"
  shows "get_ref sz bc offset =
    (if unat offset + unat sz \<le> 512 \<and> unat offset < 512 then Inr (take (unat sz) (drop (unat offset) (bc_cache bc)))
     else if offset + sz \<le> BLOCK_SZ then Inl Index_Out_Of_Range else Inl Assert_Failed)"
proof (cases "unat offset + unat sz < 2 ^ 64")
  case True
  then have "offset + sz \<le> BLOCK_SZ \<longleftrightarrow> unat offset + unat sz \<le> 512"
    using unat_plus_nowrap [of offset sz] by (simp add: word_le_nat_alt BLOCK_SZ_def)
  then show ?thesis using assms by (auto simp: get_ref_def addr_of_offset_def)
next
  case False
  then have "512 \<le> unat offset" using assms(2) by simp
  with False assms show ?thesis by (auto simp: get_ref_def addr_of_offset_def)
qed

lemma get_ref_in_block_witness:
  "get_ref 8 \<lparr>bc_cache = replicate 512 0, bc_block_id = 3, bc_modified = False\<rparr> (- 4) = Inl Index_Out_Of_Range"
  using get_ref_in_block [of "\<lparr>bc_cache = replicate 512 0, bc_block_id = 3, bc_modified = False\<rparr>" 8 "- 4"]
  by (simp add: BLOCK_SZ_def)

end
