(* ===== verification/Signal.thy ===== *)
theory Signal
  imports Kernel_Prelude
begin

text \<open>
  The signal sets of \<open>os/src/task/signal.rs\<close>: the flags, the error a pending signal stands for,
  and the set a signal number stands for. \<open>contains\<close>, \<open>insert\<close> and \<open>from_bits_truncate\<close> are what
  the \<open>bitflags!\<close> macro documents.
\<close>

section \<open>\<open>SignalFlags\<close>\<close>

type_synonym SignalFlags = u32

definition SIGINT :: SignalFlags where "SIGINT = push_bit 1 1"
definition SIGILL :: SignalFlags where "SIGILL = push_bit 3 1"
definition SIGABRT :: SignalFlags where "SIGABRT = push_bit 5 1"
definition SIGFPE :: SignalFlags where "SIGFPE = push_bit 7 1"
definition SIGSEGV :: SignalFlags where "SIGSEGV = push_bit 10 1"
definition SIGALRM :: SignalFlags where "SIGALRM = push_bit 13 1"
definition SIGCHLD :: SignalFlags where "SIGCHLD = push_bit 16 1"
definition SIGVTALRM :: SignalFlags where "SIGVTALRM = push_bit 25 1"
definition SIGPROF :: SignalFlags where "SIGPROF = push_bit 26 1"

definition SignalFlags_all :: SignalFlags where
  "SignalFlags_all = SIGINT OR SIGILL OR SIGABRT OR SIGFPE OR SIGSEGV OR SIGALRM OR SIGCHLD
     OR SIGVTALRM OR SIGPROF"

definition SignalFlags_EMPTY :: SignalFlags where "SignalFlags_EMPTY = 0"

lemmas signal_defs = SIGINT_def SIGILL_def SIGABRT_def SIGFPE_def SIGSEGV_def SIGALRM_def
  SIGCHLD_def SIGVTALRM_def SIGPROF_def

definition check_error :: "SignalFlags \<Rightarrow> (i32 \<times> string) option" where
  "check_error s =
     (if bitflags_contains s SIGINT then Some (- 2, ''Killed, SIGINT=2'')
      else if bitflags_contains s SIGILL then Some (- 4, ''Illegal Instruction, SIGILL=4'')
      else if bitflags_contains s SIGABRT then Some (- 6, ''Aborted, SIGABRT=6'')
      else if bitflags_contains s SIGFPE then Some (- 8, ''Erroneous Arithmetic Operation, SIGFPE=8'')
      else if bitflags_contains s SIGSEGV then Some (- 11, ''Segmentation Fault, SIGSEGV=11'')
      else None)"

definition from_signum :: "usize \<Rightarrow> unit + SignalFlags" where
  "from_signum signum =
     (if signum = 0 then Inr SignalFlags_EMPTY
      else if 1 \<le> signum \<and> signum \<le> 64
        then Inr (bitflags_from_bits_truncate SignalFlags_all (wrapping_shl_u32 1 (signum - 1)))
      else Inl ())"

section \<open>Facts\<close>

text \<open>The numbers of the declared signals.\<close>

definition signal_numbers :: "nat set" where "signal_numbers = {2, 4, 6, 8, 11, 14, 17, 26, 27}"

lemma bit_single: "k < 32 \<Longrightarrow> bit (push_bit k (1 :: u32)) n \<longleftrightarrow> n = k"
  by (auto simp: bit_simps)

lemma SignalFlags_all_bit: "bit SignalFlags_all n \<longleftrightarrow> Suc n \<in> signal_numbers"
proof -
  have "bit SignalFlags_all n \<longleftrightarrow> n = 1 \<or> n = 3 \<or> n = 5 \<or> n = 7 \<or> n = 10 \<or> n = 13 \<or> n = 16 \<or> n = 25 \<or> n = 26"
    unfolding SignalFlags_all_def signal_defs bit_or_iff
    by (subst bit_single, simp)+ blast
  then show ?thesis by (auto simp: signal_numbers_def)
qed

lemma shl_bit: "bit (wrapping_shl_u32 1 k) n \<longleftrightarrow> n = unat k mod 32"
  by (auto simp: wrapping_shl_u32_def bit_simps)

lemma shl_all:
  "wrapping_shl_u32 1 k AND SignalFlags_all
     = (if Suc (unat k mod 32) \<in> signal_numbers then push_bit (unat k mod 32) 1 else 0)"
  by (rule bit_word_eqI) (auto simp: bit_and_iff shl_bit SignalFlags_all_bit bit_exp_iff)

section \<open>Properties\<close>

text \<open>
  A signal number selects the declared signal of that number, and only up to 32: for 33 to
  64 the 32-bit shift takes the number modulo 32, so that number 34 stands for \<open>SIGINT\<close>.
  Numbers above 64 are refused, 0 is the empty set.\<close>

lemma from_signum_spec:
  "from_signum n =
    (if n = 0 then Inr 0
     else if 64 < n then Inl ()
     else Inr (if Suc ((unat n - 1) mod 32) \<in> signal_numbers then push_bit ((unat n - 1) mod 32) 1 else 0))
   \<and> from_signum 34 = Inr SIGINT"
proof -
  have "from_signum n = Inr (if Suc ((unat n - 1) mod 32) \<in> signal_numbers
      then push_bit ((unat n - 1) mod 32) 1 else 0)" if "n \<noteq> 0" "\<not> 64 < n"
  proof -
    have "1 \<le> n" using that(1) by (simp add: word_le_nat_alt Suc_le_eq unat_gt_0)
    then have "unat (n - 1) = unat n - 1" by (simp add: unat_sub)
    with that show ?thesis
      by (simp add: from_signum_def bitflags_from_bits_truncate_def shl_all not_less
          word_le_nat_alt unat_gt_0 Suc_le_eq)
  qed
  moreover have "from_signum 34 = Inr SIGINT"
    by (simp add: from_signum_def bitflags_from_bits_truncate_def shl_all signal_numbers_def SIGINT_def)
  ultimately show ?thesis by (auto simp: from_signum_def SignalFlags_EMPTY_def not_le)
qed

end
