(* ===== verification/Intr_Cell.thy ===== *)
theory Intr_Cell
  imports Kernel_Prelude
begin

text \<open>
  The interior mutability of the kernel's globals: \<open>IntrMaskingInfo\<close> of
  \<open>os/src/hal/arch/riscv/sync.rs\<close> and \<open>UPIntrFreeCell\<close> of \<open>os/src/sync/up.rs\<close>. Taking a guard
  masks interrupts and borrows the cell; dropping it undoes both. Cells are numbered; \<open>borrowed\<close>
  lists the cells with a live guard, whatever the order in which guards are dropped.
\<close>

section \<open>Masking\<close>

record intr_state =
  sie :: bool                    \<comment> \<open>the interrupt enable bit of \<open>sstatus\<close>\<close>
  nested_level :: usize
  sie_before_masking :: bool
  borrowed :: "nat list"

definition IntrMaskingInfo_new :: "bool \<Rightarrow> intr_state" where
  "IntrMaskingInfo_new b = \<lparr>sie = b, nested_level = 0, sie_before_masking = False, borrowed = []\<rparr>"

definition enter :: "intr_state \<Rightarrow> intr_state" where
  "enter s =
     (let sie0 = sie s;
          s = s\<lparr>sie := False\<rparr>;
          s = (if nested_level s = 0 then s\<lparr>sie_before_masking := sie0\<rparr> else s)
      in s\<lparr>nested_level := nested_level s + 1\<rparr>)"

definition exit :: "intr_state \<Rightarrow> intr_state" where
  "exit s =
     (let s = s\<lparr>nested_level := nested_level s - 1\<rparr> in
      if nested_level s = 0 \<and> sie_before_masking s then s\<lparr>sie := True\<rparr> else s)"

section \<open>\<open>UPIntrFreeCell\<close>\<close>

definition exclusive_access :: "nat \<Rightarrow> intr_state \<Rightarrow> intr_state result" where
  "exclusive_access c s =
     (let s = enter s in
      if c \<in> set (borrowed s) then Inl Borrow_Conflict else Inr (s\<lparr>borrowed := c # borrowed s\<rparr>))"

definition guard_drop :: "nat \<Rightarrow> intr_state \<Rightarrow> intr_state" where
  "guard_drop c s = exit (s\<lparr>borrowed := remove1 c (borrowed s)\<rparr>)"

definition exclusive_session ::
  "nat \<Rightarrow> (intr_state \<Rightarrow> ('v \<times> intr_state) result) \<Rightarrow> intr_state \<Rightarrow> ('v \<times> intr_state) result" where
  "exclusive_session c f s =
     rbind (exclusive_access c s) (\<lambda>s.
     rbind (f s) (\<lambda>(v, s).
     Inr (v, guard_drop c s)))"

section \<open>Steps and invariant\<close>

text \<open>
  The kernel takes and drops guards; while it holds none, the trap code may set or clear the
  enable bit.
\<close>

inductive intr_step :: "intr_state \<Rightarrow> intr_state \<Rightarrow> bool" where
  acquire: "exclusive_access c s = Inr s' \<Longrightarrow> length (borrowed s) < 2 ^ 32 \<Longrightarrow> intr_step s s'"
| release: "c \<in> set (borrowed s) \<Longrightarrow> intr_step s (guard_drop c s)"
| trap: "borrowed s = [] \<Longrightarrow> intr_step s (s\<lparr>sie := b\<rparr>)"

inductive_cases intr_stepE: "intr_step s s'"

definition intr_inv :: "intr_state \<Rightarrow> bool" where
  "intr_inv s \<longleftrightarrow> distinct (borrowed s) \<and> length (borrowed s) \<le> 2 ^ 32
     \<and> nested_level s = of_nat (length (borrowed s)) \<and> (borrowed s \<noteq> [] \<longrightarrow> \<not> sie s)"

text \<open>A run during which some guard is always held.\<close>

definition held_step :: "intr_state \<Rightarrow> intr_state \<Rightarrow> bool" where
  "held_step s s' \<longleftrightarrow> intr_step s s' \<and> borrowed s \<noteq> [] \<and> borrowed s' \<noteq> []"

lemma intr_inv_new: "intr_inv (IntrMaskingInfo_new b)"
  by (simp add: intr_inv_def IntrMaskingInfo_new_def)

lemma small_length:
  "length xs \<le> 2 ^ 32 \<Longrightarrow> (of_nat (length xs) :: usize) = 0 \<longleftrightarrow> xs = []"
proof -
  assume "length xs \<le> 2 ^ 32"
  then have "unat (of_nat (length xs) :: usize) = length xs" by (simp add: unat_of_nat)
  then show ?thesis by (simp add: word_unat_eq_iff)
qed

lemma exclusive_accessD:
  assumes "exclusive_access c s = Inr s'" and "intr_inv s"
  shows "borrowed s' = c # borrowed s" and "c \<notin> set (borrowed s)" and "\<not> sie s'"
    and "nested_level s' = nested_level s + 1"
    and "sie_before_masking s' = (if borrowed s = [] then sie s else sie_before_masking s)"
  using assms small_length [of "borrowed s"]
  by (auto simp: exclusive_access_def enter_def Let_def intr_inv_def split: if_splits)

lemma guard_dropD:
  assumes "intr_inv s" and c: "c \<in> set (borrowed s)"
  shows "borrowed (guard_drop c s) = remove1 c (borrowed s)"
    and "nested_level (guard_drop c s) = of_nat (length (borrowed s) - 1)"
    and "sie (guard_drop c s) \<longleftrightarrow> length (borrowed s) = 1 \<and> sie_before_masking s"
    and "sie_before_masking (guard_drop c s) = sie_before_masking s"
proof -
  from c have ne: "borrowed s \<noteq> []" by auto
  from assms have inv: "length (borrowed s) \<le> 2 ^ 32" "nested_level s = of_nat (length (borrowed s))" "\<not> sie s"
    using ne by (auto simp: intr_inv_def)
  have n: "nested_level s - 1 = of_nat (length (borrowed s) - 1)"
    using ne inv(2) by (simp add: of_nat_diff Suc_le_eq)
  have "(of_nat (length (borrowed s) - 1) :: usize) = 0 \<longleftrightarrow> length (borrowed s) = 1"
    using small_length [of "tl (borrowed s)"] inv(1) ne by (cases "borrowed s") auto
  with n inv(3) show "borrowed (guard_drop c s) = remove1 c (borrowed s)"
    and "nested_level (guard_drop c s) = of_nat (length (borrowed s) - 1)"
    and "sie (guard_drop c s) \<longleftrightarrow> length (borrowed s) = 1 \<and> sie_before_masking s"
    and "sie_before_masking (guard_drop c s) = sie_before_masking s"
    by (auto simp: guard_drop_def exit_def Let_def)
qed

lemma intr_step_inv: "intr_step s s' \<Longrightarrow> intr_inv s \<Longrightarrow> intr_inv s'"
proof (induction rule: intr_step.induct)
  case (acquire c s s')
  note d = exclusive_accessD [OF acquire(1,3)]
  from acquire(2,3) d show ?case by (auto simp: intr_inv_def)
next
  case (release c s)
  note d = guard_dropD [OF release(2,1)]
  have "length (remove1 c (borrowed s)) = length (borrowed s) - 1" using release(1) by (simp add: length_remove1)
  moreover have "length (borrowed s) = 1 \<Longrightarrow> remove1 c (borrowed s) = []"
    using release(1) by (cases "borrowed s") auto
  ultimately show ?case using release(2) d by (auto simp: intr_inv_def)
next
  case (trap s b)
  then show ?case by (simp add: intr_inv_def)
qed

lemma intr_steps_inv: "intr_step\<^sup>*\<^sup>* s s' \<Longrightarrow> intr_inv s \<Longrightarrow> intr_inv s'"
  by (induction rule: rtranclp_induct) (auto intro: intr_step_inv)

lemma held_keeps:
  "held_step\<^sup>*\<^sup>* s s' \<Longrightarrow> intr_inv s \<Longrightarrow> intr_inv s' \<and> sie_before_masking s' = sie_before_masking s"
proof (induction rule: rtranclp_induct)
  case (step t u)
  then have inv: "intr_inv t" and st: "intr_step t u" "borrowed t \<noteq> []" by (auto simp: held_step_def)
  have "sie_before_masking u = sie_before_masking t"
    using st(1) by (cases rule: intr_stepE)
      (use inv st(2) in \<open>auto dest: exclusive_accessD guard_dropD\<close>)
  with step inv st(1) show ?case by (auto intro: intr_step_inv)
qed simp

section \<open>Properties\<close>



end
