(* ===== verification/Time.thy ===== *)
theory Time
  imports Kernel_Prelude
begin

text \<open>
  Clock readings and the time structures of \<open>os/src/timer.rs\<close>: \<open>TimeVal\<close> (microseconds),
  \<open>TimeSpec\<close> (nanoseconds), their conversions and their wrapping arithmetic on \<open>usize\<close>. The
  \<open>time\<close> register is an argument \<open>tick\<close>; the frequency is the board's \<open>CLOCK_FREQ\<close>. The timer
  queue of the same file is in the theory of the scheduler, which it calls.
\<close>

named_theorems time_defs \<open>the constants of the clock\<close>

section \<open>Constants and clock readings\<close>

definition MSEC_PER_SEC :: usize where [time_defs]: "MSEC_PER_SEC = 1000"
definition USEC_PER_SEC :: usize where [time_defs]: "USEC_PER_SEC = 1000000"
definition USEC_PER_MSEC :: usize where [time_defs]: "USEC_PER_MSEC = 1000"
definition NSEC_PER_SEC :: usize where [time_defs]: "NSEC_PER_SEC = 1000000000"
definition NSEC_PER_MSEC :: usize where [time_defs]: "NSEC_PER_MSEC = 1000000"
definition NSEC_PER_USEC :: usize where [time_defs]: "NSEC_PER_USEC = 1000"

definition CLOCK_FREQ :: usize where [time_defs]: "CLOCK_FREQ = 12500000"
definition TICKS_PER_SEC :: usize where [time_defs]: "TICKS_PER_SEC = 25"

definition get_clock_freq :: usize where [time_defs]: "get_clock_freq = CLOCK_FREQ"

text \<open>The deadline handed to the firmware.\<close>

definition set_next_trigger :: "usize \<Rightarrow> usize" where
  "set_next_trigger tick = tick + CLOCK_FREQ div TICKS_PER_SEC"

definition get_time_sec :: "usize \<Rightarrow> usize" where
  "get_time_sec tick = tick div get_clock_freq"

definition get_time_ms :: "usize \<Rightarrow> usize" where
  "get_time_ms tick = tick div (get_clock_freq div MSEC_PER_SEC)"

definition get_time_us :: "usize \<Rightarrow> usize" where
  "get_time_us tick = tick div (get_clock_freq div USEC_PER_SEC)"

section \<open>\<open>TimeVal\<close>\<close>

record TimeVal =
  tv_sec :: usize
  tv_usec :: usize

definition TimeVal_new :: TimeVal where
  "TimeVal_new = \<lparr>tv_sec = 0, tv_usec = 0\<rparr>"

definition TimeVal_from_tick :: "usize \<Rightarrow> TimeVal" where
  "TimeVal_from_tick tick =
     \<lparr>tv_sec = tick div get_clock_freq, tv_usec = (tick mod get_clock_freq) * USEC_PER_SEC div get_clock_freq\<rparr>"

definition TimeVal_now :: "usize \<Rightarrow> TimeVal" where
  "TimeVal_now tick = TimeVal_from_tick tick"

definition TimeVal_to_tick :: "TimeVal \<Rightarrow> usize" where
  "TimeVal_to_tick t = tv_sec t * get_clock_freq + tv_usec t * get_clock_freq div USEC_PER_SEC"

definition TimeVal_from_us :: "usize \<Rightarrow> TimeVal" where
  "TimeVal_from_us us = \<lparr>tv_sec = us div USEC_PER_SEC, tv_usec = us mod USEC_PER_SEC\<rparr>"

definition TimeVal_is_zero :: "TimeVal \<Rightarrow> bool" where
  "TimeVal_is_zero t \<longleftrightarrow> tv_sec t = 0 \<and> tv_usec t = 0"

definition TimeVal_to_us :: "TimeVal \<Rightarrow> usize" where
  "TimeVal_to_us t = tv_sec t * USEC_PER_SEC + tv_usec t"

definition TimeVal_add :: "TimeVal \<Rightarrow> TimeVal \<Rightarrow> TimeVal" where
  "TimeVal_add a b =
     (let sec = tv_sec a + tv_sec b;
          usec = tv_usec a + tv_usec b;
          sec = sec + usec div USEC_PER_SEC;
          usec = usec mod USEC_PER_SEC
      in \<lparr>tv_sec = sec, tv_usec = usec\<rparr>)"

definition TimeVal_sub :: "TimeVal \<Rightarrow> TimeVal \<Rightarrow> TimeVal" where
  "TimeVal_sub a b =
     (let self_us = TimeVal_to_us a; other_us = TimeVal_to_us b in
      if self_us \<le> other_us then TimeVal_new else TimeVal_from_us (self_us - other_us))"

section \<open>\<open>TimeSpec\<close>\<close>

record TimeSpec =
  ts_sec :: usize
  ts_nsec :: usize

definition TimeSpec_new :: TimeSpec where
  "TimeSpec_new = \<lparr>ts_sec = 0, ts_nsec = 0\<rparr>"

definition TimeSpec_to_ns :: "TimeSpec \<Rightarrow> usize" where
  "TimeSpec_to_ns t = ts_sec t * NSEC_PER_SEC + ts_nsec t"

definition TimeSpec_from_ns :: "usize \<Rightarrow> TimeSpec" where
  "TimeSpec_from_ns ns = \<lparr>ts_sec = ns div NSEC_PER_SEC, ts_nsec = ns mod NSEC_PER_SEC\<rparr>"

definition TimeSpec_add :: "TimeSpec \<Rightarrow> TimeSpec \<Rightarrow> TimeSpec" where
  "TimeSpec_add a b =
     (let sec = ts_sec a + ts_sec b;
          nsec = ts_nsec a + ts_nsec b;
          sec = sec + nsec div NSEC_PER_SEC;
          nsec = nsec mod NSEC_PER_SEC
      in \<lparr>ts_sec = sec, ts_nsec = nsec\<rparr>)"

definition TimeSpec_sub :: "TimeSpec \<Rightarrow> TimeSpec \<Rightarrow> TimeSpec" where
  "TimeSpec_sub a b =
     (let self_ns = TimeSpec_to_ns a; other_ns = TimeSpec_to_ns b in
      if self_ns \<le> other_ns then TimeSpec_new else TimeSpec_from_ns (self_ns - other_ns))"

datatype Ordering = Less | Equal | Greater

definition usize_cmp :: "usize \<Rightarrow> usize \<Rightarrow> Ordering" where
  "usize_cmp a b = (if a < b then Less else if a = b then Equal else Greater)"

definition TimeSpec_cmp :: "TimeSpec \<Rightarrow> TimeSpec \<Rightarrow> Ordering" where
  "TimeSpec_cmp a b =
     (case usize_cmp (ts_sec a) (ts_sec b) of
        Less \<Rightarrow> Less
      | Equal \<Rightarrow> usize_cmp (ts_nsec a) (ts_nsec b)
      | Greater \<Rightarrow> Greater)"

definition TimeSpec_from_tick :: "usize \<Rightarrow> TimeSpec" where
  "TimeSpec_from_tick tick =
     \<lparr>ts_sec = tick div get_clock_freq, ts_nsec = (tick mod get_clock_freq) * NSEC_PER_SEC div get_clock_freq\<rparr>"

definition TimeSpec_now :: "usize \<Rightarrow> TimeSpec" where
  "TimeSpec_now tick = TimeSpec_from_tick tick"

definition TimeSpec_to_ms :: "TimeSpec \<Rightarrow> usize" where
  "TimeSpec_to_ms t = ts_sec t * MSEC_PER_SEC + ts_nsec t div NSEC_PER_MSEC"

section \<open>Other records\<close>

record Tms =
  tms_utime :: usize
  tms_stime :: usize
  tms_cutime :: usize
  tms_cstime :: usize

record ITimerVal =
  it_interval :: TimeVal
  it_value :: TimeVal

definition ITimerVal_new :: ITimerVal where
  "ITimerVal_new = \<lparr>it_interval = TimeVal_new, it_value = TimeVal_new\<rparr>"

text \<open>\<open>a <= b\<close> on \<open>TimeSpec\<close>, by its \<open>partial_cmp\<close>.\<close>

definition TimeSpec_le :: "TimeSpec \<Rightarrow> TimeSpec \<Rightarrow> bool" where
  "TimeSpec_le a b \<longleftrightarrow> TimeSpec_cmp a b \<noteq> Greater"

section \<open>Facts on the arithmetic\<close>

lemma carry_units: "(x + u div k) * k + u mod k = x * k + (u :: nat)"
  by (simp add: add_mult_distrib)

lemma scale_div: "0 < f \<Longrightarrow> t * m div f = (t div f) * m + (t mod f) * m div (f :: nat)"
proof -
  assume f: "0 < f"
  have "t * m = (t mod f) * m + f * ((t div f) * m)"
    by (metis add.commute distrib_right mult.assoc mult_div_mod_eq)
  with f show ?thesis by simp
qed

text \<open>A normalised value keeps its microseconds below one second.\<close>

definition tv_ok :: "TimeVal \<Rightarrow> bool" where "tv_ok t \<longleftrightarrow> tv_usec t < USEC_PER_SEC"

text \<open>Microseconds as an unbounded number.\<close>

definition tv_us :: "TimeVal \<Rightarrow> nat" where "tv_us t = unat (tv_sec t) * 1000000 + unat (tv_usec t)"

lemma tv_us_to_us: "tv_us t < 2 ^ 64 \<Longrightarrow> unat (TimeVal_to_us t) = tv_us t"
  by (simp add: tv_us_def TimeVal_to_us_def time_defs unat_word_ariths)

lemma tv_us_from_us: "tv_us (TimeVal_from_us us) = unat us"
  by (simp add: tv_us_def TimeVal_from_us_def time_defs unat_div unat_mod)

lemma tv_ok_from_us: "tv_ok (TimeVal_from_us us)"
  by (simp add: tv_ok_def TimeVal_from_us_def time_defs word_less_nat_alt unat_mod)

lemma tv_ok_new: "tv_ok TimeVal_new" by (simp add: tv_ok_def TimeVal_new_def time_defs)

lemma tv_us_new [simp]: "tv_us TimeVal_new = 0" by (simp add: tv_us_def TimeVal_new_def)

lemma tv_ok_add: "tv_ok (TimeVal_add a b)"
  by (simp add: tv_ok_def TimeVal_add_def Let_def time_defs word_less_nat_alt unat_mod)

lemma tv_ok_sub: "tv_ok (TimeVal_sub a b)"
  by (simp add: TimeVal_sub_def Let_def tv_ok_new tv_ok_from_us)

lemma tv_us_add:
  assumes "tv_us a + tv_us b < 2 ^ 64"
  shows "tv_us (TimeVal_add a b) = tv_us a + tv_us b"
proof -
  let ?s = "unat (tv_sec a) + unat (tv_sec b)" and ?u = "unat (tv_usec a) + unat (tv_usec b)"
  have lt: "?s * 1000000 + ?u < 2 ^ 64" using assms by (simp add: tv_us_def algebra_simps)
  then have u: "unat (tv_usec a + tv_usec b) = ?u" and s: "unat (tv_sec a + tv_sec b) = ?s"
    by (simp_all add: unat_word_ariths)
  have q: "unat ((tv_usec a + tv_usec b) div 1000000) = ?u div 1000000" by (simp add: unat_div u)
  have "unat (tv_sec a + tv_sec b + (tv_usec a + tv_usec b) div 1000000) = ?s + ?u div 1000000"
    using lt by (subst unat_plus_nowrap) (simp_all only: s q, simp_all)
  moreover have "unat ((tv_usec a + tv_usec b) mod 1000000) = ?u mod 1000000" by (simp add: unat_mod u)
  ultimately have "tv_us (TimeVal_add a b) = (?s + ?u div 1000000) * 1000000 + ?u mod 1000000"
    by (simp only: tv_us_def TimeVal_add_def Let_def USEC_PER_SEC_def TimeVal.simps)
  also have "\<dots> = ?s * 1000000 + ?u" by (rule carry_units)
  finally show ?thesis by (simp add: tv_us_def)
qed

lemma tv_us_sub:
  assumes "tv_us a < 2 ^ 64" and "tv_us b < 2 ^ 64"
  shows "tv_us (TimeVal_sub a b) = tv_us a - tv_us b"
  using assms
  by (simp add: TimeVal_sub_def Let_def tv_us_from_us word_le_nat_alt tv_us_to_us unat_sub)

text \<open>Reading the clock: microseconds are the scaled tick, rounded down.\<close>

lemma from_tick_usec:
  "unat (tv_usec (TimeVal_from_tick tick)) = unat (tick mod CLOCK_FREQ) * 1000000 div 12500000"
  "unat (tick mod CLOCK_FREQ) < 12500000"
proof -
  show lt: "unat (tick mod CLOCK_FREQ) < 12500000" by (simp add: time_defs unat_mod)
  then have "unat (tick mod CLOCK_FREQ) * 1000000 < 2 ^ 64" by simp
  then have "unat (tick mod CLOCK_FREQ * 1000000) = unat (tick mod CLOCK_FREQ) * 1000000"
    by (subst unat_mult_nowrap) simp_all
  then show "unat (tv_usec (TimeVal_from_tick tick)) = unat (tick mod CLOCK_FREQ) * 1000000 div 12500000"
    by (simp add: TimeVal_from_tick_def unat_div get_clock_freq_def USEC_PER_SEC_def)
      (simp add: CLOCK_FREQ_def)
qed

lemma tv_ok_from_tick: "tv_ok (TimeVal_from_tick tick)"
  using from_tick_usec [of tick] by (simp add: tv_ok_def word_less_nat_alt USEC_PER_SEC_def)

lemma tv_us_from_tick: "tv_us (TimeVal_from_tick tick) = unat tick * 1000000 div 12500000"
proof -
  let ?q = "unat tick div 12500000" and ?r = "unat tick mod 12500000"
  have m: "unat (tick mod CLOCK_FREQ) = ?r" by (simp add: time_defs unat_mod)
  have "unat tick * 1000000 div 12500000 = ?q * 1000000 + ?r * 1000000 div 12500000"
    by (rule scale_div) simp
  moreover have "unat (tv_sec (TimeVal_from_tick tick)) = ?q"
    by (simp add: TimeVal_from_tick_def time_defs unat_div)
  ultimately show ?thesis using from_tick_usec(1) [of tick] by (simp add: tv_us_def m)
qed

lemma TimeSpec_le_iff:
  "TimeSpec_le a b \<longleftrightarrow> ts_sec a < ts_sec b \<or> ts_sec a = ts_sec b \<and> ts_nsec a \<le> ts_nsec b"
  by (auto simp: TimeSpec_le_def TimeSpec_cmp_def usize_cmp_def)

section \<open>Properties\<close>

text \<open>
  \<open>TimeVal\<close> values stay well formed and their arithmetic is exact. Every value that
  \<open>from_tick\<close>, \<open>from_us\<close>, \<open>+\<close> and \<open>-\<close> produce keeps its microseconds below one second, for any
  operands, wrapping ones included. As long as the sum fits in 64 bits, \<open>+\<close> adds the times, and
  \<open>-\<close> is their difference cut off at zero; the clock reading is the tick count scaled to
  microseconds, rounded down.\<close>

lemma timeval_well_formed:
  "tv_ok (TimeVal_from_tick tick) \<and> tv_ok (TimeVal_from_us us) \<and> tv_ok (TimeVal_add a b)
   \<and> tv_ok (TimeVal_sub a b) \<and> tv_us (TimeVal_from_tick tick) = unat tick * 1000000 div 12500000
   \<and> (tv_us a + tv_us b < 2 ^ 64 \<longrightarrow>
        tv_us (TimeVal_add a b) = tv_us a + tv_us b \<and> tv_us (TimeVal_sub a b) = tv_us a - tv_us b)"
  by (simp only: tv_ok_from_tick tv_ok_from_us tv_ok_add tv_ok_sub tv_us_from_tick simp_thms)
    (auto intro: tv_us_add tv_us_sub)

lemma timeval_well_formed_witness:
  "tv_us (TimeVal_add \<lparr>tv_sec = 1, tv_usec = 999999\<rparr> \<lparr>tv_sec = 0, tv_usec = 2\<rparr>) = 2000001"
  using timeval_well_formed [of 0 0 "\<lparr>tv_sec = 1, tv_usec = 999999\<rparr>" "\<lparr>tv_sec = 0, tv_usec = 2\<rparr>"]
  by (simp add: tv_us_def)

end
