(* ===== verification/Sched.thy ===== *)
theory Sched
  imports Id_Allocator Time "HOL-Library.Multiset"
begin

text \<open>
  Tasks and the scheduler: \<open>os/src/task/{task,context,manager,processor,mod}.rs\<close>, the register
  switch \<open>os/src/hal/arch/riscv/switch.S\<close>, and the timer queue of \<open>os/src/timer.rs\<close>.

  A task is the number of its control block (an \<open>Arc<TaskControlBlock>\<close> is such a number, always
  valid), and the control blocks are a store. After \<open>schedule\<close> the processor runs the idle loop, so
  \<open>current\<close> is \<open>None\<close> exactly there, and one round of \<open>run_tasks\<close> picks the next task. The
  registers that a switch saves and loads are the field \<open>cpu\<close>. A queue behind a
  \<open>UPIntrFreeCell\<close> is touched in one go (see the theory on cells).
\<close>

section \<open>Task control blocks\<close>

datatype TaskStatus = Ready | Running | Blocked

record TaskContext =
  cx_ra :: usize
  cx_sp :: usize
  cx_s :: "usize list"

definition zero_init :: TaskContext where
  "zero_init = \<lparr>cx_ra = 0, cx_sp = 0, cx_s = replicate 12 0\<rparr>"

text \<open>The address of \<open>trap_return\<close> is the linker's.\<close>

definition goto_trap_return :: "usize \<Rightarrow> usize \<Rightarrow> TaskContext" where
  "goto_trap_return trap_return kstack_ptr =
     \<lparr>cx_ra = trap_return, cx_sp = kstack_ptr, cx_s = replicate 12 0\<rparr>"

record TaskUserRes =
  ur_tid :: usize
  ur_process :: nat

record TaskControlBlock =
  tcb_process :: nat
  tcb_kstack :: KernelStack
  tcb_res :: "TaskUserRes option"
  tcb_trap_cx_ppn :: PhysPageNum
  tcb_cx :: TaskContext
  tcb_status :: TaskStatus
  tcb_exit_code :: "i32 option"

type_synonym task = nat

record sched =
  tcbs :: "task \<Rightarrow> TaskControlBlock"
  next_tcb :: task               \<comment> \<open>the next control block \<open>Arc::new\<close> makes\<close>
  ready_queue :: "task list"
  current :: "task option"
  idle_task_cx :: TaskContext
  cpu :: TaskContext

abbreviation status_of :: "'a sched_scheme \<Rightarrow> task \<Rightarrow> TaskStatus" where
  "status_of s t \<equiv> tcb_status (tcbs s t)"

text \<open>\<open>Arc::new\<close> of a control block.\<close>

definition tcb_alloc :: "TaskControlBlock \<Rightarrow> 'a sched_scheme \<Rightarrow> task \<times> 'a sched_scheme" where
  "tcb_alloc b s = (next_tcb s, s\<lparr>tcbs := (tcbs s)(next_tcb s := b), next_tcb := Suc (next_tcb s)\<rparr>)"

definition set_status :: "task \<Rightarrow> TaskStatus \<Rightarrow> 'a sched_scheme \<Rightarrow> 'a sched_scheme" where
  "set_status t st s = s\<lparr>tcbs := (tcbs s)(t := (tcbs s t)\<lparr>tcb_status := st\<rparr>)\<rparr>"

section \<open>\<open>TaskManager\<close> and \<open>Processor\<close>\<close>

definition TaskManager_add :: "task \<Rightarrow> 'a sched_scheme \<Rightarrow> 'a sched_scheme" where
  "TaskManager_add t s = s\<lparr>ready_queue := ready_queue s @ [t]\<rparr>"

definition TaskManager_fetch :: "'a sched_scheme \<Rightarrow> task option \<times> 'a sched_scheme" where
  "TaskManager_fetch s =
     (case ready_queue s of [] \<Rightarrow> (None, s) | t # q \<Rightarrow> (Some t, s\<lparr>ready_queue := q\<rparr>))"

definition add_task :: "task \<Rightarrow> 'a sched_scheme \<Rightarrow> 'a sched_scheme" where
  "add_task t s = TaskManager_add t s"

definition fetch_task :: "'a sched_scheme \<Rightarrow> task option \<times> 'a sched_scheme" where
  "fetch_task s = TaskManager_fetch s"

definition wakeup_task :: "task \<Rightarrow> 'a sched_scheme \<Rightarrow> 'a sched_scheme" where
  "wakeup_task t s = add_task t (set_status t Ready s)"

definition wake_blocked :: "task \<Rightarrow> 'a sched_scheme \<Rightarrow> 'a sched_scheme" where
  "wake_blocked t s = (if status_of s t = Blocked then add_task t (set_status t Ready s) else s)"

definition Processor_new :: "(task \<Rightarrow> TaskControlBlock) \<Rightarrow> TaskContext \<Rightarrow> sched" where
  "Processor_new tcb boot =
     \<lparr>tcbs = tcb, next_tcb = 0, ready_queue = [], current = None, idle_task_cx = zero_init, cpu = boot\<rparr>"

definition take_current_task :: "'a sched_scheme \<Rightarrow> task option \<times> 'a sched_scheme" where
  "take_current_task s = (current s, s\<lparr>current := None\<rparr>)"

definition current_task :: "'a sched_scheme \<Rightarrow> task option" where
  "current_task s = current s"

section \<open>The switch\<close>

text \<open>The places a context pointer may point to.\<close>

datatype cx_ptr = Idle_Cx | Task_Cx task | Unused_Cx

definition load_cx :: "cx_ptr \<Rightarrow> 'a sched_scheme \<Rightarrow> TaskContext" where
  "load_cx p s = (case p of Idle_Cx \<Rightarrow> idle_task_cx s | Task_Cx t \<Rightarrow> tcb_cx (tcbs s t) | Unused_Cx \<Rightarrow> zero_init)"

definition store_cx :: "cx_ptr \<Rightarrow> TaskContext \<Rightarrow> 'a sched_scheme \<Rightarrow> 'a sched_scheme" where
  "store_cx p c s = (case p of
      Idle_Cx \<Rightarrow> s\<lparr>idle_task_cx := c\<rparr>
    | Task_Cx t \<Rightarrow> s\<lparr>tcbs := (tcbs s)(t := (tcbs s t)\<lparr>tcb_cx := c\<rparr>)\<rparr>
    | Unused_Cx \<Rightarrow> s)"

text \<open>Save \<open>ra\<close>, \<open>sp\<close>, \<open>s0\<close> to \<open>s11\<close> at the first pointer, then load them from the second.\<close>

definition switch :: "cx_ptr \<Rightarrow> cx_ptr \<Rightarrow> 'a sched_scheme \<Rightarrow> 'a sched_scheme" where
  "switch cur nxt s = (let s = store_cx cur (cpu s) s in s\<lparr>cpu := load_cx nxt s\<rparr>)"

definition schedule :: "cx_ptr \<Rightarrow> 'a sched_scheme \<Rightarrow> 'a sched_scheme" where
  "schedule switched s = switch switched Idle_Cx s"

text \<open>One round of the loop of \<open>run_tasks\<close>; with nothing to run it only prints.\<close>

definition run_tasks_round :: "'a sched_scheme \<Rightarrow> 'a sched_scheme" where
  "run_tasks_round s =
     (case fetch_task s of
        (Some t, s) \<Rightarrow> switch Idle_Cx (Task_Cx t) ((set_status t Running s)\<lparr>current := Some t\<rparr>)
      | (None, s) \<Rightarrow> s)"

section \<open>Suspending and blocking\<close>

definition suspend_current_and_run_next :: "'a sched_scheme \<Rightarrow> 'a sched_scheme result" where
  "suspend_current_and_run_next s =
     (let (cur, s) = take_current_task s in
      rbind (unwrap cur) (\<lambda>t.
      Inr (schedule (Task_Cx t) (add_task t (set_status t Ready s)))))"

definition block_current_task :: "'a sched_scheme \<Rightarrow> (cx_ptr \<times> 'a sched_scheme) result" where
  "block_current_task s =
     (let (cur, s) = take_current_task s in
      rbind (unwrap cur) (\<lambda>t. Inr (Task_Cx t, set_status t Blocked s)))"

definition block_current_and_run_next :: "'a sched_scheme \<Rightarrow> 'a sched_scheme result" where
  "block_current_and_run_next s =
     rbind (block_current_task s) (\<lambda>(p, s). Inr (schedule p s))"

section \<open>The timer queue\<close>

record TimerCondVar =
  expire_ms :: usize
  tm_task :: task

text \<open>\<open>partial_cmp\<close>: the negated expiry as a signed number, so that the heap's maximum expires first.\<close>

definition TimerCondVar_key :: "TimerCondVar \<Rightarrow> int" where
  "TimerCondVar_key t = sint (- expire_ms t)"

text \<open>
  \<open>BinaryHeap\<close>: a bag from which \<open>peek\<close> and \<open>pop\<close> take a greatest element; among equal elements
  the library leaves the choice open, here the first in insertion order.
\<close>

definition heap_push :: "'x list \<Rightarrow> 'x \<Rightarrow> 'x list" where
  "heap_push h x = h @ [x]"

definition heap_peek :: "('x \<Rightarrow> int) \<Rightarrow> 'x list \<Rightarrow> nat option" where
  "heap_peek key h = position (\<lambda>x. \<forall>y \<in> set h. key y \<le> key x) h"

definition add_timer :: "usize \<Rightarrow> task \<Rightarrow> TimerCondVar list \<Rightarrow> TimerCondVar list" where
  "add_timer ms t timers = heap_push timers \<lparr>expire_ms = ms, tm_task = t\<rparr>"

function check_timer_loop :: "usize \<Rightarrow> TimerCondVar list \<times> 'a sched_scheme \<Rightarrow> TimerCondVar list \<times> 'a sched_scheme" where
  "check_timer_loop current_ms (timers, s) =
     (case heap_peek TimerCondVar_key timers of
        Some i \<Rightarrow>
          if expire_ms (timers ! i) \<le> current_ms
          then check_timer_loop current_ms (remove_nth i timers, wakeup_task (tm_task (timers ! i)) s)
          else (timers, s)
      | None \<Rightarrow> (timers, s))"
  by pat_completeness auto
termination
  by (relation "measure (\<lambda>(_, timers, _). length timers)")
    (auto simp: heap_peek_def dest!: position_SomeD)

declare check_timer_loop.simps [simp del]

definition check_timer :: "usize \<Rightarrow> TimerCondVar list \<times> 'a sched_scheme \<Rightarrow> TimerCondVar list \<times> 'a sched_scheme" where
  "check_timer tick ts = check_timer_loop (get_time_ms tick) ts"

lemmas sched_simps = set_status_def TaskManager_add_def TaskManager_fetch_def add_task_def fetch_task_def
  wakeup_task_def take_current_task_def current_task_def tcb_alloc_def load_cx_def store_cx_def switch_def
  schedule_def

lemmas sched_defs = sched_simps run_tasks_round_def suspend_current_and_run_next_def block_current_task_def
  block_current_and_run_next_def

section \<open>Steps of the machine\<close>

text \<open>
  The idle loop dispatches, the running task computes (its registers change), suspends itself,
  blocks, exits, wakes a blocked task or starts a new one. \<open>sched_run n\<close> is a run with \<open>n\<close> dispatches.
\<close>

inductive other_step :: "sched \<Rightarrow> sched \<Rightarrow> bool" where
  compute: "other_step s (s\<lparr>cpu := c\<rparr>)"
| suspend: "suspend_current_and_run_next s = Inr s' \<Longrightarrow> other_step s s'"
| block: "block_current_and_run_next s = Inr s' \<Longrightarrow> other_step s s'"
| exit: "take_current_task s = (Some t, s') \<Longrightarrow> other_step s (schedule Unused_Cx s')"
| wake: "status_of s t = Blocked \<Longrightarrow> t < next_tcb s \<Longrightarrow> other_step s (wakeup_task t s)"
| spawn: "tcb_alloc b s = (t, s') \<Longrightarrow> tcb_status b = Ready \<Longrightarrow> other_step s (add_task t s')"

inductive_cases other_stepE: "other_step s s'"

inductive sched_run :: "nat \<Rightarrow> sched \<Rightarrow> sched \<Rightarrow> bool" where
  refl: "sched_run 0 s s"
| other: "sched_run n s s' \<Longrightarrow> other_step s' s'' \<Longrightarrow> sched_run n s s''"
| dispatch: "sched_run n s s' \<Longrightarrow> current s' = None \<Longrightarrow> ready_queue s' \<noteq> [] \<Longrightarrow>
    sched_run (Suc n) s (run_tasks_round s')"

definition sched_inv :: "'a sched_scheme \<Rightarrow> bool" where
  "sched_inv s \<longleftrightarrow> distinct (ready_queue s) \<and> (\<forall>t \<in> set (ready_queue s). status_of s t = Ready \<and> t < next_tcb s)
     \<and> (\<forall>t. current s = Some t \<longrightarrow> status_of s t = Running \<and> t < next_tcb s)"

lemma sched_inv_new: "sched_inv (Processor_new tcb boot)"
  by (simp add: sched_inv_def Processor_new_def)

lemma suspendE:
  assumes "suspend_current_and_run_next s = Inr s'"
  obtains t where "current s = Some t"
    and "s' = s\<lparr>current := None, ready_queue := ready_queue s @ [t], cpu := idle_task_cx s,
           tcbs := (tcbs s)(t := (tcbs s t)\<lparr>tcb_status := Ready, tcb_cx := cpu s\<rparr>)\<rparr>"
  using assms by (auto simp: sched_defs Let_def result_simps)

lemma blockE:
  assumes "block_current_and_run_next s = Inr s'"
  obtains t where "current s = Some t"
    and "s' = s\<lparr>current := None, cpu := idle_task_cx s,
           tcbs := (tcbs s)(t := (tcbs s t)\<lparr>tcb_status := Blocked, tcb_cx := cpu s\<rparr>)\<rparr>"
  using assms by (auto simp: sched_defs Let_def result_simps)

lemma dispatch_eq:
  "ready_queue s = t # q \<Longrightarrow> run_tasks_round s = s\<lparr>current := Some t, ready_queue := q, idle_task_cx := cpu s,
     cpu := tcb_cx (tcbs s t), tcbs := (tcbs s)(t := (tcbs s t)\<lparr>tcb_status := Running\<rparr>)\<rparr>"
  by (simp add: sched_defs Let_def)

lemma suspend_inv: "suspend_current_and_run_next s = Inr s' \<Longrightarrow> sched_inv s \<Longrightarrow> sched_inv s'"
  by (erule suspendE) (auto simp: sched_inv_def)

lemma block_inv: "block_current_and_run_next s = Inr s' \<Longrightarrow> sched_inv s \<Longrightarrow> sched_inv s'"
  by (erule blockE) (auto simp: sched_inv_def)

lemma wakeup_inv: "status_of s t = Blocked \<Longrightarrow> t < next_tcb s \<Longrightarrow> sched_inv s \<Longrightarrow> sched_inv (wakeup_task t s)"
  by (auto simp: sched_inv_def sched_defs)

lemma dispatch_inv: "current s = None \<Longrightarrow> sched_inv s \<Longrightarrow> sched_inv (run_tasks_round s)"
  by (cases "ready_queue s") (auto simp: sched_inv_def dispatch_eq, simp_all add: sched_defs)

lemma other_step_inv: "other_step s s' \<Longrightarrow> sched_inv s \<Longrightarrow> sched_inv s'"
proof (induction rule: other_step.induct)
  case (spawn b s t s')
  then show ?case by (auto simp: sched_inv_def sched_defs less_Suc_eq)
qed (auto intro: suspend_inv block_inv wakeup_inv, auto simp: sched_inv_def sched_defs)

lemma sched_run_inv: "sched_run n s s' \<Longrightarrow> sched_inv s \<Longrightarrow> sched_inv s'"
  by (induction rule: sched_run.induct) (auto intro: other_step_inv dispatch_inv)

text \<open>Away from a task, nothing changes the registers saved in its control block.\<close>

inductive away :: "task \<Rightarrow> sched \<Rightarrow> sched \<Rightarrow> bool" where
  refl: "away t s s"
| other: "away t s s' \<Longrightarrow> other_step s' s'' \<Longrightarrow> away t s s''"
| dispatch: "away t s s' \<Longrightarrow> current s' = None \<Longrightarrow> ready_queue s' = u # q \<Longrightarrow> u \<noteq> t \<Longrightarrow>
    away t s (run_tasks_round s')"

lemma other_step_keeps_cx:
  assumes "other_step s s'" and "current s \<noteq> Some t" and "t < next_tcb s"
  shows "tcb_cx (tcbs s' t) = tcb_cx (tcbs s t) \<and> current s' \<noteq> Some t \<and> t < next_tcb s'"
  using assms(1)
  by (cases rule: other_step.cases)
    (use assms(2,3) in \<open>auto elim!: suspendE blockE simp: sched_simps Let_def\<close>)

lemma away_keeps_cx:
  "away t s s' \<Longrightarrow> current s \<noteq> Some t \<Longrightarrow> t < next_tcb s
   \<Longrightarrow> tcb_cx (tcbs s' t) = tcb_cx (tcbs s t) \<and> current s' \<noteq> Some t \<and> t < next_tcb s'"
proof (induction rule: away.induct)
  case (other t s s' s'')
  then show ?case using other_step_keeps_cx [of s' s'' t] by simp
next
  case (dispatch t s s' u q)
  then show ?case by (simp add: dispatch_eq)
qed simp

text \<open>Other steps only append to the ready queue.\<close>

lemma other_step_queue: "other_step s s' \<Longrightarrow> \<exists>q. ready_queue s' = ready_queue s @ q"
  by (cases rule: other_step.cases, assumption)
    (auto elim!: suspendE blockE simp: sched_simps Let_def)

lemma sched_run_queue:
  "sched_run n s s' \<Longrightarrow> n \<le> length (ready_queue s) \<Longrightarrow> \<exists>q. ready_queue s' = drop n (ready_queue s) @ q"
proof (induction rule: sched_run.induct)
  case (other n s s' s'')
  then obtain q where "ready_queue s' = drop n (ready_queue s) @ q" by auto
  with other_step_queue [OF other(2)] show ?case by auto
next
  case (dispatch n s s')
  then obtain q where q: "ready_queue s' = drop n (ready_queue s) @ q" by auto
  from dispatch.prems have "drop n (ready_queue s) = ready_queue s ! n # drop (Suc n) (ready_queue s)"
    by (simp add: Cons_nth_drop_Suc)
  with q have "ready_queue s' = ready_queue s ! n # drop (Suc n) (ready_queue s) @ q" by simp
  from dispatch_eq [OF this] show ?case by auto
qed auto

section \<open>The timer queue\<close>

lemma heap_peek_None: "heap_peek key h = None \<longleftrightarrow> h = []"
proof
  assume n: "heap_peek key h = None"
  show "h = []"
  proof (rule ccontr)
    assume "h \<noteq> []"
    then have "finite (key ` set h)" "key ` set h \<noteq> {}" by auto
    from Max_in [OF this] obtain x where "x \<in> set h" "key x = Max (key ` set h)" by auto
    then have "x \<in> set h \<and> (\<forall>y \<in> set h. key y \<le> key x)" by simp
    with n show False by (auto simp: heap_peek_def position_None_iff)
  qed
qed (simp add: heap_peek_def)

lemma heap_peek_Some:
  assumes "heap_peek key h = Some i"
  shows "i < length h" and "\<forall>y \<in> set h. key y \<le> key (h ! i)"
  using position_SomeD [OF assms [unfolded heap_peek_def]] by auto

lemma key_cases:
  "TimerCondVar_key x = (if unat (expire_ms x) \<le> 2 ^ 63 then - int (unat (expire_ms x))
                         else 2 ^ 64 - int (unat (expire_ms x)))"
proof (cases "expire_ms x = 0")
  case False
  have "unat (expire_ms x) < 2 ^ 64" using unat_lt2p [of "expire_ms x"] by simp
  with False show ?thesis
    by (cases "unat (expire_ms x) \<le> 2 ^ 63")
      (auto simp: TimerCondVar_key_def sint_cases unat_minus_word of_nat_diff)
qed (simp add: TimerCondVar_key_def)

text \<open>The timers to wake, in the order in which the loop wakes them.\<close>

definition expired :: "usize \<Rightarrow> TimerCondVar list \<Rightarrow> TimerCondVar list" where
  "expired ms timers = filter (\<lambda>t. expire_ms t \<le> ms) timers"

lemma filter_remove_nth:
  assumes "i < length xs"
  shows "P (xs ! i) \<Longrightarrow> mset (filter P xs) = add_mset (xs ! i) (mset (filter P (remove_nth i xs)))"
    and "\<not> P (xs ! i) \<Longrightarrow> filter P (remove_nth i xs) = filter P xs"
proof -
  have "filter P xs = filter P (take i xs @ xs ! i # drop (Suc i) xs)"
    using id_take_nth_drop [OF assms] by simp
  then show "P (xs ! i) \<Longrightarrow> mset (filter P xs) = add_mset (xs ! i) (mset (filter P (remove_nth i xs)))"
    and "\<not> P (xs ! i) \<Longrightarrow> filter P (remove_nth i xs) = filter P xs"
    by (simp_all only: remove_nth_def filter_append filter.simps if_True if_False) simp
qed

lemma check_timer_loop_wakes:
  assumes "\<forall>x \<in> set timers. unat (expire_ms x) < 2 ^ 63"
  shows "\<exists>woken. mset woken = mset (expired ms timers) \<and> sorted (map (\<lambda>x. unat (expire_ms x)) woken)
    \<and> check_timer_loop ms (timers, s)
        = (filter (\<lambda>t. \<not> expire_ms t \<le> ms) timers, fold wakeup_task (map tm_task woken) s)"
  using assms
proof (induction "length timers" arbitrary: timers s rule: less_induct)
  case less
  show ?case
  proof (cases "heap_peek TimerCondVar_key timers")
    case None
    moreover from this have "timers = []" by (simp add: heap_peek_None)
    ultimately show ?thesis
      by (simp add: expired_def check_timer_loop.simps [of ms "[]" s] exI [of _ "[]"])
  next
    case (Some i)
    note top = heap_peek_Some [OF Some]
    have first: "unat (expire_ms (timers ! i)) \<le> unat (expire_ms y)" if "y \<in> set timers" for y
    proof -
      have "TimerCondVar_key y \<le> TimerCondVar_key (timers ! i)" using top(2) that by blast
      moreover have "unat (expire_ms y) < 2 ^ 63" "unat (expire_ms (timers ! i)) < 2 ^ 63"
        using less.prems that nth_mem [OF top(1)] by blast+
      ultimately show ?thesis
        unfolding key_cases by (simp add: word_le_def flip: word_le_nat_alt)
    qed
    show ?thesis
    proof (cases "expire_ms (timers ! i) \<le> ms")
      case False
      then have none: "\<not> expire_ms y \<le> ms" if "y \<in> set timers" for y
        using first [OF that] by (simp add: word_le_nat_alt)
      then show ?thesis using Some False
        by (auto simp: check_timer_loop.simps [of ms timers s] expired_def filter_empty_conv
            intro!: exI [of _ "[]"])
    next
      case True
      let ?r = "remove_nth i timers"
      have sub: "set ?r \<subseteq> set timers" by (rule set_remove_nth_subset)
      have "length ?r < length timers" using top(1) by simp
      from less.hyps [OF this, of "wakeup_task (tm_task (timers ! i)) s"] sub less.prems
      obtain woken where w: "mset woken = mset (expired ms ?r)"
        "sorted (map (\<lambda>x. unat (expire_ms x)) woken)"
        "check_timer_loop ms (?r, wakeup_task (tm_task (timers ! i)) s)
          = (filter (\<lambda>t. \<not> expire_ms t \<le> ms) ?r,
             fold wakeup_task (map tm_task woken) (wakeup_task (tm_task (timers ! i)) s))" by blast
      have "set woken = set (expired ms ?r)" using w(1) by (metis set_mset_mset)
      then have "\<forall>y \<in> set woken. y \<in> set timers" using sub by (auto simp: expired_def)
      then have "sorted (map (\<lambda>x. unat (expire_ms x)) (timers ! i # woken))" using w(2) first by auto
      moreover have "mset (timers ! i # woken) = mset (expired ms timers)"
        using w(1) True filter_remove_nth(1) [OF top(1), of "\<lambda>t. expire_ms t \<le> ms"]
        by (simp add: expired_def)
      moreover have "check_timer_loop ms (timers, s)
          = (filter (\<lambda>t. \<not> expire_ms t \<le> ms) timers, fold wakeup_task (map tm_task (timers ! i # woken)) s)"
        using Some True w(3) filter_remove_nth(2) [OF top(1), of "\<lambda>t. \<not> expire_ms t \<le> ms"]
        by (simp add: check_timer_loop.simps [of ms timers s])
      ultimately show ?thesis by blast
    qed
  qed
qed

lemma check_timer_starved:
  assumes "x \<in> set timers" and "2 ^ 63 < unat (expire_ms x)" and "unat ms \<le> 2 ^ 63"
  shows "check_timer_loop ms (timers, s) = (timers, s)"
proof -
  have "timers \<noteq> []" using assms(1) by auto
  then obtain i where i: "heap_peek TimerCondVar_key timers = Some i"
    by (cases "heap_peek TimerCondVar_key timers") (auto simp: heap_peek_None)
  have "uint (expire_ms x) < 2 ^ 64" using uint_lt2p [of "expire_ms x"] by simp
  then have "0 < TimerCondVar_key x" using assms(2) by (simp add: key_cases)
  also have "\<dots> \<le> TimerCondVar_key (timers ! i)" using heap_peek_Some(2) [OF i] assms(1) by blast
  finally have "2 ^ 63 < unat (expire_ms (timers ! i))" by (simp add: key_cases split: if_splits)
  then have "\<not> expire_ms (timers ! i) \<le> ms" using assms(3) by (simp add: word_le_nat_alt)
  with i show ?thesis by (simp add: check_timer_loop.simps [of ms timers s])
qed

section \<open>Properties\<close>


text \<open>A control block for the examples.\<close>

definition example_tcb :: "usize \<Rightarrow> TaskControlBlock" where
  "example_tcb sp0 = \<lparr>tcb_process = 0, tcb_kstack = KernelStack 0, tcb_res = None, tcb_trap_cx_ppn = PhysPageNum 0,
     tcb_cx = goto_trap_return 7 sp0, tcb_status = Ready, tcb_exit_code = None\<rparr>"

definition example_sched :: sched where
  "example_sched = \<lparr>tcbs = (\<lambda>t. example_tcb (of_nat t)), next_tcb = 2, ready_queue = [0, 1], current = None,
     idle_task_cx = zero_init, cpu = goto_trap_return 9 9\<rparr>"

lemma example_sched_inv: "sched_inv example_sched"
  by (simp add: sched_inv_def example_sched_def example_tcb_def)


text \<open>
  C10. A context switch loses nothing. When a task gives up the processor, by suspending or by
  blocking, and the idle loop later dispatches it again, whatever other tasks were dispatched,
  suspended, blocked, woken, started or ended in between, it continues with the \<open>ra\<close>, \<open>sp\<close> and
  \<open>s\<close> registers it had; and the idle loop itself resumes with the registers it had when it
  dispatched the task.\<close>

theorem switch_resumes_context:
  assumes "sched_inv s" and "current s = Some t"
    and "suspend_current_and_run_next s = Inr s1 \<or> block_current_and_run_next s = Inr s1"
    and "away t s1 s2" and "ready_queue s2 = t # q"
  shows "cpu s1 = idle_task_cx s \<and> current (run_tasks_round s2) = Some t \<and> cpu (run_tasks_round s2) = cpu s
    \<and> idle_task_cx (run_tasks_round s2) = cpu s2"
proof -
  have "tcb_cx (tcbs s1 t) = cpu s \<and> current s1 = None \<and> t < next_tcb s1 \<and> cpu s1 = idle_task_cx s"
    using assms(1-3) by (auto elim!: suspendE blockE simp: sched_inv_def)
  with away_keeps_cx [OF assms(4)] assms(5) show ?thesis by (simp add: dispatch_eq)
qed

theorem switch_resumes_context_witness:
  "\<exists>s1 s2. suspend_current_and_run_next (run_tasks_round example_sched) = Inr s1
     \<and> suspend_current_and_run_next (run_tasks_round s1) = Inr s2
     \<and> cpu (run_tasks_round s2) = cpu (run_tasks_round example_sched)"
proof -
  let ?s = "run_tasks_round example_sched"
  have s: "current ?s = Some 0" "ready_queue ?s = [1]"
    by (simp_all add: sched_defs example_sched_def)
  have inv: "sched_inv ?s" by (rule dispatch_inv) (simp_all add: example_sched_inv, simp add: example_sched_def)
  obtain s1 where s1: "suspend_current_and_run_next ?s = Inr s1"
    using s by (simp add: sched_defs Let_def)
  then have q1: "ready_queue s1 = [1, 0]" "current s1 = None" using s by (auto elim!: suspendE)
  then have d: "current (run_tasks_round s1) = Some 1" "ready_queue (run_tasks_round s1) = [0]"
    by (simp_all add: dispatch_eq)
  then obtain s2 where s2: "suspend_current_and_run_next (run_tasks_round s1) = Inr s2"
    by (simp add: suspend_current_and_run_next_def take_current_task_def)
  then have q2: "ready_queue s2 = [0, 1]" using d by (auto elim!: suspendE)
  have "away 0 s1 s2"
    using away.other [OF away.dispatch [OF away.refl q1(2,1)] other_step.suspend [OF s2]] by simp
  from switch_resumes_context [OF inv s(1) disjI1 [OF s1] this q2] s1 s2 show ?thesis by blast
qed

text \<open>
  C30. The queue is served in order, so waiting is bounded: a task at position \<open>k\<close> of the ready queue
  is at its head after exactly \<open>k\<close> dispatches, whatever else happens, and the next dispatch runs it.\<close>

theorem ready_wait_bounded:
  assumes "sched_inv s" and "k < length (ready_queue s)" and "sched_run k s s'" and "current s' = None"
  shows "current (run_tasks_round s') = Some (ready_queue s ! k)"
proof -
  from sched_run_queue [OF assms(3)] assms(2) obtain q where "ready_queue s' = drop k (ready_queue s) @ q"
    by auto
  then have "ready_queue s' = ready_queue s ! k # drop (Suc k) (ready_queue s) @ q"
    using assms(2) by (simp add: Cons_nth_drop_Suc)
  from dispatch_eq [OF this] show ?thesis by simp
qed

theorem ready_wait_bounded_witness:
  "\<exists>s'. suspend_current_and_run_next (run_tasks_round example_sched) = Inr s'
     \<and> current (run_tasks_round s') = Some 1"
proof -
  let ?s = "run_tasks_round example_sched"
  have s: "current ?s = Some 0" by (simp add: sched_defs example_sched_def)
  then obtain s' where s': "suspend_current_and_run_next ?s = Inr s'"
    by (simp add: suspend_current_and_run_next_def take_current_task_def)
  have "sched_run (Suc 0) example_sched ?s"
    by (rule sched_run.dispatch [OF sched_run.refl]) (simp_all add: example_sched_def)
  from sched_run.other [OF this other_step.suspend [OF s']] have "sched_run (Suc 0) example_sched s'" .
  moreover have "current s' = None" using s' by (auto elim: suspendE)
  ultimately show ?thesis
    using ready_wait_bounded [OF example_sched_inv, of "Suc 0" s'] s' by (simp add: example_sched_def)
qed

text \<open>
  C31. \<open>check_timer\<close> wakes the sleepers that are due, each once, in the order of their expiry, and
  leaves the others queued, as long as every expiry is below \<open>2 ^ 63\<close> milliseconds.\<close>

theorem check_timer_wakes_due:
  assumes "list_all (\<lambda>x. unat (expire_ms x) < 2 ^ 63) timers"
  shows "\<exists>woken. mset woken = mset (expired (get_time_ms tick) timers)
    \<and> sorted (map (\<lambda>x. unat (expire_ms x)) woken)
    \<and> check_timer tick (timers, s)
        = (filter (\<lambda>x. \<not> expire_ms x \<le> get_time_ms tick) timers, fold wakeup_task (map tm_task woken) s)"
  using check_timer_loop_wakes assms by (simp add: check_timer_def list_all_iff)

theorem check_timer_wakes_due_witness:
  "fst (check_timer 1250000 (add_timer 300 1 (add_timer 100 0 []), example_sched)) = add_timer 300 1 []"
  using check_timer_wakes_due [of "add_timer 300 1 (add_timer 100 0 [])" 1250000 example_sched]
  by (auto simp: add_timer_def heap_push_def get_time_ms_def time_defs)

text \<open>
  One sleeper with an expiry above \<open>2 ^ 63\<close> (a sleep of \<open>usize::MAX\<close> milliseconds is enough)
  stops the timer queue: the order of the heap compares negated signed values, so that entry is
  always at the top, and \<open>check_timer\<close> wakes nobody, however long the others have been due.\<close>

lemma huge_sleep_starves_timers:
  assumes "x \<in> set timers" and "2 ^ 63 < unat (expire_ms x)"
  shows "check_timer tick (timers, s) = (timers, s)"
proof -
  have "unat tick < 2 ^ 64" using unat_lt2p [of tick] by simp
  then have "unat (get_time_ms tick) \<le> 2 ^ 63"
    by (simp add: get_time_ms_def time_defs unat_div)
  with check_timer_starved [OF assms] show ?thesis by (simp add: check_timer_def)
qed

lemma huge_sleep_starves_timers_witness:
  "check_timer (- 1) (add_timer (- 1) 1 (add_timer 100 0 []), example_sched)
     = (add_timer (- 1) 1 (add_timer 100 0 []), example_sched)"
  using huge_sleep_starves_timers [of "\<lparr>expire_ms = - 1, tm_task = 1\<rparr>"
      "add_timer (- 1) 1 (add_timer 100 0 [])" "- 1" example_sched]
  by (simp add: add_timer_def heap_push_def unat_minus_word)

end
