(* ===== verification/Sync.thy ===== *)
theory Sync
  imports Sched
begin

text \<open>
  The synchronisation primitives of \<open>os/src/sync/{mutex,semaphore,condvar}.rs\<close> over the scheduler.
  A primitive is the record behind its cell; an operation takes it together with the scheduler
  state and returns both. An operation that blocks returns with the idle loop running, and what
  it does after it is woken is a second definition.
\<close>

section \<open>\<open>MutexSpin\<close>\<close>

record MutexSpin =
  spin_locked :: bool

definition MutexSpin_new :: MutexSpin where "MutexSpin_new = \<lparr>spin_locked = False\<rparr>"

text \<open>One turn of the loop of \<open>lock\<close>; \<open>True\<close> when the lock is taken.\<close>

definition MutexSpin_lock_round :: "MutexSpin \<Rightarrow> 'a sched_scheme \<Rightarrow> (bool \<times> MutexSpin \<times> 'a sched_scheme) result" where
  "MutexSpin_lock_round m s =
     (if spin_locked m then rbind (suspend_current_and_run_next s) (\<lambda>s. Inr (False, m, s))
      else Inr (True, m\<lparr>spin_locked := True\<rparr>, s))"

definition MutexSpin_unlock :: "MutexSpin \<Rightarrow> MutexSpin" where
  "MutexSpin_unlock m = m\<lparr>spin_locked := False\<rparr>"

section \<open>\<open>MutexBlocking\<close>\<close>

record MutexBlockingInner =
  mb_locked :: bool
  mb_wait_queue :: "task list"

definition MutexBlocking_new :: MutexBlockingInner where
  "MutexBlocking_new = \<lparr>mb_locked = False, mb_wait_queue = []\<rparr>"

definition MutexBlocking_lock ::
  "MutexBlockingInner \<Rightarrow> 'a sched_scheme \<Rightarrow> (MutexBlockingInner \<times> 'a sched_scheme) result" where
  "MutexBlocking_lock m s =
     (if mb_locked m then
        rbind (unwrap (current_task s)) (\<lambda>t.
        rbind (block_current_and_run_next s) (\<lambda>s.
        Inr (m\<lparr>mb_wait_queue := mb_wait_queue m @ [t]\<rparr>, s)))
      else Inr (m\<lparr>mb_locked := True\<rparr>, s))"

definition MutexBlocking_unlock ::
  "MutexBlockingInner \<Rightarrow> 'a sched_scheme \<Rightarrow> (MutexBlockingInner \<times> 'a sched_scheme) result" where
  "MutexBlocking_unlock m s =
     rbind (rassert (mb_locked m)) (\<lambda>_.
     case mb_wait_queue m of
       waking_task # q \<Rightarrow> Inr (m\<lparr>mb_wait_queue := q\<rparr>, wakeup_task waking_task s)
     | [] \<Rightarrow> Inr (m\<lparr>mb_locked := False\<rparr>, s))"

section \<open>\<open>Semaphore\<close>\<close>

record SemaphoreInner =
  sem_count :: isize
  sem_wait_queue :: "task list"

definition Semaphore_new :: "usize \<Rightarrow> SemaphoreInner" where
  "Semaphore_new res_count = \<lparr>sem_count = res_count, sem_wait_queue = []\<rparr>"

definition Semaphore_up :: "SemaphoreInner \<Rightarrow> 'a sched_scheme \<Rightarrow> SemaphoreInner \<times> 'a sched_scheme" where
  "Semaphore_up sm s =
     (let sm = sm\<lparr>sem_count := sem_count sm + 1\<rparr> in
      if sint (sem_count sm) \<le> 0 then
        case sem_wait_queue sm of
          t # q \<Rightarrow> (sm\<lparr>sem_wait_queue := q\<rparr>, wakeup_task t s)
        | [] \<Rightarrow> (sm, s)
      else (sm, s))"

definition Semaphore_down ::
  "SemaphoreInner \<Rightarrow> 'a sched_scheme \<Rightarrow> (SemaphoreInner \<times> 'a sched_scheme) result" where
  "Semaphore_down sm s =
     (let sm = sm\<lparr>sem_count := sem_count sm - 1\<rparr> in
      if sint (sem_count sm) < 0 then
        rbind (unwrap (current_task s)) (\<lambda>t.
        rbind (block_current_and_run_next s) (\<lambda>s.
        Inr (sm\<lparr>sem_wait_queue := sem_wait_queue sm @ [t]\<rparr>, s)))
      else Inr (sm, s))"

section \<open>\<open>Condvar\<close>\<close>

record CondvarInner =
  cv_wait_queue :: "task list"

definition Condvar_new :: CondvarInner where "Condvar_new = \<lparr>cv_wait_queue = []\<rparr>"

definition Condvar_signal :: "CondvarInner \<Rightarrow> 'a sched_scheme \<Rightarrow> CondvarInner \<times> 'a sched_scheme" where
  "Condvar_signal c s =
     (case cv_wait_queue c of
        t # q \<Rightarrow> (c\<lparr>cv_wait_queue := q\<rparr>, wakeup_task t s)
      | [] \<Rightarrow> (c, s))"

definition wait_no_sched :: "CondvarInner \<Rightarrow> 'a sched_scheme \<Rightarrow> (cx_ptr \<times> CondvarInner \<times> 'a sched_scheme) result" where
  "wait_no_sched c s =
     rbind (unwrap (current_task s)) (\<lambda>t.
     rbind (block_current_task s) (\<lambda>(p, s).
     Inr (p, c\<lparr>cv_wait_queue := cv_wait_queue c @ [t]\<rparr>, s)))"

text \<open>\<open>wait_with_mutex\<close> up to the switch; after it, the task locks the mutex again.\<close>

definition wait_with_mutex ::
  "CondvarInner \<Rightarrow> MutexBlockingInner \<Rightarrow> 'a sched_scheme
     \<Rightarrow> (CondvarInner \<times> MutexBlockingInner \<times> 'a sched_scheme) result" where
  "wait_with_mutex c m s =
     rbind (MutexBlocking_unlock m s) (\<lambda>(m, s).
     rbind (unwrap (current_task s)) (\<lambda>t.
     rbind (block_current_and_run_next s) (\<lambda>s.
     Inr (c\<lparr>cv_wait_queue := cv_wait_queue c @ [t]\<rparr>, m, s))))"

definition wait_with_mutex_resume ::
  "MutexBlockingInner \<Rightarrow> 'a sched_scheme \<Rightarrow> (MutexBlockingInner \<times> 'a sched_scheme) result" where
  "wait_with_mutex_resume m s = MutexBlocking_lock m s"

section \<open>A system of tasks and primitives\<close>

text \<open>
  What a blocked task waits for, and, for a condition variable, the mutex it locks afterwards.
\<close>

datatype wait_object = Mutex_At nat | Semaphore_At nat | Condvar_At nat | Timer_At

datatype position = Outside | Waiting wait_object "nat option"

text \<open>
  Beside the kernel's objects, \<open>where_is\<close> records for each task the call it is blocked in or has
  been woken from without having run yet, \<open>holding\<close> the locks that returned calls of \<open>lock\<close> took and
  \<open>unlock\<close> did not give back, \<open>downs\<close> and \<open>ups\<close> the returned calls on each semaphore.
\<close>

record sync_sys = sched +
  mutexes :: "nat \<Rightarrow> MutexBlockingInner"
  semaphores :: "nat \<Rightarrow> SemaphoreInner"
  condvars :: "nat \<Rightarrow> CondvarInner"
  timers :: "TimerCondVar list"
  where_is :: "task \<Rightarrow> position"
  holding :: "(task \<times> nat) set"
  downs :: "nat \<Rightarrow> nat"
  ups :: "nat \<Rightarrow> nat"

definition arrive :: "task \<Rightarrow> position \<Rightarrow> sync_sys \<Rightarrow> sync_sys" where
  "arrive t p s = s\<lparr>where_is := (where_is s)(t := p)\<rparr>"

inductive sync_step :: "sync_sys \<Rightarrow> sync_sys \<Rightarrow> bool" where
  lock_now: "current s = Some t \<Longrightarrow> where_is s t = Outside \<or> (\<exists>c. where_is s t = Waiting (Condvar_At c) (Some m)) \<Longrightarrow>
    \<not> mb_locked (mutexes s m) \<Longrightarrow> MutexBlocking_lock (mutexes s m) s = Inr (mi, s') \<Longrightarrow>
    sync_step s (arrive t Outside (s'\<lparr>mutexes := (mutexes s')(m := mi), holding := insert (t, m) (holding s')\<rparr>))"
| lock_wait: "current s = Some t \<Longrightarrow> where_is s t = Outside \<or> (\<exists>c. where_is s t = Waiting (Condvar_At c) (Some m)) \<Longrightarrow>
    mb_locked (mutexes s m) \<Longrightarrow> MutexBlocking_lock (mutexes s m) s = Inr (mi, s') \<Longrightarrow>
    sync_step s (arrive t (Waiting (Mutex_At m) None) (s'\<lparr>mutexes := (mutexes s')(m := mi)\<rparr>))"
| lock_return: "current s = Some t \<Longrightarrow> where_is s t = Waiting (Mutex_At m) None \<Longrightarrow>
    sync_step s (arrive t Outside (s\<lparr>holding := insert (t, m) (holding s)\<rparr>))"
| unlock: "current s = Some t \<Longrightarrow> where_is s t = Outside \<Longrightarrow> (t, m) \<in> holding s \<Longrightarrow>
    MutexBlocking_unlock (mutexes s m) s = Inr (mi, s') \<Longrightarrow>
    sync_step s (s'\<lparr>mutexes := (mutexes s')(m := mi), holding := holding s' - {(t, m)}\<rparr>)"
| down_now: "current s = Some t \<Longrightarrow> where_is s t = Outside \<Longrightarrow>
    Semaphore_down (semaphores s k) s = Inr (si, s') \<Longrightarrow> current s' = Some t \<Longrightarrow>
    sync_step s (s'\<lparr>semaphores := (semaphores s')(k := si), downs := (downs s')(k := Suc (downs s' k))\<rparr>)"
| down_wait: "current s = Some t \<Longrightarrow> where_is s t = Outside \<Longrightarrow>
    Semaphore_down (semaphores s k) s = Inr (si, s') \<Longrightarrow> current s' = None \<Longrightarrow>
    sync_step s (arrive t (Waiting (Semaphore_At k) None) (s'\<lparr>semaphores := (semaphores s')(k := si)\<rparr>))"
| down_return: "current s = Some t \<Longrightarrow> where_is s t = Waiting (Semaphore_At k) None \<Longrightarrow>
    sync_step s (arrive t Outside (s\<lparr>downs := (downs s)(k := Suc (downs s k))\<rparr>))"
| up: "current s = Some t \<Longrightarrow> where_is s t = Outside \<Longrightarrow> ups s k < 2 ^ 62 \<Longrightarrow>
    Semaphore_up (semaphores s k) s = (si, s') \<Longrightarrow>
    sync_step s (s'\<lparr>semaphores := (semaphores s')(k := si), ups := (ups s')(k := Suc (ups s' k))\<rparr>)"
| cv_wait: "current s = Some t \<Longrightarrow> where_is s t = Outside \<Longrightarrow> (t, m) \<in> holding s \<Longrightarrow>
    wait_with_mutex (condvars s c) (mutexes s m) s = Inr (ci, mi, s') \<Longrightarrow>
    sync_step s (arrive t (Waiting (Condvar_At c) (Some m))
      (s'\<lparr>mutexes := (mutexes s')(m := mi), condvars := (condvars s')(c := ci), holding := holding s' - {(t, m)}\<rparr>))"
| cv_signal: "current s = Some t \<Longrightarrow> where_is s t = Outside \<Longrightarrow>
    Condvar_signal (condvars s c) s = (ci, s') \<Longrightarrow>
    sync_step s (s'\<lparr>condvars := (condvars s')(c := ci)\<rparr>)"
| sleep: "current s = Some t \<Longrightarrow> where_is s t = Outside \<Longrightarrow> block_current_and_run_next s = Inr s' \<Longrightarrow>
    sync_step s (arrive t (Waiting Timer_At None) (s'\<lparr>timers := add_timer ms t (timers s)\<rparr>))"
| sleep_return: "current s = Some t \<Longrightarrow> where_is s t = Waiting Timer_At None \<Longrightarrow>
    sync_step s (arrive t Outside s)"
| tick: "check_timer tk (timers s, s) = (tms, s') \<Longrightarrow> sync_step s (s'\<lparr>timers := tms\<rparr>)"
| suspend: "suspend_current_and_run_next s = Inr s' \<Longrightarrow> sync_step s s'"
| compute: "sync_step s (s\<lparr>cpu := c\<rparr>)"
| dispatch: "current s = None \<Longrightarrow> sync_step s (run_tasks_round s)"

end
