(* ===== verification/Sync_Safety.thy ===== *)
theory Sync_Safety
  imports Sync
begin

text \<open>
  Safety of the synchronisation primitives: in every reachable state of a system of tasks that
  lock and unlock mutexes, move semaphores, wait on condition variables and sleep, a task waits
  in at most one queue and is blocked there, a mutex has at most one holder, and a semaphore
  never admits more tasks than it has permits.
\<close>

section \<open>Wait queues\<close>

definition wq :: "sync_sys \<Rightarrow> wait_object \<Rightarrow> task list" where
  "wq s ob = (case ob of
      Mutex_At m \<Rightarrow> mb_wait_queue (mutexes s m)
    | Semaphore_At k \<Rightarrow> sem_wait_queue (semaphores s k)
    | Condvar_At c \<Rightarrow> cv_wait_queue (condvars s c)
    | Timer_At \<Rightarrow> map tm_task (timers s))"

definition waits_ok ::
  "(task \<Rightarrow> TaskStatus) \<Rightarrow> task \<Rightarrow> (task \<Rightarrow> position) \<Rightarrow> (wait_object \<Rightarrow> task list) \<Rightarrow> bool" where
  "waits_ok st nx wh q \<longleftrightarrow> (\<forall>ob. distinct (q ob)
     \<and> (\<forall>t \<in> set (q ob). st t = Blocked \<and> t < nx \<and> (\<exists>r. wh t = Waiting ob r)))"

lemma waits_okD:
  assumes "waits_ok st nx wh q" and "t \<in> set (q ob)"
  shows "st t = Blocked" and "t < nx" and "\<exists>r. wh t = Waiting ob r"
  using assms by (auto simp: waits_ok_def)

lemma waits_enqueue:
  assumes "waits_ok st nx wh q" and "st t = Running" and "t < nx"
  shows "waits_ok (st(t := Blocked)) nx (wh(t := Waiting ob r)) (q(ob := q ob @ [t]))"
proof -
  have "t \<notin> set (q ob')" for ob' using assms(1,2) by (auto simp: waits_ok_def)
  with assms show ?thesis by (auto simp: waits_ok_def)
qed

lemma waits_remove:
  assumes w: "waits_ok st nx wh q" and i: "i < length (q ob)"
  shows "waits_ok (st(q ob ! i := Ready)) nx wh (q(ob := remove_nth i (q ob)))"
proof -
  let ?t = "q ob ! i"
  from w have d: "distinct (q ob)" by (simp add: waits_ok_def)
  then have "distinct (take i (q ob) @ ?t # drop (Suc i) (q ob))" using id_take_nth_drop [OF i] by simp
  then have r: "?t \<notin> set (remove_nth i (q ob))" "distinct (remove_nth i (q ob))"
    by (auto simp: remove_nth_def)
  have "?t \<notin> set (q ob')" if "ob' \<noteq> ob" for ob'
    using waits_okD(3) [OF w nth_mem [OF i]] waits_okD(3) [OF w, of ?t ob'] that by auto
  with w r set_remove_nth_subset [of i "q ob"] show ?thesis
    unfolding waits_ok_def by (auto simp: subset_iff)
qed

lemma waits_wake:
  "waits_ok st nx wh q \<Longrightarrow> q ob = w # rest \<Longrightarrow> waits_ok (st(w := Ready)) nx wh (q(ob := rest))"
  using waits_remove [of st nx wh q 0 ob] by (simp add: remove_nth_def)

lemma waits_running:
  assumes "waits_ok st nx wh q" and "st t \<noteq> Blocked"
  shows "waits_ok st nx (wh(t := p)) q" and "x \<noteq> Blocked \<Longrightarrow> waits_ok (st(t := x)) nx wh q"
  using assms by (auto simp: waits_ok_def)

text \<open>The invariant of one state: the scheduler's and that of the queues.\<close>

definition wait_inv :: "sync_sys \<Rightarrow> bool" where
  "wait_inv s \<longleftrightarrow> sched_inv s \<and> waits_ok (status_of s) (next_tcb s) (where_is s) (wq s)"

lemma sched_inv_cong:
  "tcbs s' = tcbs s \<Longrightarrow> ready_queue s' = ready_queue s \<Longrightarrow> current s' = current s \<Longrightarrow> next_tcb s' = next_tcb s
   \<Longrightarrow> sched_inv s' = sched_inv s"
  by (simp add: sched_inv_def)

lemma current_running:
  "wait_inv s \<Longrightarrow> current s = Some t \<Longrightarrow> status_of s t = Running \<and> t < next_tcb s"
  by (simp add: wait_inv_def sched_inv_def)

text \<open>The current task queues itself and blocks; a queued task is woken; the current task goes on.\<close>

lemma wait_inv_block:
  assumes inv: "wait_inv s" and t: "current s = Some t" and b: "block_current_and_run_next s = Inr s'"
    and s'': "tcbs s'' = tcbs s'" "ready_queue s'' = ready_queue s'" "current s'' = current s'" "next_tcb s'' = next_tcb s'"
    and wh: "where_is s'' = (where_is s)(t := Waiting ob r)" and q: "wq s'' = (wq s)(ob := wq s ob @ [t])"
  shows "wait_inv s''"
proof -
  note run = current_running [OF inv t]
  have "sched_inv s'" using block_inv [OF b] inv by (simp add: wait_inv_def)
  then have "sched_inv s''" by (simp add: sched_inv_cong [OF s''])
  moreover have "status_of s'' = (status_of s)(t := Blocked)" "next_tcb s'' = next_tcb s"
    using b t by (auto elim!: blockE simp: s'' fun_eq_iff)
  ultimately show ?thesis
    using waits_enqueue [of "status_of s" "next_tcb s" "where_is s" "wq s" t ob r] inv run wh q
    by (simp add: wait_inv_def)
qed

lemma wait_inv_wake:
  assumes inv: "wait_inv s" and w: "wq s ob = w # rest"
    and s'': "tcbs s'' = tcbs (wakeup_task w s)" "ready_queue s'' = ready_queue (wakeup_task w s)"
      "current s'' = current (wakeup_task w s)" "next_tcb s'' = next_tcb (wakeup_task w s)"
    and wh: "where_is s'' = where_is s" and q: "wq s'' = (wq s)(ob := rest)"
  shows "wait_inv s''"
proof -
  have ok: "waits_ok (status_of s) (next_tcb s) (where_is s) (wq s)" using inv by (simp add: wait_inv_def)
  have "status_of s w = Blocked" "w < next_tcb s" using waits_okD [OF ok, of w ob] w by auto
  then have "sched_inv (wakeup_task w s)" using inv by (intro wakeup_inv) (simp_all add: wait_inv_def)
  then have "sched_inv s''" by (simp add: sched_inv_cong [OF s''])
  moreover have "status_of s'' = (status_of s)(w := Ready)" "next_tcb s'' = next_tcb s"
    by (auto simp: s'' sched_simps fun_eq_iff)
  ultimately show ?thesis using waits_wake [OF ok w] wh q by (simp add: wait_inv_def)
qed

lemma wait_inv_go_on:
  assumes inv: "wait_inv s" and t: "current s = Some t"
    and s'': "tcbs s'' = tcbs s" "ready_queue s'' = ready_queue s" "current s'' = current s" "next_tcb s'' = next_tcb s"
    and wh: "where_is s'' = (where_is s)(t := p)" and q: "wq s'' = wq s"
  shows "wait_inv s''"
proof -
  have "waits_ok (status_of s) (next_tcb s) ((where_is s)(t := p)) (wq s)"
    using inv current_running [OF inv t] by (intro waits_running) (simp_all add: wait_inv_def)
  with inv s'' wh q show ?thesis by (simp add: wait_inv_def sched_inv_cong [OF s''])
qed

lemmas wq_simps = wq_def fun_eq_iff arrive_def

text \<open>The operations, as the fields they change.\<close>

lemma lock_nowD:
  "MutexBlocking_lock mi0 s = Inr (mi, s') \<Longrightarrow> \<not> mb_locked mi0 \<Longrightarrow> mi = mi0\<lparr>mb_locked := True\<rparr> \<and> s' = s"
  by (auto simp: MutexBlocking_lock_def)

lemma lock_waitD:
  "MutexBlocking_lock mi0 s = Inr (mi, s') \<Longrightarrow> mb_locked mi0 \<Longrightarrow> current s = Some t
   \<Longrightarrow> mi = mi0\<lparr>mb_wait_queue := mb_wait_queue mi0 @ [t]\<rparr> \<and> block_current_and_run_next s = Inr s'"
  by (auto simp: MutexBlocking_lock_def result_simps current_task_def)

lemma unlockD:
  assumes "MutexBlocking_unlock mi0 s = Inr (mi, s')"
  shows "mb_locked mi0" and "mb_wait_queue mi0 = [] \<Longrightarrow> mi = mi0\<lparr>mb_locked := False\<rparr> \<and> s' = s"
    and "mb_wait_queue mi0 = w # q \<Longrightarrow> mi = mi0\<lparr>mb_wait_queue := q\<rparr> \<and> s' = wakeup_task w s"
  using assms by (auto simp: MutexBlocking_unlock_def result_simps split: list.splits)

lemma wakeup_fields [simp]:
  "mutexes (wakeup_task t s) = mutexes s" "semaphores (wakeup_task t s) = semaphores s"
  "condvars (wakeup_task t s) = condvars s" "timers (wakeup_task t s) = timers s"
  "where_is (wakeup_task t s) = where_is s" "holding (wakeup_task t s) = holding s"
  "downs (wakeup_task t s) = downs s" "ups (wakeup_task t s) = ups s"
  "current (wakeup_task t s') = current s'" "next_tcb (wakeup_task t s') = next_tcb s'"
  by (simp_all add: sched_simps)

lemma block_fields:
  assumes "block_current_and_run_next s = Inr (s' :: sync_sys)"
  shows "mutexes s' = mutexes s" and "semaphores s' = semaphores s" and "condvars s' = condvars s"
    and "timers s' = timers s" and "where_is s' = where_is s" and "holding s' = holding s"
    and "downs s' = downs s" and "ups s' = ups s" and "current s' = None" and "next_tcb s' = next_tcb s"
  using assms by (auto elim!: blockE)

lemma unlock_wait_inv:
  assumes inv: "wait_inv s" and u: "MutexBlocking_unlock (mutexes s m) s = Inr (mi, s')"
    and s'': "tcbs s'' = tcbs s'" "ready_queue s'' = ready_queue s'" "current s'' = current s'" "next_tcb s'' = next_tcb s'"
      "where_is s'' = where_is s" "mutexes s'' = (mutexes s)(m := mi)" "semaphores s'' = semaphores s"
      "condvars s'' = condvars s" "timers s'' = timers s"
  shows "wait_inv s''"
proof (cases "mb_wait_queue (mutexes s m)")
  case Nil
  with unlockD(2) [OF u] have mi: "mi = (mutexes s m)\<lparr>mb_locked := False\<rparr>" "s' = s" by auto
  have "wq s'' = wq s" using Nil s''(6-9) mi by (auto simp: wq_simps split: wait_object.split)
  with inv s'' mi show ?thesis by (simp add: wait_inv_def sched_inv_cong [of s'' s])
next
  case (Cons w q)
  with unlockD(3) [OF u Cons] have mi: "mi = (mutexes s m)\<lparr>mb_wait_queue := q\<rparr>" "s' = wakeup_task w s" by auto
  have w: "wq s (Mutex_At m) = w # q" using Cons by (simp add: wq_def)
  show ?thesis
    by (rule wait_inv_wake [OF inv w])
      (use s'' mi in \<open>auto simp: wq_simps split: wait_object.split\<close>)
qed

lemma timer_loop_inv:
  assumes "sched_inv s" and "waits_ok (status_of s) (next_tcb s) (where_is s) ((wq s)(Timer_At := map tm_task tms))"
    and "check_timer_loop ms (tms, s) = (tms', s')"
  shows "sched_inv s' \<and> waits_ok (status_of s') (next_tcb s') (where_is s') ((wq s')(Timer_At := map tm_task tms'))
    \<and> mutexes s' = mutexes s \<and> semaphores s' = semaphores s \<and> condvars s' = condvars s
    \<and> where_is s' = where_is s \<and> holding s' = holding s \<and> downs s' = downs s \<and> ups s' = ups s
    \<and> next_tcb s' = next_tcb s \<and> current s' = current s"
  using assms
proof (induction "length tms" arbitrary: tms s rule: less_induct)
  case less
  let ?go = "\<exists>i. heap_peek TimerCondVar_key tms = Some i \<and> expire_ms (tms ! i) \<le> ms"
  show ?case
  proof (cases ?go)
    case False
    then have "tms' = tms \<and> s' = s"
      using less.prems(3) by (auto simp: check_timer_loop.simps [of ms tms s] split: option.splits if_splits)
    with less.prems show ?thesis by simp
  next
    case True
    then obtain i where i: "heap_peek TimerCondVar_key tms = Some i" "expire_ms (tms ! i) \<le> ms" by blast
    let ?w = "tm_task (tms ! i)"
    define q where "q = (wq s)(Timer_At := map tm_task tms)"
    have l: "i < length tms" by (rule heap_peek_Some [OF i(1)])
    then have qi: "q Timer_At ! i = ?w" "i < length (q Timer_At)" by (simp_all add: q_def)
    have ok: "waits_ok (status_of s) (next_tcb s) (where_is s) q" using less.prems(2) by (simp add: q_def)
    from waits_okD [OF ok nth_mem [OF qi(2)]] qi(1) have b: "status_of s ?w = Blocked" "?w < next_tcb s"
      by auto
    let ?s1 = "wakeup_task ?w s"
    have "status_of ?s1 = (status_of s)(?w := Ready)" by (auto simp: sched_simps fun_eq_iff)
    moreover have "(wq ?s1)(Timer_At := map tm_task (remove_nth i tms)) = q(Timer_At := remove_nth i (q Timer_At))"
      by (auto simp: q_def wq_def fun_eq_iff remove_nth_def take_map drop_map split: wait_object.split)
    ultimately have w: "waits_ok (status_of ?s1) (next_tcb ?s1) (where_is ?s1)
        ((wq ?s1)(Timer_At := map tm_task (remove_nth i tms)))"
      using waits_remove [OF ok qi(2)] qi(1) by simp
    have sc: "sched_inv ?s1" using b less.prems(1) by (rule wakeup_inv)
    have lp: "check_timer_loop ms (remove_nth i tms, ?s1) = (tms', s')"
      using less.prems(3) i by (simp add: check_timer_loop.simps [of ms tms s])
    have "length (remove_nth i tms) < length tms" using l by simp
    from less.hyps [OF this sc w lp] show ?thesis unfolding wakeup_fields .
  qed
qed

lemma tick_fields:
  assumes inv: "wait_inv s" and c: "check_timer tk (timers s, s) = (tms, s')"
  shows "wait_inv (s'\<lparr>timers := tms\<rparr>)"
    and "mutexes s' = mutexes s \<and> semaphores s' = semaphores s \<and> condvars s' = condvars s
    \<and> where_is s' = where_is s \<and> holding s' = holding s \<and> downs s' = downs s \<and> ups s' = ups s
    \<and> next_tcb s' = next_tcb s \<and> current s' = current s"
proof -
  have "(wq s)(Timer_At := map tm_task (timers s)) = wq s" by (auto simp: wq_def fun_eq_iff)
  then have t: "sched_inv s' \<and> waits_ok (status_of s') (next_tcb s') (where_is s') ((wq s')(Timer_At := map tm_task tms))
    \<and> mutexes s' = mutexes s \<and> semaphores s' = semaphores s \<and> condvars s' = condvars s
    \<and> where_is s' = where_is s \<and> holding s' = holding s \<and> downs s' = downs s \<and> ups s' = ups s
    \<and> next_tcb s' = next_tcb s \<and> current s' = current s"
    using inv c by (intro timer_loop_inv [of s "timers s" "get_time_ms tk"])
      (simp_all add: wait_inv_def check_timer_def)
  then show "mutexes s' = mutexes s \<and> semaphores s' = semaphores s \<and> condvars s' = condvars s
    \<and> where_is s' = where_is s \<and> holding s' = holding s \<and> downs s' = downs s \<and> ups s' = ups s
    \<and> next_tcb s' = next_tcb s \<and> current s' = current s" by blast
  have "wq (s'\<lparr>timers := tms\<rparr>) = (wq s')(Timer_At := map tm_task tms)"
    by (auto simp: wq_def fun_eq_iff split: wait_object.split)
  with conjunct1 [OF t] conjunct1 [OF conjunct2 [OF t]] show "wait_inv (s'\<lparr>timers := tms\<rparr>)"
    by (simp add: wait_inv_def sched_inv_cong [of "s'\<lparr>timers := tms\<rparr>" s'])
qed

lemma semaphore_downD:
  assumes "Semaphore_down sm0 s = Inr (sm, s')" and "current s = Some t"
  shows "current s' = Some t \<Longrightarrow> \<not> sint (sem_count sm0 - 1) < 0 \<and> sm = sm0\<lparr>sem_count := sem_count sm0 - 1\<rparr> \<and> s' = s"
    and "current s' = None \<Longrightarrow> sint (sem_count sm0 - 1) < 0 \<and> block_current_and_run_next s = Inr s'
      \<and> sm = sm0\<lparr>sem_count := sem_count sm0 - 1, sem_wait_queue := sem_wait_queue sm0 @ [t]\<rparr>"
  using assms by (auto simp: Semaphore_down_def Let_def result_simps current_task_def split: if_splits elim!: blockE)

lemma semaphore_upD:
  assumes "Semaphore_up sm0 s = (sm, s')"
  shows "sem_count sm = sem_count sm0 + 1"
    and "sint (sem_count sm0 + 1) \<le> 0 \<Longrightarrow> sem_wait_queue sm0 = w # q \<Longrightarrow> sem_wait_queue sm = q \<and> s' = wakeup_task w s"
    and "\<not> sint (sem_count sm0 + 1) \<le> 0 \<or> sem_wait_queue sm0 = [] \<Longrightarrow> sem_wait_queue sm = sem_wait_queue sm0 \<and> s' = s"
  using assms by (auto simp: Semaphore_up_def Let_def split: if_splits list.splits)

lemma cv_waitE:
  assumes "wait_with_mutex c0 m0 s = Inr (c, m, s')"
  obtains s1 t where "MutexBlocking_unlock m0 s = Inr (m, s1)" and "current s1 = Some t"
    and "block_current_and_run_next s1 = Inr s'" and "c = c0\<lparr>cv_wait_queue := cv_wait_queue c0 @ [t]\<rparr>"
  using assms by (auto simp: wait_with_mutex_def result_simps current_task_def)

lemma unlock_fields:
  assumes "MutexBlocking_unlock m0 s = Inr (m, s')"
  shows "mutexes s' = mutexes s" and "semaphores s' = semaphores s" and "condvars s' = condvars s"
    and "timers s' = timers s" and "where_is s' = where_is s" and "holding s' = holding s"
    and "downs s' = downs s" and "ups s' = ups s" and "current s' = current s" and "next_tcb s' = next_tcb s"
  using assms by (auto simp: MutexBlocking_unlock_def result_simps split: list.splits)

lemma dispatch_fields:
  "mutexes (run_tasks_round s) = mutexes s" "semaphores (run_tasks_round s) = semaphores s"
  "condvars (run_tasks_round s) = condvars s" "timers (run_tasks_round s) = timers s"
  "where_is (run_tasks_round s) = where_is s" "holding (run_tasks_round s) = holding s"
  "downs (run_tasks_round s) = downs s" "ups (run_tasks_round s) = ups s"
  "next_tcb (run_tasks_round s) = next_tcb s"
  by (cases "ready_queue s"; simp add: sched_defs Let_def)+

lemma suspend_fields:
  assumes "suspend_current_and_run_next s = Inr (s' :: sync_sys)"
  shows "mutexes s' = mutexes s" and "semaphores s' = semaphores s" and "condvars s' = condvars s"
    and "timers s' = timers s" and "where_is s' = where_is s" and "holding s' = holding s"
    and "downs s' = downs s" and "ups s' = ups s" and "next_tcb s' = next_tcb s"
  using assms by (auto elim!: suspendE)

lemma wq_cong:
  "mutexes s' = mutexes s \<Longrightarrow> semaphores s' = semaphores s \<Longrightarrow> condvars s' = condvars s \<Longrightarrow> timers s' = timers s
   \<Longrightarrow> wq s' = wq s"
  by (auto simp: wq_def fun_eq_iff split: wait_object.split)

lemma suspend_wait_inv:
  assumes inv: "wait_inv s" and sp: "suspend_current_and_run_next s = Inr s'"
  shows "wait_inv s'"
proof -
  from sp obtain t where t: "current s = Some t" by (auto elim: suspendE)
  have "waits_ok ((status_of s)(t := Ready)) (next_tcb s) (where_is s) (wq s)"
    using inv current_running [OF inv t] by (intro waits_running) (simp_all add: wait_inv_def)
  moreover have "status_of s' = (status_of s)(t := Ready)" using sp t by (auto elim!: suspendE simp: fun_eq_iff)
  moreover have "wq s' = wq s" using suspend_fields [OF sp] by (intro wq_cong) auto
  ultimately show ?thesis using inv suspend_inv [OF sp] suspend_fields [OF sp] by (simp add: wait_inv_def)
qed

lemma dispatch_wait_inv:
  assumes inv: "wait_inv s" and n: "current s = None"
  shows "wait_inv (run_tasks_round s)"
proof (cases "ready_queue s")
  case Nil
  then have "run_tasks_round s = s" by (simp add: sched_defs)
  with inv show ?thesis by simp
next
  case (Cons t q)
  then have "status_of s t = Ready" using inv by (auto simp: wait_inv_def sched_inv_def)
  then have "waits_ok ((status_of s)(t := Running)) (next_tcb s) (where_is s) (wq s)"
    using inv by (intro waits_running) (simp_all add: wait_inv_def)
  moreover have "status_of (run_tasks_round s) = (status_of s)(t := Running)"
    by (auto simp: dispatch_eq [OF Cons] fun_eq_iff)
  moreover have "wq (run_tasks_round s) = wq s" by (intro wq_cong dispatch_fields)
  ultimately show ?thesis using inv dispatch_inv [OF n] by (simp add: wait_inv_def dispatch_fields)
qed

lemma cv_wait_inv:
  assumes inv: "wait_inv s" and t: "current s = Some t"
    and w: "wait_with_mutex (condvars s c) (mutexes s m) s = Inr (ci, mi, s')"
  shows "wait_inv (arrive t (Waiting (Condvar_At c) (Some m))
      (s'\<lparr>mutexes := (mutexes s')(m := mi), condvars := (condvars s')(c := ci), holding := h\<rparr>))"
proof -
  obtain s1 t' where u: "MutexBlocking_unlock (mutexes s m) s = Inr (mi, s1)" and t': "current s1 = Some t'"
    and b: "block_current_and_run_next s1 = Inr s'"
    and ci: "ci = (condvars s c)\<lparr>cv_wait_queue := cv_wait_queue (condvars s c) @ [t']\<rparr>"
    by (rule cv_waitE [OF w]) blast
  note uf = unlock_fields [OF u] and bf = block_fields [OF b]
  from t t' uf(9) have [simp]: "t' = t" by simp
  let ?s1 = "s1\<lparr>mutexes := (mutexes s1)(m := mi)\<rparr>" and ?s' = "s'\<lparr>mutexes := (mutexes s')(m := mi)\<rparr>"
  have i1: "wait_inv ?s1" by (rule unlock_wait_inv [OF inv u]) (simp_all add: uf)
  have b1: "block_current_and_run_next ?s1 = Inr ?s'"
    using b t' by (auto simp: sched_defs Let_def result_simps)
  have t1: "current ?s1 = Some t" using t' by simp
  show ?thesis
    by (rule wait_inv_block [OF i1 t1 b1])
      (use bf uf ci in \<open>auto simp: wq_simps split: wait_object.split\<close>)
qed

lemma up_wait_inv:
  assumes inv: "wait_inv s" and u: "Semaphore_up (semaphores s k) s = (si, s')"
  shows "wait_inv (s'\<lparr>semaphores := (semaphores s')(k := si), ups := f\<rparr>)"
proof (cases "sint (sem_count (semaphores s k) + 1) \<le> 0 \<and> sem_wait_queue (semaphores s k) \<noteq> []")
  case True
  then obtain w q where wq: "sem_wait_queue (semaphores s k) = w # q" by (cases "sem_wait_queue (semaphores s k)") auto
  with semaphore_upD(2) [OF u _ wq] True have si: "sem_wait_queue si = q" "s' = wakeup_task w s" by auto
  have w: "wq s (Semaphore_At k) = w # q" using wq by (simp add: wq_def)
  show ?thesis by (rule wait_inv_wake [OF inv w]) (use si in \<open>auto simp: wq_simps split: wait_object.split\<close>)
next
  case False
  with semaphore_upD(3) [OF u] have si: "sem_wait_queue si = sem_wait_queue (semaphores s k)" "s' = s" by auto
  then have "wq (s'\<lparr>semaphores := (semaphores s')(k := si), ups := f\<rparr>) = wq s"
    by (auto simp: wq_simps split: wait_object.split)
  with inv si show ?thesis by (simp add: wait_inv_def sched_inv_cong [of "s\<lparr>semaphores := x, ups := y\<rparr>" s for x y])
qed

lemma signal_wait_inv:
  assumes inv: "wait_inv s" and g: "Condvar_signal (condvars s c) s = (ci, s')"
  shows "wait_inv (s'\<lparr>condvars := (condvars s')(c := ci)\<rparr>)"
proof (cases "cv_wait_queue (condvars s c)")
  case Nil
  with g have si: "ci = condvars s c" "s' = s" by (auto simp: Condvar_signal_def)
  with inv show ?thesis by simp
next
  case (Cons w q)
  with g have si: "ci = (condvars s c)\<lparr>cv_wait_queue := q\<rparr>" "s' = wakeup_task w s" by (auto simp: Condvar_signal_def)
  have w: "wq s (Condvar_At c) = w # q" using Cons by (simp add: wq_def)
  show ?thesis by (rule wait_inv_wake [OF inv w]) (use si in \<open>auto simp: wq_simps split: wait_object.split\<close>)
qed

lemma sync_step_wait_inv: "sync_step s s' \<Longrightarrow> wait_inv s \<Longrightarrow> wait_inv s'"
proof (induction rule: sync_step.induct)
  case (lock_now s t m mi s')
  note d = lock_nowD [OF lock_now(4,3)]
  show ?case by (rule wait_inv_go_on [OF lock_now(5,1)]) (use d in \<open>auto simp: wq_simps split: wait_object.split\<close>)
next
  case (lock_wait s t m mi s')
  from lock_waitD [OF lock_wait(4,3,1)] have mi: "mi = (mutexes s m)\<lparr>mb_wait_queue := mb_wait_queue (mutexes s m) @ [t]\<rparr>"
    and b: "block_current_and_run_next s = Inr s'" by auto
  show ?case
    by (rule wait_inv_block [OF lock_wait(5,1) b])
      (use mi block_fields [OF b] in \<open>auto simp: wq_simps split: wait_object.split\<close>)
next
  case (lock_return s t m)
  show ?case by (rule wait_inv_go_on [OF lock_return(3,1)]) (auto simp: wq_simps split: wait_object.split)
next
  case (unlock s t m mi s')
  show ?case by (rule unlock_wait_inv [OF unlock(5,4)]) (simp_all add: unlock_fields [OF unlock(4)])
next
  case (down_now s t k si s')
  note d = semaphore_downD(1) [OF down_now(3,1,4)]
  show ?case by (rule wait_inv_go_on [OF down_now(5,1), where p = "where_is s t"])
      (use d in \<open>auto simp: wq_simps split: wait_object.split\<close>)
next
  case (down_wait s t k si s')
  from semaphore_downD(2) [OF down_wait(3,1,4)] have b: "block_current_and_run_next s = Inr s'"
    and si: "si = (semaphores s k)\<lparr>sem_count := sem_count (semaphores s k) - 1,
       sem_wait_queue := sem_wait_queue (semaphores s k) @ [t]\<rparr>" by auto
  show ?case
    by (rule wait_inv_block [OF down_wait(5,1) b])
      (use si block_fields [OF b] in \<open>auto simp: wq_simps split: wait_object.split\<close>)
next
  case (down_return s t k)
  show ?case by (rule wait_inv_go_on [OF down_return(3,1)]) (auto simp: wq_simps split: wait_object.split)
next
  case (up s t k si s')
  show ?case by (rule up_wait_inv [OF up(5,4)])
next
  case (cv_wait s t m c ci mi s')
  show ?case by (rule cv_wait_inv [OF cv_wait(5,1,4)])
next
  case (cv_signal s t c ci s')
  show ?case by (rule signal_wait_inv [OF cv_signal(4,3)])
next
  case (sleep s t s' ms)
  show ?case
    by (rule wait_inv_block [OF sleep(4,1,3)])
      (use block_fields [OF sleep(3)] in \<open>auto simp: wq_simps add_timer_def heap_push_def split: wait_object.split\<close>)
next
  case (sleep_return s t)
  show ?case by (rule wait_inv_go_on [OF sleep_return(3,1)]) (auto simp: wq_simps split: wait_object.split)
next
  case (tick tk s tms s')
  show ?case by (rule tick_fields [OF tick(2,1)])
next
  case (suspend s s')
  show ?case by (rule suspend_wait_inv [OF suspend(2,1)])
next
  case (compute s c)
  then show ?case by (simp add: wait_inv_def wq_cong [of "s\<lparr>cpu := c\<rparr>" s] sched_inv_cong [of "s\<lparr>cpu := c\<rparr>" s])
next
  case (dispatch s)
  show ?case by (rule dispatch_wait_inv [OF dispatch(2,1)])
qed

section \<open>Mutual exclusion\<close>

text \<open>
  The owners of a mutex: the tasks that hold it, and the task it was handed to that has not run
  yet.
\<close>

definition at_mutex :: "position \<Rightarrow> nat \<Rightarrow> bool" where
  "at_mutex p m \<longleftrightarrow> (\<exists>r. p = Waiting (Mutex_At m) r)"

lemma at_mutex_simps [simp]:
  "at_mutex (Waiting (Mutex_At m') r) m \<longleftrightarrow> m' = m" "\<not> at_mutex Outside m"
  "\<not> at_mutex (Waiting (Semaphore_At k) r) m" "\<not> at_mutex (Waiting (Condvar_At c) r) m"
  "\<not> at_mutex (Waiting Timer_At r) m"
  by (auto simp: at_mutex_def)

definition owners :: "sync_sys \<Rightarrow> nat \<Rightarrow> task set" where
  "owners s m = {t. (t, m) \<in> holding s \<or> at_mutex (where_is s t) m \<and> t \<notin> set (mb_wait_queue (mutexes s m))}"

definition mutex_ok :: "sync_sys \<Rightarrow> nat \<Rightarrow> bool" where
  "mutex_ok s m \<longleftrightarrow> (if mb_locked (mutexes s m) then \<exists>t. owners s m = {t}
                     else owners s m = {} \<and> mb_wait_queue (mutexes s m) = [])"

lemma mutex_ok_frame:
  assumes "mutex_ok s m" and "mutexes s' m = mutexes s m" and "\<And>t. (t, m) \<in> holding s' \<longleftrightarrow> (t, m) \<in> holding s"
    and "\<And>t. at_mutex (where_is s' t) m \<longleftrightarrow> at_mutex (where_is s t) m"
  shows "mutex_ok s' m"
proof -
  have "owners s' m = owners s m" using assms(2-4) by (simp add: owners_def)
  with assms(1,2) show ?thesis by (simp add: mutex_ok_def)
qed

lemma queue_at_mutex:
  "wait_inv s \<Longrightarrow> t \<in> set (mb_wait_queue (mutexes s m)) \<Longrightarrow> at_mutex (where_is s t) m \<and> status_of s t = Blocked"
  using waits_okD [of "status_of s" "next_tcb s" "where_is s" "wq s" t "Mutex_At m"]
  by (simp add: wait_inv_def wq_def at_mutex_def)

lemma current_not_queued:
  "wait_inv s \<Longrightarrow> current s = Some t \<Longrightarrow> t \<notin> set (mb_wait_queue (mutexes s m))"
  using queue_at_mutex [of s t m] current_running [of s t] by auto

text \<open>Giving the mutex back: its holder leaves, the first waiter becomes the owner.\<close>

lemma unlock_mutex_ok:
  assumes inv: "wait_inv s" and ok: "mutex_ok s m" and h: "(t, m) \<in> holding s"
    and u: "MutexBlocking_unlock (mutexes s m) s = Inr (mi, s1)"
    and out: "\<not> at_mutex (where_is s t) m"
    and s': "mutexes s' m = mi" "\<And>u. (u, m) \<in> holding s' \<longleftrightarrow> (u, m) \<in> holding s \<and> u \<noteq> t"
      "\<And>u. at_mutex (where_is s' u) m \<longleftrightarrow> at_mutex (where_is s u) m"
  shows "mutex_ok s' m"
proof -
  from unlockD(1) [OF u] ok obtain x where "owners s m = {x}" by (auto simp: mutex_ok_def)
  moreover have "t \<in> owners s m" using h by (simp add: owners_def)
  ultimately have own: "owners s m = {t}" by simp
  then have hold: "\<And>u. (u, m) \<in> holding s \<Longrightarrow> u = t"
    and at: "\<And>u. at_mutex (where_is s u) m \<Longrightarrow> u \<notin> set (mb_wait_queue (mutexes s m)) \<Longrightarrow> u = t"
    by (auto simp: owners_def)
  show ?thesis
  proof (cases "mb_wait_queue (mutexes s m)")
    case Nil
    with unlockD(2) [OF u Nil] have "mi = (mutexes s m)\<lparr>mb_locked := False\<rparr>" by simp
    with Nil s' hold at out show ?thesis by (auto simp: mutex_ok_def owners_def)
  next
    case (Cons w q)
    with unlockD(3) [OF u Cons] have mi: "mi = (mutexes s m)\<lparr>mb_wait_queue := q\<rparr>" by simp
    have "at_mutex (where_is s w) m" using queue_at_mutex [OF inv, of w m] Cons by simp
    moreover have "w \<notin> set q" using inv Cons by (force simp: wait_inv_def waits_ok_def wq_def
          dest!: spec [of _ "Mutex_At m"])
    ultimately have "owners s' m = {w}" using s' mi hold at out Cons by (auto simp: owners_def)
    with s'(1) mi unlockD(1) [OF u] show ?thesis by (simp add: mutex_ok_def)
  qed
qed

lemma sync_step_mutex_ok:
  assumes "sync_step s s'" and "wait_inv s" and "\<And>m. mutex_ok s m"
  shows "mutex_ok s' n"
  using assms
proof (induction rule: sync_step.induct)
  case (lock_now s t m mi s')
  note d = lock_nowD [OF lock_now(4,3)]
  have e: "owners s m = {}" using lock_now(6) [of m] lock_now(3) by (simp add: mutex_ok_def)
  show ?case
  proof (cases "n = m")
    case True
    have "owners (arrive t Outside (s'\<lparr>mutexes := (mutexes s')(m := mi), holding := insert (t, m) (holding s')\<rparr>)) m = {t}"
      using e d by (auto simp: owners_def arrive_def)
    with True d show ?thesis by (simp add: mutex_ok_def arrive_def)
  next
    case False
    show ?thesis by (rule mutex_ok_frame [OF lock_now(6)]) (use d False lock_now(2) in \<open>auto simp: arrive_def\<close>)
  qed
next
  case (lock_wait s t m mi s')
  from lock_waitD [OF lock_wait(4,3,1)] have mi: "mi = (mutexes s m)\<lparr>mb_wait_queue := mb_wait_queue (mutexes s m) @ [t]\<rparr>"
    and b: "block_current_and_run_next s = Inr s'" by auto
  note f = block_fields [OF b]
  let ?s' = "arrive t (Waiting (Mutex_At m) None) (s'\<lparr>mutexes := (mutexes s')(m := mi)\<rparr>)"
  have "\<not> at_mutex (where_is s t) n" using lock_wait(2) by auto
  then have "owners ?s' n = owners s n" using mi f by (auto simp: owners_def arrive_def)
  with mi f lock_wait(3) lock_wait(6) [of n] show ?case by (auto simp: mutex_ok_def arrive_def)
next
  case (lock_return s t m)
  have "owners (arrive t Outside (s\<lparr>holding := insert (t, m) (holding s)\<rparr>)) n = owners s n"
    using lock_return(2) current_not_queued [OF lock_return(3,1)] by (auto simp: owners_def arrive_def)
  with lock_return(4) [of n] show ?case by (simp add: mutex_ok_def arrive_def)
next
  case (unlock s t m mi s')
  note f = unlock_fields [OF unlock(4)]
  show ?case
  proof (cases "n = m")
    case True
    show ?thesis unfolding True
      by (rule unlock_mutex_ok [OF unlock(5,6,3,4)]) (auto simp: f unlock(2))
  next
    case False
    show ?thesis by (rule mutex_ok_frame [OF unlock(6)]) (auto simp: f False)
  qed
next
  case (down_now s t k si s')
  note d = semaphore_downD(1) [OF down_now(3,1,4)]
  show ?case by (rule mutex_ok_frame [OF down_now(6)]) (auto simp: d)
next
  case (down_wait s t k si s')
  from semaphore_downD(2) [OF down_wait(3,1,4)] have b: "block_current_and_run_next s = Inr s'" by auto
  show ?case by (rule mutex_ok_frame [OF down_wait(6)]) (auto simp: block_fields [OF b] arrive_def down_wait(2))
next
  case (down_return s t k)
  show ?case by (rule mutex_ok_frame [OF down_return(4)]) (auto simp: arrive_def down_return(2))
next
  case (up s t k si s')
  then have "s' = s \<or> (\<exists>w. s' = wakeup_task w s)"
    by (auto simp: Semaphore_up_def Let_def split: if_splits list.splits)
  then show ?case by (intro mutex_ok_frame [OF up(6)]) auto
next
  case (cv_wait s t m c ci mi s')
  obtain s1 where u: "MutexBlocking_unlock (mutexes s m) s = Inr (mi, s1)"
    and b: "block_current_and_run_next s1 = Inr s'" by (rule cv_waitE [OF cv_wait(4)]) blast
  note f = unlock_fields [OF u] block_fields [OF b]
  show ?case
  proof (cases "n = m")
    case True
    show ?thesis unfolding True
      by (rule unlock_mutex_ok [OF cv_wait(5,6,3) u]) (auto simp: f arrive_def cv_wait(2))
  next
    case False
    show ?thesis by (rule mutex_ok_frame [OF cv_wait(6)]) (auto simp: f False arrive_def cv_wait(2))
  qed
next
  case (cv_signal s t c ci s')
  then have "s' = s \<or> (\<exists>w. s' = wakeup_task w s)" by (auto simp: Condvar_signal_def split: list.splits)
  then show ?case by (intro mutex_ok_frame [OF cv_signal(5)]) auto
next
  case (sleep s t s' ms)
  show ?case by (rule mutex_ok_frame [OF sleep(5)]) (auto simp: block_fields [OF sleep(3)] arrive_def sleep(2))
next
  case (sleep_return s t)
  show ?case by (rule mutex_ok_frame [OF sleep_return(4)]) (auto simp: arrive_def sleep_return(2))
next
  case (tick tk s tms s')
  show ?case by (rule mutex_ok_frame [OF tick(3)]) (use tick_fields(2) [OF tick(2,1)] in auto)
next
  case (suspend s s')
  show ?case by (rule mutex_ok_frame [OF suspend(3)]) (auto simp: suspend_fields [OF suspend(1)])
next
  case (compute s c)
  show ?case by (rule mutex_ok_frame [OF compute(2)]) auto
next
  case (dispatch s)
  show ?case by (rule mutex_ok_frame [OF dispatch(3)]) (auto simp: dispatch_fields)
qed

section \<open>Counting semaphores\<close>

definition at_sem :: "position \<Rightarrow> nat \<Rightarrow> bool" where
  "at_sem p k \<longleftrightarrow> (\<exists>r. p = Waiting (Semaphore_At k) r)"

lemma at_sem_simps [simp]:
  "at_sem (Waiting (Semaphore_At k') r) k \<longleftrightarrow> k' = k" "\<not> at_sem Outside k"
  "\<not> at_sem (Waiting (Mutex_At m) r) k" "\<not> at_sem (Waiting (Condvar_At c) r) k"
  "\<not> at_sem (Waiting Timer_At r) k"
  by (auto simp: at_sem_def)

definition pending :: "sync_sys \<Rightarrow> nat \<Rightarrow> task set" where
  "pending s k = {t. t < next_tcb s \<and> at_sem (where_is s t) k}"

text \<open>
  The count is the number of permits minus the calls of \<open>down\<close>, returned or not, and the queue is
  as long as the count is negative.
\<close>

definition sem_ok :: "(nat \<Rightarrow> nat) \<Rightarrow> sync_sys \<Rightarrow> nat \<Rightarrow> bool" where
  "sem_ok R s k \<longleftrightarrow> sint (sem_count (semaphores s k)) = int (R k + ups s k) - int (downs s k + card (pending s k))
     \<and> int (length (sem_wait_queue (semaphores s k))) = max 0 (- sint (sem_count (semaphores s k)))
     \<and> ups s k \<le> 2 ^ 62 \<and> R k < 2 ^ 62 \<and> next_tcb s \<le> 2 ^ 32"

lemma sem_ok_frame:
  assumes "sem_ok R s k" and "semaphores s' k = semaphores s k" and "ups s' k = ups s k" and "downs s' k = downs s k"
    and "next_tcb s' = next_tcb s" and "\<And>t. at_sem (where_is s' t) k \<longleftrightarrow> at_sem (where_is s t) k"
  shows "sem_ok R s' k"
proof -
  have "pending s' k = pending s k" using assms(5,6) by (simp add: pending_def)
  with assms show ?thesis by (simp add: sem_ok_def)
qed

lemma sint_incr: "sint (c :: 64 word) < 2 ^ 63 - 1 \<Longrightarrow> sint (c + 1) = sint c + 1"
  using sint_ge [of c] by (simp add: sint_word_ariths signed_take_bit_int_eq_self)

lemma sint_decr: "- (2 ^ 63) < sint (c :: 64 word) \<Longrightarrow> sint (c - 1) = sint c - 1"
  using sint_lt [of c] by (simp add: sint_word_ariths signed_take_bit_int_eq_self)

lemma finite_pending [simp]: "finite (pending s k)" by (simp add: pending_def)

lemma pending_le: "card (pending s k) \<le> next_tcb s"
  using card_mono [of "{..<next_tcb s}" "pending s k"] by (auto simp: pending_def)

lemma sem_count_range:
  assumes inv: "wait_inv s" and ok: "sem_ok R s k"
  shows "- (2 ^ 32) \<le> sint (sem_count (semaphores s k))" and "sint (sem_count (semaphores s k)) \<le> 2 ^ 62 + 2 ^ 62"
proof -
  have w: "waits_ok (status_of s) (next_tcb s) (where_is s) (wq s)" using inv by (simp add: wait_inv_def)
  let ?q = "sem_wait_queue (semaphores s k)"
  have "set ?q \<subseteq> pending s k" "distinct ?q"
    using waits_okD [OF w, of _ "Semaphore_At k"] w
    by (auto simp: pending_def at_sem_def wq_def waits_ok_def dest!: spec [of _ "Semaphore_At k"])
  then have "length ?q \<le> card (pending s k)" by (metis card_mono distinct_card finite_pending)
  also have "\<dots> \<le> 2 ^ 32" using pending_le [of s k] ok by (simp add: sem_ok_def)
  finally have "int (length ?q) \<le> 2 ^ 32" by simp
  with ok show "- (2 ^ 32) \<le> sint (sem_count (semaphores s k))" by (auto simp: sem_ok_def)
  have "int (R k + ups s k) \<le> 2 ^ 62 + 2 ^ 62" using ok by (simp add: sem_ok_def)
  moreover have "sint (sem_count (semaphores s k)) = int (R k + ups s k) - int (downs s k + card (pending s k))"
    using ok by (simp add: sem_ok_def)
  ultimately show "sint (sem_count (semaphores s k)) \<le> 2 ^ 62 + 2 ^ 62" by linarith
qed

lemma up_sem_ok:
  assumes inv: "wait_inv s" and ok: "sem_ok R s k" and lt: "ups s k < 2 ^ 62"
    and u: "Semaphore_up (semaphores s k) s = (si, s1)"
    and s': "semaphores s' k = si" "ups s' k = Suc (ups s k)" "downs s' k = downs s k" "next_tcb s' = next_tcb s"
      "where_is s' = where_is s"
  shows "sem_ok R s' k"
proof -
  let ?c = "sem_count (semaphores s k)" and ?q = "sem_wait_queue (semaphores s k)"
  have range: "sint ?c < 2 ^ 63 - 1"
  proof -
    have "int (R k + ups s k) < 2 ^ 63 - 1" using ok lt by (simp add: sem_ok_def)
    then show ?thesis using ok by (simp add: sem_ok_def)
  qed
  note c = sint_incr [OF range] and up = semaphore_upD [OF u]
  have pend: "pending s' k = pending s k" using s'(4,5) by (simp add: pending_def)
  have len: "int (length (sem_wait_queue si)) = max 0 (- sint (sem_count si))"
  proof (cases "sint (?c + 1) \<le> 0 \<and> ?q \<noteq> []")
    case True
    then obtain w q where q: "?q = w # q" by (cases ?q) auto
    from up(2) [OF _ q] True have "sem_wait_queue si = q" by simp
    with True q up(1) c ok show ?thesis by (simp add: sem_ok_def)
  next
    case False
    with up(3) have "sem_wait_queue si = ?q" by blast
    with False up(1) c ok show ?thesis by (auto simp: sem_ok_def)
  qed
  with ok up(1) c s' pend lt show ?thesis by (simp add: sem_ok_def)
qed

lemma sync_step_sem_ok:
  assumes "sync_step s s'" and "wait_inv s" and "\<And>k. sem_ok R s k"
  shows "sem_ok R s' n"
  using assms
proof (induction rule: sync_step.induct)
  case (lock_now s t m mi s')
  note d = lock_nowD [OF lock_now(4,3)]
  show ?case by (rule sem_ok_frame [OF lock_now(6)]) (use d lock_now(2) in \<open>auto simp: arrive_def\<close>)
next
  case (lock_wait s t m mi s')
  from lock_waitD [OF lock_wait(4,3,1)] have b: "block_current_and_run_next s = Inr s'" by auto
  show ?case by (rule sem_ok_frame [OF lock_wait(6)])
      (use block_fields [OF b] lock_wait(2) in \<open>auto simp: arrive_def\<close>)
next
  case (lock_return s t m)
  show ?case by (rule sem_ok_frame [OF lock_return(4)]) (use lock_return(2) in \<open>auto simp: arrive_def\<close>)
next
  case (unlock s t m mi s')
  show ?case by (rule sem_ok_frame [OF unlock(6)]) (auto simp: unlock_fields [OF unlock(4)])
next
  case (down_now s t k si s')
  note d = semaphore_downD(1) [OF down_now(3,1,4)]
  show ?case
  proof (cases "n = k")
    case True
    have c: "sint (sem_count (semaphores s k) - 1) = sint (sem_count (semaphores s k)) - 1"
      using sem_count_range(1) [OF down_now(5,6)] by (intro sint_decr) (simp add: less_le_trans [of _ "- (2 ^ 32)"])
    have "pending (s'\<lparr>semaphores := x, downs := y\<rparr>) k = pending s k" for x y using d by (simp add: pending_def)
    with True d c down_now(6) [of k] show ?thesis by (auto simp: sem_ok_def)
  next
    case False
    show ?thesis by (rule sem_ok_frame [OF down_now(6)]) (use d False in auto)
  qed
next
  case (down_wait s t k si s')
  note d = semaphore_downD(2) [OF down_wait(3,1,4)]
  then have b: "block_current_and_run_next s = Inr s'" by auto
  note f = block_fields [OF b]
  let ?s' = "arrive t (Waiting (Semaphore_At k) None) (s'\<lparr>semaphores := (semaphores s')(k := si)\<rparr>)"
  show ?case
  proof (cases "n = k")
    case True
    have c: "sint (sem_count (semaphores s k) - 1) = sint (sem_count (semaphores s k)) - 1"
      using sem_count_range(1) [OF down_wait(5,6)] by (intro sint_decr) (simp add: less_le_trans [of _ "- (2 ^ 32)"])
    have "t < next_tcb s" using current_running [OF down_wait(5,1)] by simp
    then have "pending ?s' k = insert t (pending s k)" "t \<notin> pending s k"
      using f down_wait(2) by (auto simp: pending_def arrive_def)
    then have "card (pending ?s' k) = Suc (card (pending s k))" by simp
    with True d c f down_wait(6) [of k] show ?thesis by (auto simp: sem_ok_def arrive_def)
  next
    case False
    show ?thesis by (rule sem_ok_frame [OF down_wait(6)]) (use f False down_wait(2) in \<open>auto simp: arrive_def\<close>)
  qed
next
  case (down_return s t k)
  let ?s' = "arrive t Outside (s\<lparr>downs := (downs s)(k := Suc (downs s k))\<rparr>)"
  show ?case
  proof (cases "n = k")
    case True
    have "t < next_tcb s" using current_running [OF down_return(3,1)] by simp
    then have "t \<in> pending s k" "pending ?s' k = pending s k - {t}"
      using down_return(2) by (auto simp: pending_def arrive_def)
    then have "card (pending s k) = Suc (card (pending ?s' k))"
      using card.remove [OF finite_pending, of t s k] by simp
    with True down_return(4) [of k] show ?thesis by (auto simp: sem_ok_def arrive_def)
  next
    case False
    show ?thesis by (rule sem_ok_frame [OF down_return(4)]) (use False down_return(2) in \<open>auto simp: arrive_def\<close>)
  qed
next
  case (up s t k si s')
  then have w: "s' = s \<or> (\<exists>w. s' = wakeup_task w s)"
    by (auto simp: Semaphore_up_def Let_def split: if_splits list.splits)
  show ?case
  proof (cases "n = k")
    case True
    show ?thesis unfolding True by (rule up_sem_ok [OF up(5,6,3,4)]) (use w in auto)
  next
    case False
    show ?thesis by (rule sem_ok_frame [OF up(6)]) (use w False in auto)
  qed
next
  case (cv_wait s t m c ci mi s')
  obtain s1 where u: "MutexBlocking_unlock (mutexes s m) s = Inr (mi, s1)"
    and b: "block_current_and_run_next s1 = Inr s'" by (rule cv_waitE [OF cv_wait(4)]) blast
  show ?case by (rule sem_ok_frame [OF cv_wait(6)])
      (use unlock_fields [OF u] block_fields [OF b] cv_wait(2) in \<open>auto simp: arrive_def\<close>)
next
  case (cv_signal s t c ci s')
  then have "s' = s \<or> (\<exists>w. s' = wakeup_task w s)" by (auto simp: Condvar_signal_def split: list.splits)
  then show ?case by (intro sem_ok_frame [OF cv_signal(5)]) auto
next
  case (sleep s t s' ms)
  show ?case by (rule sem_ok_frame [OF sleep(5)]) (use sleep(2) in \<open>auto simp: block_fields [OF sleep(3)] arrive_def\<close>)
next
  case (sleep_return s t)
  show ?case by (rule sem_ok_frame [OF sleep_return(4)]) (use sleep_return(2) in \<open>auto simp: arrive_def\<close>)
next
  case (tick tk s tms s')
  show ?case by (rule sem_ok_frame [OF tick(3)]) (use tick_fields(2) [OF tick(2,1)] in auto)
next
  case (suspend s s')
  show ?case by (rule sem_ok_frame [OF suspend(3)]) (auto simp: suspend_fields [OF suspend(1)])
next
  case (compute s c)
  show ?case by (rule sem_ok_frame [OF compute(2)]) auto
next
  case (dispatch s)
  show ?case by (rule sem_ok_frame [OF dispatch(3)]) (auto simp: dispatch_fields)
qed

section \<open>Reachable states\<close>

text \<open>Tasks queued and ready, all mutexes free, semaphore \<open>k\<close> with \<open>R k\<close> permits, nobody waiting.\<close>

definition sync_start :: "(nat \<Rightarrow> nat) \<Rightarrow> sync_sys \<Rightarrow> bool" where
  "sync_start R s \<longleftrightarrow> sched_inv s \<and> next_tcb s \<le> 2 ^ 32 \<and> (\<forall>m. mutexes s m = MutexBlocking_new)
     \<and> (\<forall>k. semaphores s k = Semaphore_new (of_nat (R k)) \<and> R k < 2 ^ 62)
     \<and> (\<forall>c. condvars s c = Condvar_new) \<and> timers s = [] \<and> where_is s = (\<lambda>t. Outside)
     \<and> holding s = {} \<and> downs s = (\<lambda>k. 0) \<and> ups s = (\<lambda>k. 0)"

definition sync_inv :: "(nat \<Rightarrow> nat) \<Rightarrow> sync_sys \<Rightarrow> bool" where
  "sync_inv R s \<longleftrightarrow> wait_inv s \<and> (\<forall>m. mutex_ok s m) \<and> (\<forall>k. sem_ok R s k)"

lemma sync_start_inv:
  assumes "sync_start R s"
  shows "sync_inv R s"
proof -
  have "sint (of_nat (R k) :: 64 word) = int (R k)" if "R k < 2 ^ 62" for k
    using that by (simp add: sint_cases unat_of_nat)
  moreover have "wq s = (\<lambda>ob. [])"
    using assms by (auto simp: wq_def fun_eq_iff sync_start_def MutexBlocking_new_def Semaphore_new_def
        Condvar_new_def split: wait_object.split)
  ultimately show ?thesis
    using assms by (simp add: sync_inv_def sync_start_def wait_inv_def waits_ok_def mutex_ok_def owners_def
        MutexBlocking_new_def sem_ok_def Semaphore_new_def pending_def)
qed

lemma sync_steps_inv: "sync_step\<^sup>*\<^sup>* s s' \<Longrightarrow> sync_inv R s \<Longrightarrow> sync_inv R s'"
  by (induction rule: rtranclp_induct)
    (auto simp: sync_inv_def intro: sync_step_wait_inv sync_step_mutex_ok sync_step_sem_ok)

section \<open>Properties\<close>

definition example_sync :: sync_sys where
  "example_sync = \<lparr>tcbs = (\<lambda>t. (example_tcb 0)\<lparr>tcb_status := if t = 0 then Running else Ready\<rparr>), next_tcb = 2,
     ready_queue = [1], current = Some 0, idle_task_cx = zero_init, cpu = zero_init,
     mutexes = (\<lambda>m. MutexBlocking_new), semaphores = (\<lambda>k. Semaphore_new 1), condvars = (\<lambda>c. Condvar_new),
     timers = [], where_is = (\<lambda>t. Outside), holding = {}, downs = (\<lambda>k. 0), ups = (\<lambda>k. 0)\<rparr>"

lemma example_sync_start: "sync_start (\<lambda>k. 1) example_sync"
  by (simp add: sync_start_def example_sync_def sched_inv_def)

text \<open>
  C4. A blocking mutex excludes: however many tasks lock, unlock, wait on condition variables, move
  semaphores, sleep and are preempted, at most one task holds a given mutex at any time; a
  mutex that is held is marked locked, so giving it back never trips the assertion, and a
  mutex that is not marked locked has nobody waiting for it.\<close>

theorem mutex_excludes:
  assumes "sync_start R s0" and "sync_step\<^sup>*\<^sup>* s0 s"
  shows "((t, m) \<in> holding s \<longrightarrow> (u, m) \<in> holding s \<longrightarrow> t = u)
    \<and> ((t, m) \<in> holding s \<longrightarrow> (\<exists>r. MutexBlocking_unlock (mutexes s m) s = Inr r))
    \<and> (\<not> mb_locked (mutexes s m) \<longrightarrow> mb_wait_queue (mutexes s m) = [])"
proof -
  have ok: "mutex_ok s m" using sync_steps_inv [OF assms(2) sync_start_inv [OF assms(1)]] by (simp add: sync_inv_def)
  have own: "t \<in> owners s m" if "(t, m) \<in> holding s" for t using that by (simp add: owners_def)
  have "t = u" if "(t, m) \<in> holding s" "(u, m) \<in> holding s" for t u
    using ok own [OF that(1)] own [OF that(2)] by (auto simp: mutex_ok_def split: if_splits)
  moreover have "mb_locked (mutexes s m)" if "(t, m) \<in> holding s"
    using ok own [OF that] by (auto simp: mutex_ok_def split: if_splits)
  ultimately show ?thesis
    using ok by (auto simp: mutex_ok_def MutexBlocking_unlock_def split: list.split if_splits)
qed

theorem mutex_excludes_witness:
  "\<exists>s. sync_step\<^sup>*\<^sup>* example_sync s \<and> (0, 7) \<in> holding s \<and> (\<forall>u. (u, 7) \<in> holding s \<longrightarrow> u = 0)"
proof -
  let ?s = "arrive 0 Outside (example_sync\<lparr>mutexes := (mutexes example_sync)(7 := MutexBlocking_new\<lparr>mb_locked := True\<rparr>),
      holding := insert (0, 7) (holding example_sync)\<rparr>)"
  have "sync_step example_sync ?s"
    by (rule sync_step.lock_now) (simp_all add: example_sync_def MutexBlocking_new_def MutexBlocking_lock_def)
  then have r: "sync_step\<^sup>*\<^sup>* example_sync ?s" by blast
  have "(0, 7) \<in> holding ?s" by (simp add: arrive_def)
  then have "(u, 7) \<in> holding ?s \<longrightarrow> u = 0" for u
    using mutex_excludes [OF example_sync_start r, of 0 7 u] by auto
  with r show ?thesis by (intro exI [of _ ?s]) (simp add: arrive_def)
qed

text \<open>
  C27. A semaphore admits no more tasks than it has permits: the calls of \<open>down\<close> that have returned
  never outnumber the initial permits plus the calls of \<open>up\<close>; and no task waits while a
  permit is free.\<close>

theorem semaphore_bounds_admissions:
  assumes "sync_start R s0" and "sync_step\<^sup>*\<^sup>* s0 s"
  shows "downs s k \<le> R k + ups s k
    \<and> (sem_wait_queue (semaphores s k) \<noteq> [] \<longrightarrow> sint (sem_count (semaphores s k)) < 0)"
proof -
  have inv: "wait_inv s" and ok: "sem_ok R s k"
    using sync_steps_inv [OF assms(2) sync_start_inv [OF assms(1)]] by (simp_all add: sync_inv_def)
  let ?q = "sem_wait_queue (semaphores s k)"
  have w: "waits_ok (status_of s) (next_tcb s) (where_is s) (wq s)" using inv by (simp add: wait_inv_def)
  have "set ?q \<subseteq> pending s k" "distinct ?q"
    using waits_okD [OF w, of _ "Semaphore_At k"] w
    by (auto simp: pending_def at_sem_def wq_def waits_ok_def dest!: spec [of _ "Semaphore_At k"])
  then have "length ?q \<le> card (pending s k)" by (metis card_mono distinct_card finite_pending)
  with ok have "downs s k \<le> R k + ups s k" by (auto simp: sem_ok_def)
  moreover have "sint (sem_count (semaphores s k)) < 0" if "?q \<noteq> []"
  proof (rule ccontr)
    assume "\<not> sint (sem_count (semaphores s k)) < 0"
    then have "int (length ?q) = 0" using ok by (simp add: sem_ok_def)
    with that show False by simp
  qed
  ultimately show ?thesis by blast
qed

theorem semaphore_bounds_admissions_witness:
  "\<exists>s. sync_step\<^sup>*\<^sup>* example_sync s \<and> downs s 3 = 1 \<and> downs s 3 \<le> 1 + ups s 3"
proof -
  let ?s = "example_sync\<lparr>semaphores := (semaphores example_sync)(3 := \<lparr>sem_count = 0, sem_wait_queue = []\<rparr>),
      downs := (downs example_sync)(3 := Suc (downs example_sync 3))\<rparr>"
  have "sync_step example_sync ?s"
    by (rule sync_step.down_now [where t = 0])
      (simp_all add: example_sync_def Semaphore_new_def Semaphore_down_def)
  then have r: "sync_step\<^sup>*\<^sup>* example_sync ?s" by blast
  from semaphore_bounds_admissions [OF example_sync_start r, of 3] r show ?thesis
    by (intro exI [of _ ?s]) (simp add: example_sync_def)
qed



end
