(* ===== verification/Path.thy ===== *)
theory Path
  imports Kernel_Prelude
begin

text \<open>
  Path resolution, \<open>resolve_path\<close> of \<open>os/src/fs/inode.rs\<close>: the components of the base (for a
  relative path) and of the path itself drive a stack of names, which is then printed as an
  absolute path. Strings are character lists.
\<close>

section \<open>Strings\<close>

text \<open>\<open>str::split\<close>, \<open>[&str]::join\<close>, \<open>str::starts_with\<close>, \<open>str::strip_prefix\<close> and \<open>str::rsplit_once\<close>.\<close>

fun split_on :: "char \<Rightarrow> string \<Rightarrow> string list" where
  "split_on c [] = [[]]"
| "split_on c (x # xs) =
     (if x = c then [] # split_on c xs
      else case split_on c xs of [] \<Rightarrow> [[x]] | y # ys \<Rightarrow> (x # y) # ys)"

fun join :: "string \<Rightarrow> string list \<Rightarrow> string" where
  "join sep [] = []"
| "join sep [x] = x"
| "join sep (x # y # ys) = x @ sep @ join sep (y # ys)"

definition starts_with :: "string \<Rightarrow> string \<Rightarrow> bool" where
  "starts_with s p \<longleftrightarrow> take (length p) s = p"

definition strip_prefix :: "string \<Rightarrow> string \<Rightarrow> string option" where
  "strip_prefix s p = (if starts_with s p then Some (drop (length p) s) else None)"

definition rsplit_once :: "string \<Rightarrow> char \<Rightarrow> (string \<times> string) option" where
  "rsplit_once s c =
     (if c \<in> set s then Some (butlast (rev (dropWhile (\<lambda>x. x \<noteq> c) (rev s))), rev (takeWhile (\<lambda>x. x \<noteq> c) (rev s)))
      else None)"

section \<open>\<open>resolve_path\<close>\<close>

definition path_component :: "string \<Rightarrow> string list \<Rightarrow> string list" where
  "path_component component stack =
     (if component = '''' \<or> component = ''.'' then stack
      else if component = ''..'' then (if stack \<noteq> [] then butlast stack else stack)
      else stack @ [component])"

definition resolve_path :: "string \<Rightarrow> string \<Rightarrow> string" where
  "resolve_path relative base =
     (let is_absolute = starts_with relative ''/'';
          stack = (if \<not> is_absolute then fold path_component (split_on CHR ''/'' base) [] else []);
          stack = fold path_component (split_on CHR ''/'' relative) stack
      in ''/'' @ join ''/'' stack)"

text \<open>\<open>full_path.strip_prefix("/").unwrap_or(&full_path)\<close>, the path handed to the file system.\<close>

definition path_in_fs :: "string \<Rightarrow> string" where
  "path_in_fs full_path = (case strip_prefix full_path ''/'' of Some p \<Rightarrow> p | None \<Rightarrow> full_path)"

section \<open>Facts\<close>

text \<open>A component that names an entry.\<close>

definition comp_ok :: "string \<Rightarrow> bool" where
  "comp_ok c \<longleftrightarrow> c \<noteq> '''' \<and> c \<noteq> ''.'' \<and> c \<noteq> ''..'' \<and> CHR ''/'' \<notin> set c"

lemma split_on_not_Nil [simp]: "split_on c s \<noteq> []"
  by (induction s) (auto split: list.split)

lemma split_on_no_sep: "p \<in> set (split_on c s) \<Longrightarrow> c \<notin> set p"
  by (induction s arbitrary: p) (auto split: list.splits if_splits)

lemma split_on_append_sep: "split_on c (s @ c # t) = split_on c s @ split_on c t"
  by (induction s) (auto split: list.split)

lemma split_on_plain: "c \<notin> set s \<Longrightarrow> split_on c s = [s]"
  by (induction s) auto

lemma split_on_join: "cs \<noteq> [] \<Longrightarrow> list_all (\<lambda>s. c \<notin> set s) cs \<Longrightarrow> split_on c (join [c] cs) = cs"
  by (induction "[c]" cs rule: join.induct) (auto simp: split_on_plain split_on_append_sep)

lemma path_component_ok:
  "list_all comp_ok st \<Longrightarrow> CHR ''/'' \<notin> set c \<Longrightarrow> list_all comp_ok (path_component c st)"
  by (auto simp: path_component_def comp_ok_def list_all_iff dest: in_set_butlastD)

lemma walk_ok:
  "list_all comp_ok st \<Longrightarrow> list_all (\<lambda>s. CHR ''/'' \<notin> set s) cs \<Longrightarrow> list_all comp_ok (fold path_component cs st)"
  by (induction cs arbitrary: st) (auto simp: path_component_ok)

lemma walk_names: "list_all comp_ok cs \<Longrightarrow> fold path_component cs st = st @ cs"
  by (induction cs arbitrary: st) (auto simp: path_component_def comp_ok_def)

lemma split_no_slash: "list_all (\<lambda>s. CHR ''/'' \<notin> set s) (split_on CHR ''/'' p)"
  by (auto simp: list_all_iff dest: split_on_no_sep)

text \<open>Printing a stack of names and walking it again.\<close>

lemma walk_printed:
  assumes "list_all comp_ok st"
  shows "fold path_component (split_on CHR ''/'' (''/'' @ join ''/'' st)) [] = st"
proof (cases "st = []")
  case True
  then show ?thesis by (simp add: path_component_def)
next
  case False
  have "list_all (\<lambda>s. CHR ''/'' \<notin> set s) st" using assms by (auto simp: list_all_iff comp_ok_def)
  with False have "split_on CHR ''/'' (join ''/'' st) = st" by (rule split_on_join)
  then show ?thesis using walk_names [OF assms, of "[]"] by (simp add: path_component_def)
qed

definition path_stack :: "string \<Rightarrow> string \<Rightarrow> string list" where
  "path_stack relative base =
     fold path_component (split_on CHR ''/'' relative)
       (if starts_with relative ''/'' then [] else fold path_component (split_on CHR ''/'' base) [])"

lemma resolve_path_stack: "resolve_path p b = ''/'' @ join ''/'' (path_stack p b)"
  by (simp add: resolve_path_def path_stack_def Let_def)

lemma path_stack_ok: "list_all comp_ok (path_stack p b)"
  by (auto simp: path_stack_def intro!: walk_ok split_no_slash)

lemma starts_with_append: "p \<noteq> '''' \<Longrightarrow> starts_with (p @ q) ''/'' = starts_with p ''/''"
  by (cases p) (auto simp: starts_with_def)

section \<open>Properties\<close>

text \<open>
  C36. \<open>resolve_path\<close> returns a canonical absolute path: a slash and the names of a stack without
  empty, \<open>.\<close> and \<open>..\<close> components, whatever the arguments, so it never leaves the root. It is
  idempotent (resolving its result against any base changes nothing, which is why \<open>sys_chdir\<close>
  may resolve twice), and changing to \<open>p\<close> and then opening the relative path \<open>q\<close> is the same as
  opening \<open>p/q\<close>.\<close>

theorem resolve_path_canonical:
  "(\<exists>st. list_all comp_ok st \<and> resolve_path p b = ''/'' @ join ''/'' st)
   \<and> resolve_path (resolve_path p b) c = resolve_path p b
   \<and> (p \<noteq> '''' \<and> \<not> starts_with q ''/'' \<longrightarrow>
        resolve_path q (resolve_path p b) = resolve_path (p @ ''/'' @ q) b)"
proof (intro conjI impI)
  let ?st = "path_stack p b"
  show "\<exists>st. list_all comp_ok st \<and> resolve_path p b = ''/'' @ join ''/'' st"
    using resolve_path_stack path_stack_ok by blast
  have w: "fold path_component (split_on CHR ''/'' (resolve_path p b)) [] = ?st"
    unfolding resolve_path_stack by (rule walk_printed [OF path_stack_ok])
  have "starts_with (resolve_path p b) ''/''" by (simp add: resolve_path_stack starts_with_def)
  then have "path_stack (resolve_path p b) c = ?st" by (simp add: path_stack_def w)
  then show "resolve_path (resolve_path p b) c = resolve_path p b" by (simp add: resolve_path_stack)
  assume q: "p \<noteq> '''' \<and> \<not> starts_with q ''/''"
  then have "path_stack q (resolve_path p b) = fold path_component (split_on CHR ''/'' q) ?st"
    by (simp add: path_stack_def w)
  also have "\<dots> = path_stack (p @ ''/'' @ q) b"
    using q starts_with_append [of p "''/'' @ q"]
    by (simp add: path_stack_def split_on_append_sep del: append_Cons)
      (simp add: split_on_append_sep)
  finally show "resolve_path q (resolve_path p b) = resolve_path (p @ ''/'' @ q) b"
    by (simp add: resolve_path_stack)
qed

theorem resolve_path_canonical_witness:
  "resolve_path ''x/./y'' (resolve_path ''../b'' ''/home/a'') = ''/home/b/x/y''"
  using resolve_path_canonical [of "''../b''" "''/home/a''" "''/''" "''x/./y''"]
  by (simp add: starts_with_def resolve_path_def path_component_def)

end
