(* ===== verification/Inode.thy ===== *)
theory Inode
  imports Path Vfs Intr_Cell Block_Cache
begin

text \<open>
  The FAT-backed file objects: \<open>os/src/fs/inode.rs\<close>. The \<open>fatfs\<close> crate is not part of the
  sources; the operations the kernel calls on it are the fields of the record \<open>fatfs\<close>, a
  parameter of the definitions, acting on an abstract file-system state. An error of the crate
  is \<open>None\<close> (the kernel never looks at which one). What is assumed of reading, writing and seeking
  a file is stated in \<open>fatfs_file_ok\<close>.
\<close>

section \<open>The \<open>fatfs\<close> interface\<close>

record ('h, 'd, 's) fatfs =
  fatfs_root_dir :: 'd
  fatfs_open_file :: "'d \<Rightarrow> string \<Rightarrow> 's \<Rightarrow> 'h option \<times> 's"
  fatfs_create_file :: "'d \<Rightarrow> string \<Rightarrow> 's \<Rightarrow> 'h option \<times> 's"
  fatfs_open_dir :: "'d \<Rightarrow> string \<Rightarrow> 's \<Rightarrow> 'd option \<times> 's"
  fatfs_create_dir :: "'d \<Rightarrow> string \<Rightarrow> 's \<Rightarrow> 'd option \<times> 's"
  fatfs_remove :: "'d \<Rightarrow> string \<Rightarrow> 's \<Rightarrow> bool \<times> 's"
  fatfs_iter :: "'d \<Rightarrow> 's \<Rightarrow> DirEntry option list \<times> 's"
  fatfs_truncate :: "'h \<Rightarrow> 's \<Rightarrow> bool \<times> 'h \<times> 's"
  fatfs_read :: "'h \<Rightarrow> u8 list \<Rightarrow> 's \<Rightarrow> nat option \<times> u8 list \<times> 'h \<times> 's"
  fatfs_write :: "'h \<Rightarrow> u8 list \<Rightarrow> 's \<Rightarrow> nat option \<times> 'h \<times> 's"
  fatfs_seek :: "SeekFrom \<Rightarrow> 'h \<Rightarrow> 's \<Rightarrow> u64 option \<times> 'h \<times> 's"

section \<open>\<open>OSInode\<close>\<close>

datatype ('h, 'd) FatType = FatFile 'h | FatDir 'd

record ('h, 'd) OSInode =
  oi_readable :: bool
  oi_writable :: bool
  oi_stat :: Stat
  oi_file :: "('h, 'd) FatType"
  is_directory :: bool
  oi_path :: string

definition OSInode_new ::
  "bool \<Rightarrow> bool \<Rightarrow> ('h, 'd) FatType \<Rightarrow> bool \<Rightarrow> string \<Rightarrow> ('h, 'd) OSInode" where
  "OSInode_new readable writable file is_dir path =
     (let mode = (if is_dir then 0x4000 else 0x8000);
          mode = (if readable then mode OR 0x124 else mode);
          mode = (if writable then mode OR 0x92 else mode);
          sz = 0;
          blocks = (sz + 511) div 512
      in \<lparr>oi_readable = readable, oi_writable = writable,
          oi_stat = \<lparr>st_dev = 0, st_ino = 0, st_mode = mode, st_nlink = 1, st_uid = 0, st_gid = 0,
            st_rdev = 0, st_pad = 0, st_size = sz, st_blksize = BLK_SIZE, st_pad2 = 0,
            st_blocks = blocks, st_atime_sec = 0, st_atime_nsec = 0, st_mtime_sec = 0,
            st_mtime_nsec = 0, st_ctime_sec = 0, st_ctime_nsec = 0, st_unused = [0, 0]\<rparr>,
          oi_file = file, is_directory = is_dir, oi_path = path\<rparr>)"

text \<open>
  The loop of \<open>read_all\<close>: the 512-byte buffer is reused; \<open>None\<close> is a loop that never meets the end
  of the file.
\<close>

partial_function (option) read_all_loop ::
  "('h, 'd, 's) fatfs \<Rightarrow> u8 list \<Rightarrow> u8 list \<Rightarrow> 'h \<Rightarrow> 's \<Rightarrow> (u8 list \<times> 'h \<times> 's) result option" where
  "read_all_loop fs buffer v h s =
     (case fatfs_read fs h buffer s of (len, buffer', h', s') \<Rightarrow>
       (case len of
          None \<Rightarrow> Some (Inl Unwrap_None)
        | Some n \<Rightarrow>
           (if n = 0 then Some (Inr (v, h', s'))
            else case slice_at buffer' 0 n of
                   Inl p \<Rightarrow> Some (Inl p)
                 | Inr bs \<Rightarrow> read_all_loop fs buffer' (v @ bs) h' s')))"

definition OSInode_read_all ::
  "('h, 'd, 's) fatfs \<Rightarrow> ('h, 'd) OSInode \<Rightarrow> 's \<Rightarrow> (u8 list \<times> ('h, 'd) OSInode \<times> 's) result option" where
  "OSInode_read_all fs ino s =
     (case oi_file ino of
        FatFile h \<Rightarrow>
          map_option (\<lambda>r. rbind r (\<lambda>(v, h', s'). Inr (v, ino\<lparr>oi_file := FatFile h'\<rparr>, s')))
            (read_all_loop fs (replicate 512 0) [] h s)
      | FatDir _ \<Rightarrow> Some (Inr ([], ino, s)))"

definition OSInode_is_dir :: "('h, 'd) OSInode \<Rightarrow> bool" where
  "OSInode_is_dir ino = (case oi_file ino of FatDir _ \<Rightarrow> True | FatFile _ \<Rightarrow> False)"

section \<open>\<open>OpenFlags\<close>\<close>

definition OpenFlags_RDONLY :: u32 where "OpenFlags_RDONLY = 0"
definition OpenFlags_WRONLY :: u32 where "OpenFlags_WRONLY = push_bit 0 1"
definition OpenFlags_RDWR :: u32 where "OpenFlags_RDWR = push_bit 1 1"
definition OpenFlags_CREATE :: u32 where "OpenFlags_CREATE = push_bit 6 1"
definition OpenFlags_TRUNC :: u32 where "OpenFlags_TRUNC = push_bit 10 1"
definition OpenFlags_NONBLOCK :: u32 where "OpenFlags_NONBLOCK = push_bit 12 1"
definition OpenFlags_CLOEXEC :: u32 where "OpenFlags_CLOEXEC = push_bit 20 1"
definition OpenFlags_DIRECTORY :: u32 where "OpenFlags_DIRECTORY = push_bit 21 1"
definition OpenFlags_DIRECT :: u32 where "OpenFlags_DIRECT = push_bit 24 1"

lemmas OpenFlags_defs = OpenFlags_RDONLY_def OpenFlags_WRONLY_def OpenFlags_RDWR_def
  OpenFlags_CREATE_def OpenFlags_TRUNC_def OpenFlags_NONBLOCK_def OpenFlags_CLOEXEC_def
  OpenFlags_DIRECTORY_def OpenFlags_DIRECT_def

definition OpenFlags_all :: u32 where
  "OpenFlags_all = OpenFlags_RDONLY OR OpenFlags_WRONLY OR OpenFlags_RDWR OR OpenFlags_CREATE
     OR OpenFlags_TRUNC OR OpenFlags_NONBLOCK OR OpenFlags_CLOEXEC OR OpenFlags_DIRECTORY OR OpenFlags_DIRECT"

definition read_write :: "u32 \<Rightarrow> bool \<times> bool" where
  "read_write flags =
     (if bitflags_contains flags OpenFlags_WRONLY then (False, True)
      else if bitflags_contains flags OpenFlags_RDWR then (True, True)
      else (True, False))"

section \<open>The \<open>File\<close> implementation\<close>

definition OSInode_readable :: "('h, 'd) OSInode \<Rightarrow> bool" where
  "OSInode_readable ino = oi_readable ino"

definition OSInode_writable :: "('h, 'd) OSInode \<Rightarrow> bool" where
  "OSInode_writable ino = oi_writable ino"

text \<open>The \<open>for\<close> loops of \<open>read\<close> and \<open>write\<close>; a slice of the user buffer is filled in place.\<close>

primrec inode_read_for ::
  "('h, 'd, 's) fatfs \<Rightarrow> byte_slice list \<Rightarrow> nat \<Rightarrow> ('h, 'd) FatType \<Rightarrow> memory \<Rightarrow> 's
     \<Rightarrow> (nat \<times> ('h, 'd) FatType \<times> memory \<times> 's) result" where
  "inode_read_for fs [] tot f m s = Inr (tot, f, m, s)"
| "inode_read_for fs (sl # slices) tot f m s =
     (case f of
        FatFile h \<Rightarrow>
          (case fatfs_read fs h (slice_bytes m sl) s of (r, bs, h', s') \<Rightarrow>
             rbind (unwrap r) (\<lambda>read_size.
             let m' = write_bytes m (sl_addr sl) bs in
             if read_size < sl_len sl then Inr (tot + read_size, FatFile h', m', s')
             else inode_read_for fs slices (tot + read_size) (FatFile h') m' s'))
      | FatDir d \<Rightarrow> inode_read_for fs slices tot f m s)"

definition OSInode_read ::
  "('h, 'd, 's) fatfs \<Rightarrow> ('h, 'd) OSInode \<Rightarrow> UserBuffer \<Rightarrow> memory \<Rightarrow> 's
     \<Rightarrow> (nat \<times> ('h, 'd) OSInode \<times> memory \<times> 's) result" where
  "OSInode_read fs ino buf m s =
     rbind (inode_read_for fs (buffers buf) 0 (oi_file ino) m s) (\<lambda>(tot, f, m', s').
     Inr (tot, ino\<lparr>oi_file := f\<rparr>, m', s'))"

primrec inode_write_for ::
  "('h, 'd, 's) fatfs \<Rightarrow> byte_slice list \<Rightarrow> nat \<Rightarrow> ('h, 'd) FatType \<Rightarrow> memory \<Rightarrow> 's
     \<Rightarrow> (nat \<times> ('h, 'd) FatType \<times> 's) result" where
  "inode_write_for fs [] tot f m s = Inr (tot, f, s)"
| "inode_write_for fs (sl # slices) tot f m s =
     (case f of
        FatFile h \<Rightarrow>
          (case fatfs_write fs h (slice_bytes m sl) s of (r, h', s') \<Rightarrow>
             rbind (unwrap r) (\<lambda>write_size.
             if write_size < sl_len sl then Inr (tot + write_size, FatFile h', s')
             else inode_write_for fs slices (tot + write_size) (FatFile h') m s'))
      | FatDir d \<Rightarrow> inode_write_for fs slices tot f m s)"

definition update_after_write :: "nat \<Rightarrow> Stat \<Rightarrow> Stat" where
  "update_after_write written st =
     (let sz = st_size st + of_nat written
      in st\<lparr>st_size := sz, st_blocks := (sz + 511) div 512\<rparr>)"

definition OSInode_write ::
  "('h, 'd, 's) fatfs \<Rightarrow> ('h, 'd) OSInode \<Rightarrow> UserBuffer \<Rightarrow> memory \<Rightarrow> 's
     \<Rightarrow> (nat \<times> ('h, 'd) OSInode \<times> 's) result" where
  "OSInode_write fs ino buf m s =
     rbind (inode_write_for fs (buffers buf) 0 (oi_file ino) m s) (\<lambda>(tot, f, s').
     Inr (tot, ino\<lparr>oi_file := f, oi_stat := update_after_write tot (oi_stat ino)\<rparr>, s'))"

definition OSInode_get_stat :: "('h, 'd) OSInode \<Rightarrow> UserStat" where
  "OSInode_get_stat ino =
     (let st = oi_stat ino in
      \<lparr>st_dev = st_dev st, st_ino = st_ino st, st_mode = st_mode st, st_nlink = st_nlink st,
       st_uid = st_uid st, st_gid = st_gid st, st_rdev = st_rdev st, st_pad = st_pad st,
       st_size = st_size st, st_blksize = st_blksize st, st_pad2 = st_pad2 st,
       st_blocks = st_blocks st,
       st_atime_sec = st_atime_sec st, st_atime_nsec = st_atime_nsec st,
       st_mtime_sec = st_mtime_sec st, st_mtime_nsec = st_mtime_nsec st,
       st_ctime_sec = st_atime_sec st, st_ctime_nsec = st_atime_nsec st,
       st_unused = [0, 0]\<rparr>)"

definition OSInode_get_path :: "('h, 'd) OSInode \<Rightarrow> string" where
  "OSInode_get_path ino = oi_path ino"

definition OSInode_read_at ::
  "('h, 'd, 's) fatfs \<Rightarrow> ('h, 'd) OSInode \<Rightarrow> usize \<Rightarrow> u8 list \<Rightarrow> 's
     \<Rightarrow> (isize + nat) \<times> u8 list \<times> ('h, 'd) OSInode \<times> 's" where
  "OSInode_read_at fs ino offset buf s =
     (case oi_file ino of
        FatFile h \<Rightarrow>
          (case fatfs_seek fs (Start offset) h s of (r, h1, s1) \<Rightarrow>
             if r = None then (Inl (- 1), buf, ino\<lparr>oi_file := FatFile h1\<rparr>, s1)
             else case fatfs_read fs h1 buf s1 of (r, buf', h2, s2) \<Rightarrow>
               (case r of None \<Rightarrow> Inl (- 1) | Some n \<Rightarrow> Inr n, buf', ino\<lparr>oi_file := FatFile h2\<rparr>, s2))
      | FatDir _ \<Rightarrow> (Inl (- 1), buf, ino, s))"

text \<open>
  \<open>write_at\<close> borrows the cell of the file (numbered \<open>c\<close>) and borrows it again before it returns
  \<open>Ok\<close>, so the borrow state of the kernel's cells is part of its model.
\<close>

definition OSInode_write_at ::
  "('h, 'd, 's) fatfs \<Rightarrow> nat \<Rightarrow> ('h, 'd) OSInode \<Rightarrow> usize \<Rightarrow> u8 list \<Rightarrow> 's \<Rightarrow> intr_state
     \<Rightarrow> ((isize + nat) \<times> ('h, 'd) OSInode \<times> 's \<times> intr_state) result" where
  "OSInode_write_at fs c ino offset buf s is =
     rbind (exclusive_access c is) (\<lambda>is.
     case oi_file ino of
       FatDir _ \<Rightarrow> Inr (Inl (- 1), ino, s, guard_drop c is)
     | FatFile h \<Rightarrow>
        (case fatfs_seek fs (Start offset) h s of (r, h1, s1) \<Rightarrow>
         if r = None then Inr (Inl (- 1), ino\<lparr>oi_file := FatFile h1\<rparr>, s1, guard_drop c is)
         else case fatfs_write fs h1 buf s1 of (r, h2, s2) \<Rightarrow>
           (case r of
              None \<Rightarrow> Inr (Inl (- 1), ino\<lparr>oi_file := FatFile h2\<rparr>, s2, guard_drop c is)
            | Some n \<Rightarrow>
               (case fatfs_seek fs (End 0) h2 s2 of (r, h3, s3) \<Rightarrow>
                 (case r of
                    None \<Rightarrow> Inr (Inl (- 1), ino\<lparr>oi_file := FatFile h3\<rparr>, s3, guard_drop c is)
                  | Some file_size \<Rightarrow>
                     (let st = (oi_stat ino)\<lparr>st_size := file_size, st_blocks := (file_size + 511) div 512\<rparr>
                      in rbind (exclusive_access c is) (\<lambda>is.
                         let is = guard_drop c is in
                         Inr (Inr n, ino\<lparr>oi_file := FatFile h3, oi_stat := st\<rparr>, s3, guard_drop c is))))))))"

definition list_dir ::
  "('h, 'd, 's) fatfs \<Rightarrow> ('h, 'd) OSInode \<Rightarrow> 's \<Rightarrow> (isize + DirEntry list) \<times> 's" where
  "list_dir fs ino s =
     (if \<not> is_directory ino then (Inl (- 1), s)
      else case oi_file ino of
        FatDir dir \<Rightarrow>
          (case fatfs_iter fs dir s of (entries, s') \<Rightarrow>
             (rfold (\<lambda>e v. case e of None \<Rightarrow> Inl (- 1) | Some d \<Rightarrow> Inr (v @ [d])) entries [], s'))
      | FatFile _ \<Rightarrow> (Inl (- 1), s))"

section \<open>Opening files and directories\<close>

definition current_root_inode :: "('h, 'd, 's) fatfs \<Rightarrow> ('h, 'd) OSInode" where
  "current_root_inode fs = OSInode_new True False (FatDir (fatfs_root_dir fs)) True ''/''"

definition open_initproc :: "('h, 'd, 's) fatfs \<Rightarrow> u32 \<Rightarrow> 's \<Rightarrow> ('h, 'd) OSInode option \<times> 's" where
  "open_initproc fs flags s =
     (case read_write flags of (readable, writable) \<Rightarrow>
      case fatfs_open_file fs (fatfs_root_dir fs) ''initproc'' s of (r, s') \<Rightarrow>
        (map_option (\<lambda>inode. OSInode_new readable writable (FatFile inode) False ''/initproc'') r, s'))"

definition open_file ::
  "('h, 'd, 's) fatfs \<Rightarrow> string \<Rightarrow> string \<Rightarrow> u32 \<Rightarrow> 's \<Rightarrow> (('h, 'd) OSInode option \<times> 's) result" where
  "open_file fs cwd path flags s =
     (case read_write flags of (readable, writable) \<Rightarrow>
      (let full_path = resolve_path path cwd;
           name = path_in_fs full_path;
           root_dir = fatfs_root_dir fs;
           (maybe_inode, s) =
             (if bitflags_contains flags OpenFlags_CREATE then
                (case fatfs_open_file fs root_dir name s of
                   (Some f, s) \<Rightarrow> (Some f, s)
                 | (None, s) \<Rightarrow> fatfs_create_file fs root_dir name s)
              else fatfs_open_file fs root_dir name s)
       in case maybe_inode of
            None \<Rightarrow> Inr (None, s)
          | Some inode \<Rightarrow>
             rbind (if bitflags_contains flags OpenFlags_TRUNC then
                      (case fatfs_truncate fs inode s of (ok, inode, s) \<Rightarrow>
                         if ok then Inr (inode, s) else Inl Explicit_Panic)
                    else Inr (inode, s)) (\<lambda>(inode, s).
             Inr (Some (OSInode_new readable writable (FatFile inode) False full_path), s))))"

definition open_file_at ::
  "('h, 'd, 's) fatfs \<Rightarrow> string \<Rightarrow> string \<Rightarrow> u32 \<Rightarrow> u32 \<Rightarrow> 's \<Rightarrow> ('h, 'd) OSInode option \<times> 's" where
  "open_file_at fs base_dir path flags mode s =
     (let full_path = resolve_path path base_dir in
      if full_path = ''/'' then (Some (current_root_inode fs), s)
      else
        (let root_dir = fatfs_root_dir fs in
         case fatfs_open_dir fs root_dir full_path s of
           (Some dir, s) \<Rightarrow> (Some (OSInode_new True False (FatDir dir) True full_path), s)
         | (None, s) \<Rightarrow>
            (let (file_result, s) =
               (if bitflags_contains flags OpenFlags_CREATE then
                  (case fatfs_create_file fs root_dir full_path s of
                     (Some f, s) \<Rightarrow> (Some f, s)
                   | (None, s) \<Rightarrow> fatfs_open_file fs root_dir full_path s)
                else fatfs_open_file fs root_dir full_path s)
             in (map_option (\<lambda>file. OSInode_new
                   (bitflags_contains flags OpenFlags_RDONLY \<or> bitflags_contains flags OpenFlags_RDWR)
                   (bitflags_contains flags OpenFlags_WRONLY \<or> bitflags_contains flags OpenFlags_RDWR)
                   (FatFile file) False full_path) file_result, s))))"

definition create_dir ::
  "('h, 'd, 's) fatfs \<Rightarrow> string \<Rightarrow> string \<Rightarrow> 's \<Rightarrow> (isize + ('h, 'd) OSInode) \<times> 's" where
  "create_dir fs cwd path s =
     (let full_path = resolve_path path cwd;
          name = path_in_fs full_path;
          (parent_path, dir_name) =
            (case rsplit_once name CHR ''/'' of Some (p, n) \<Rightarrow> (p, n) | None \<Rightarrow> ('''', name))
      in if dir_name = '''' then (Inl (- 1), s)
         else
           (let root_dir = fatfs_root_dir fs;
                (parent_dir, s) =
                  (if parent_path = '''' then (Some root_dir, s) else fatfs_open_dir fs root_dir parent_path s)
            in case parent_dir of
                 None \<Rightarrow> (Inl (- 1), s)
               | Some parent_dir \<Rightarrow>
                  (case fatfs_open_dir fs parent_dir dir_name s of
                     (Some _, s) \<Rightarrow> (Inl (- 1), s)
                   | (None, s) \<Rightarrow>
                      (case fatfs_create_dir fs parent_dir dir_name s of
                         (None, s) \<Rightarrow> (Inl (- 1), s)
                       | (Some dir, s) \<Rightarrow> (Inr (OSInode_new True False (FatDir dir) True full_path), s)))))"

definition open_dir ::
  "('h, 'd, 's) fatfs \<Rightarrow> string \<Rightarrow> string \<Rightarrow> 's \<Rightarrow> (isize + ('h, 'd) OSInode) \<times> 's" where
  "open_dir fs cwd path s =
     (let full_path = resolve_path path cwd in
      case fatfs_open_dir fs (fatfs_root_dir fs) (path_in_fs full_path) s of
        (Some dir, s) \<Rightarrow> (Inr (OSInode_new True False (FatDir dir) True full_path), s)
      | (None, s) \<Rightarrow> (Inl (- 1), s))"

definition get_size :: "('h, 'd, 's) fatfs \<Rightarrow> 'h \<Rightarrow> 's \<Rightarrow> (i64 \<times> 'h \<times> 's) result" where
  "get_size fs h s =
     (case fatfs_seek fs (Current 0) h s of (r, h, s) \<Rightarrow>
      rbind (unwrap r) (\<lambda>cur.
      case fatfs_seek fs (End 0) h s of (r, h, s) \<Rightarrow>
      rbind (unwrap r) (\<lambda>sz.
      case fatfs_seek fs (Start cur) h s of (r, h, s) \<Rightarrow>
      rbind (unwrap r) (\<lambda>_.
      Inr (sz, h, s)))))"


section \<open>What is assumed of \<open>fatfs\<close>\<close>

text \<open>
  An open file is a byte sequence and an offset in it, \<open>view\<close>. A successful read delivers the
  bytes at the offset, possibly fewer than asked for, and none only at the end of the file; a
  successful write replaces or appends a prefix of the bytes given; both move the offset. Seeking
  within the file sets the offset.
\<close>

definition overwrite :: "nat \<Rightarrow> u8 list \<Rightarrow> u8 list \<Rightarrow> u8 list" where
  "overwrite p bs c = take p c @ bs @ drop (p + length bs) c"

type_synonym ('h, 's) file_view = "'h \<Rightarrow> 's \<Rightarrow> (u8 list \<times> nat) option"

definition fatfs_file_ok :: "('h, 'd, 's) fatfs \<Rightarrow> ('h, 's) file_view \<Rightarrow> bool" where
  "fatfs_file_ok fs view \<longleftrightarrow> (\<forall>h s c p. view h s = Some (c, p) \<longrightarrow> p \<le> length c
     \<and> (\<forall>buf n buf' h' s'. fatfs_read fs h buf s = (Some n, buf', h', s') \<longrightarrow>
          n \<le> length buf \<and> n \<le> length c - p \<and> (n = 0 \<longrightarrow> buf = [] \<or> p = length c)
          \<and> buf' = take n (drop p c) @ drop n buf \<and> view h' s' = Some (c, p + n))
     \<and> (\<forall>bs n h' s'. fatfs_write fs h bs s = (Some n, h', s') \<longrightarrow>
          n \<le> length bs \<and> view h' s' = Some (overwrite p (take n bs) c, p + n))
     \<and> (\<forall>off q h' s'. fatfs_seek fs (Start off) h s = (Some q, h', s') \<longrightarrow> unat off \<le> length c \<longrightarrow>
          view h' s' = Some (c, unat off)))"

text \<open>The device answers every read.\<close>

definition fatfs_reads :: "('h, 'd, 's) fatfs \<Rightarrow> ('h, 's) file_view \<Rightarrow> bool" where
  "fatfs_reads fs view \<longleftrightarrow> (\<forall>h s buf. view h s \<noteq> None \<longrightarrow> fst (fatfs_read fs h buf s) \<noteq> None)"

lemma fatfs_file_okD:
  assumes "fatfs_file_ok fs view" and "view h s = Some (c, p)"
  shows "p \<le> length c"
    and "fatfs_read fs h buf s = (Some n, buf', h', s') \<Longrightarrow>
          n \<le> length buf \<and> n \<le> length c - p \<and> (n = 0 \<longrightarrow> buf = [] \<or> p = length c)
          \<and> buf' = take n (drop p c) @ drop n buf \<and> view h' s' = Some (c, p + n)"
    and "fatfs_write fs h bs s = (Some n, h', s') \<Longrightarrow>
          n \<le> length bs \<and> view h' s' = Some (overwrite p (take n bs) c, p + n)"
    and "fatfs_seek fs (Start off) h s = (Some q, h', s') \<Longrightarrow> unat off \<le> length c \<Longrightarrow>
          view h' s' = Some (c, unat off)"
  using assms unfolding fatfs_file_ok_def by blast+

text \<open>One file in memory, for the witnesses: the handle is the offset, the state the contents.\<close>

definition ram_fs :: "(nat, unit, u8 list) fatfs" where
  "ram_fs =
     \<lparr>fatfs_root_dir = (), fatfs_open_file = (\<lambda>d p s. (Some 0, s)), fatfs_create_file = (\<lambda>d p s. (Some 0, [])),
      fatfs_open_dir = (\<lambda>d p s. (None, s)), fatfs_create_dir = (\<lambda>d p s. (None, s)),
      fatfs_remove = (\<lambda>d p s. (False, s)), fatfs_iter = (\<lambda>d s. ([], s)),
      fatfs_truncate = (\<lambda>h s. (True, h, take h s)),
      fatfs_read = (\<lambda>h buf s. let n = min (length buf) (length s - h)
                     in (Some n, take n (drop h s) @ drop n buf, h + n, s)),
      fatfs_write = (\<lambda>h bs s. (Some (length bs), h + length bs, overwrite h bs s)),
      fatfs_seek = (\<lambda>f h s. case f of
          Start off \<Rightarrow> if unat off \<le> length s then (Some off, unat off, s) else (None, h, s)
        | Current d \<Rightarrow> (Some (of_nat h + d), h + unat d, s)
        | End d \<Rightarrow> (Some (of_nat (length s)), length s, s))\<rparr>"

definition ram_view :: "(nat, u8 list) file_view" where
  "ram_view h s = (if h \<le> length s then Some (s, h) else None)"

lemma ram_fs_ok: "fatfs_file_ok ram_fs ram_view"
  by (auto simp: fatfs_file_ok_def ram_fs_def ram_view_def overwrite_def Let_def min_def split: if_splits)

lemma ram_fs_reads: "fatfs_reads ram_fs ram_view"
  by (auto simp: fatfs_reads_def ram_fs_def Let_def)

section \<open>Reading\<close>

lemma overwrite_append:
  assumes "p \<le> length c"
  shows "overwrite (p + length xs) ys (overwrite p xs c) = overwrite p (xs @ ys) c"
  using assms by (simp add: overwrite_def add.commute add.left_commute)

lemma overwrite_Nil [simp]: "overwrite p [] c = c"
  by (simp add: overwrite_def)

lemma length_overwrite: "p \<le> length c \<Longrightarrow> p + length bs \<le> length (overwrite p bs c)"
  by (simp add: overwrite_def)

text \<open>The read loop ends and returns what is left of the file.\<close>

lemma read_all_loop_rest:
  assumes ok: "fatfs_file_ok fs view" "fatfs_reads fs view"
  shows "view h s = Some (c, p) \<Longrightarrow> length buffer = 512 \<Longrightarrow>
     \<exists>h' s'. read_all_loop fs buffer v h s = Some (Inr (v @ drop p c, h', s')) \<and> view h' s' = Some (c, length c)"
proof (induction "length c - p" arbitrary: p v h s buffer rule: less_induct)
  case less
  note d = fatfs_file_okD [OF ok(1) less.prems(1)]
  obtain r buffer' h1 s1 where rd: "fatfs_read fs h buffer s = (r, buffer', h1, s1)"
    by (metis prod_cases4)
  have "fst (fatfs_read fs h buffer s) \<noteq> None" using ok(2) less.prems(1) by (auto simp: fatfs_reads_def)
  then obtain n where r: "r = Some n" using rd by auto
  have n: "n \<le> 512" "n \<le> length c - p" "n = 0 \<longrightarrow> p = length c" "view h1 s1 = Some (c, p + n)"
    "buffer' = take n (drop p c) @ drop n buffer"
    using d(2) [OF rd [unfolded r]] less.prems(2) by auto
  show ?case
  proof (cases "n = 0")
    case True
    have "read_all_loop fs buffer v h s = Some (Inr (v, h1, s1))"
      using True by (subst read_all_loop.simps) (simp add: rd r)
    moreover have "p = length c" using True n(3) by simp
    ultimately show ?thesis using n(4) True by simp
  next
    case False
    have len: "length buffer' = 512" "take n buffer' = take n (drop p c)"
      using n less.prems(2) by auto
    have "read_all_loop fs buffer v h s = read_all_loop fs buffer' (v @ take n (drop p c)) h1 s1"
      using False n(1) len by (subst read_all_loop.simps) (simp add: rd r slice_at_def)
    moreover have "length c - (p + n) < length c - p" using False n(2) by simp
    then obtain h' s' where "read_all_loop fs buffer' (v @ take n (drop p c)) h1 s1
        = Some (Inr ((v @ take n (drop p c)) @ drop (p + n) c, h', s'))" "view h' s' = Some (c, length c)"
      using less.hyps [OF _ n(4) len(1), of "v @ take n (drop p c)"] by blast
    moreover have "take n (drop p c) @ drop (p + n) c = drop p c"
      by (metis append_take_drop_id drop_drop add.commute)
    ultimately show ?thesis by simp
  qed
qed

text \<open>
  The bytes a read loop delivers, in the order of the buffer; bytes of memory not delivered to
  keep their value.
\<close>

lemma inode_read_for_spec:
  assumes ok: "fatfs_file_ok fs view"
  shows "inode_read_for fs sls tot (FatFile h) m s = Inr (t, f, m', s') \<Longrightarrow> view h s = Some (c, p) \<Longrightarrow>
    small_slices sls \<Longrightarrow> distinct (buf_addrs sls) \<Longrightarrow>
    \<exists>n h'. f = FatFile h' \<and> t = tot + n \<and> n \<le> length (buf_addrs sls) \<and> n \<le> length c - p
      \<and> (n = 0 \<longrightarrow> buf_addrs sls = [] \<or> p = length c) \<and> view h' s' = Some (c, p + n)
      \<and> map m' (take n (buf_addrs sls)) = take n (drop p c)
      \<and> (\<forall>a. a \<notin> set (take n (buf_addrs sls)) \<longrightarrow> m' a = m a)"
proof (induction sls arbitrary: tot h m s p)
  case Nil
  then show ?case by auto
next
  case (Cons b sls)
  obtain r bs h1 s1 where rd: "fatfs_read fs h (slice_bytes m b) s = (r, bs, h1, s1)"
    by (metis prod_cases4)
  from Cons.prems(1) rd obtain k where r: "r = Some k" by (auto simp: result_simps)
  note k0 = fatfs_file_okD(2) [OF ok Cons.prems(2) rd [unfolded r]]
  have len: "length (slice_bytes m b) = sl_len b" by (simp add: slice_bytes_addrs)
  have k: "k \<le> sl_len b" "k \<le> length c - p" "k = 0 \<longrightarrow> sl_len b = 0 \<or> p = length c"
    "bs = take k (drop p c) @ drop k (slice_bytes m b)" "view h1 s1 = Some (c, p + k)"
    using k0 len length_0_conv [of "slice_bytes m b"] by auto
  define m1 where "m1 = write_bytes m (sl_addr b) bs"
  have lb: "length bs = sl_len b" "sl_len b \<le> 4096" using k Cons.prems(3) len by (auto simp: small_slices_def)
  note w = write_bytes_slice [of 0 bs b, simplified, OF lb(1) [THEN eq_imp_le] lb(2)]
  have m1b: "map m1 (slice_addrs b) = bs"
    using w(2) lb(1) by (intro nth_equalityI) (simp_all add: m1_def)
  have m1o: "m1 a = m a" if "a \<notin> set (take k (slice_addrs b))" for a
  proof (cases "a \<in> set (slice_addrs b)")
    case True
    then obtain i where i: "i < sl_len b" "a = slice_addrs b ! i" by (auto simp: in_set_conv_nth)
    have "k \<le> i"
    proof (rule ccontr)
      assume "\<not> k \<le> i"
      then have "a = take k (slice_addrs b) ! i" "i < length (take k (slice_addrs b))" using i by simp_all
      with that show False by (metis nth_mem)
    qed
    then have "bs ! i = m a" using k(1,2) i lb len
      by (simp add: k(4) nth_append) (simp add: slice_bytes_addrs)
    moreover have "m1 a = bs ! i" using arg_cong [OF m1b, of "\<lambda>l. l ! i"] i by simp
    ultimately show ?thesis by simp
  qed (use w(1) in \<open>simp add: m1_def\<close>)
  have ba: "buf_addrs (b # sls) = slice_addrs b @ buf_addrs sls" by simp
  have m1k: "map m1 (take k (slice_addrs b)) = take k (drop p c)"
    using m1b k by (simp flip: take_map)
  show ?case
  proof (cases "k < sl_len b")
    case True
    then have "t = tot + k" "f = FatFile h1" "m' = m1" "s' = s1"
      using Cons.prems(1) by (simp_all add: rd r m1_def)
    then show ?thesis using k True m1k m1o unfolding ba by (intro exI [of _ k] exI [of _ h1]) auto
  next
    case False
    then have k': "k = sl_len b" using k(1) by simp
    have rest: "inode_read_for fs sls (tot + k) (FatFile h1) m1 s1 = Inr (t, f, m', s')"
      using Cons.prems(1) False by (simp add: rd r m1_def)
    obtain n h' where n: "f = FatFile h'" "t = tot + k + n" "n \<le> length (buf_addrs sls)" "n \<le> length c - (p + k)"
      "n = 0 \<longrightarrow> buf_addrs sls = [] \<or> p + k = length c" "view h' s' = Some (c, p + k + n)"
      "map m' (take n (buf_addrs sls)) = take n (drop (p + k) c)"
      "\<forall>a. a \<notin> set (take n (buf_addrs sls)) \<longrightarrow> m' a = m1 a"
      using Cons.IH [OF rest k(5)] Cons.prems(3,4) ba by (auto simp: small_slices_def)
    have dis: "a \<notin> set (take n (buf_addrs sls))" if "a \<in> set (slice_addrs b)" for a
      using that Cons.prems(4) ba set_take_subset [of n "buf_addrs sls"] by auto
    have tk: "take (k + n) (buf_addrs (b # sls)) = slice_addrs b @ take n (buf_addrs sls)"
      by (simp add: ba k')
    have "map m' (slice_addrs b) = map m1 (slice_addrs b)" using n(8) dis by (intro map_cong) auto
    also have "\<dots> = take k (drop p c)" using m1k k' by simp
    finally have mb: "map m' (slice_addrs b) = take k (drop p c)" .
    have "map m' (take (k + n) (buf_addrs (b # sls))) = take (k + n) (drop p c)"
      unfolding tk by (simp add: mb n(7) take_add add.commute)
    moreover have "m' a = m a" if "a \<notin> set (take (k + n) (buf_addrs (b # sls)))" for a
      using that n(8) m1o [of a] k' unfolding tk by simp
    ultimately show ?thesis
      using n k k' unfolding ba by (intro exI [of _ "k + n"] exI [of _ h']) auto
  qed
qed

lemma inode_write_for_spec:
  assumes ok: "fatfs_file_ok fs view"
  shows "inode_write_for fs sls tot (FatFile h) m s = Inr (t, f, s') \<Longrightarrow> view h s = Some (c, p) \<Longrightarrow>
    \<exists>n h'. f = FatFile h' \<and> t = tot + n \<and> n \<le> length (buf_addrs sls)
      \<and> view h' s' = Some (overwrite p (take n (map m (buf_addrs sls))) c, p + n)"
proof (induction sls arbitrary: tot h s p c)
  case Nil
  then show ?case by auto
next
  case (Cons b sls)
  obtain r h1 s1 where wr: "fatfs_write fs h (slice_bytes m b) s = (r, h1, s1)"
    by (metis prod_cases3)
  from Cons.prems(1) wr obtain k where r: "r = Some k" by (auto simp: result_simps)
  note d = fatfs_file_okD [OF ok Cons.prems(2)]
  have k: "k \<le> sl_len b" "view h1 s1 = Some (overwrite p (take k (map m (slice_addrs b))) c, p + k)"
    using d(3) [OF wr [unfolded r]] by (auto simp: slice_bytes_addrs)
  have ba: "buf_addrs (b # sls) = slice_addrs b @ buf_addrs sls" by simp
  show ?case
  proof (cases "k < sl_len b")
    case True
    then show ?thesis using Cons.prems(1) k unfolding ba
      by (intro exI [of _ k] exI [of _ h1]) (auto simp: wr r)
  next
    case False
    then have k': "k = sl_len b" using k(1) by simp
    have rest: "inode_write_for fs sls (tot + k) (FatFile h1) m s1 = Inr (t, f, s')"
      using Cons.prems(1) False by (simp add: wr r)
    obtain n h' where n: "f = FatFile h'" "t = tot + k + n" "n \<le> length (buf_addrs sls)"
      "view h' s' = Some (overwrite (p + k) (take n (map m (buf_addrs sls)))
         (overwrite p (take k (map m (slice_addrs b))) c), p + k + n)"
      using Cons.IH [OF rest k(2)] by auto
    moreover have "overwrite (p + k) (take n (map m (buf_addrs sls))) (overwrite p (take k (map m (slice_addrs b))) c)
        = overwrite p (take (k + n) (map m (buf_addrs (b # sls)))) c"
      using overwrite_append [OF d(1), of "map m (slice_addrs b)" "take n (map m (buf_addrs sls))"] k'
      by (simp add: ba)
    ultimately show ?thesis using k' unfolding ba by (intro exI [of _ "k + n"] exI [of _ h']) auto
  qed
qed

text \<open>The loops fail only on an error of \<open>fatfs\<close>.\<close>

lemma inode_read_for_Inl: "inode_read_for fs sls tot f m s = Inl e \<Longrightarrow> e = Unwrap_None"
  by (induction sls arbitrary: tot f m s)
    (auto simp: unwrap_def Let_def split: FatType.splits prod.splits option.splits if_splits)

lemma inode_write_for_Inl: "inode_write_for fs sls tot f m s = Inl e \<Longrightarrow> e = Unwrap_None"
  by (induction sls arbitrary: tot f s)
    (auto simp: unwrap_def Let_def split: FatType.splits prod.splits option.splits if_splits)

section \<open>Properties\<close>

text \<open>
  C23. Reading and writing through an \<open>OSInode\<close> act on the open file as on a byte sequence with an
  offset. A read that returns \<open>n\<close> has stored the \<open>n\<close> bytes at the offset into the first \<open>n\<close> bytes
  of the user buffer, across its pages, has changed no other byte of memory, and returns 0 only at
  the end of the file or for an empty buffer; a write that returns \<open>n\<close> has replaced the bytes at
  the offset by the first \<open>n\<close> bytes of the buffer. Both advance the offset by \<open>n\<close>, and both panic
  only when \<open>fatfs\<close> reports an error. The size reported by \<open>stat\<close> grows by \<open>n\<close> with every write.\<close>

theorem inode_io_refines_file:
  assumes ok: "fatfs_file_ok fs view" and f: "oi_file ino = FatFile h" and v: "view h s = Some (c, p)"
    and buf: "small_slices (buffers buf)" "distinct (buf_addrs (buffers buf))"
  shows "(case OSInode_read fs ino buf m s of
            Inl e \<Rightarrow> e = Unwrap_None
          | Inr (n, ino', m', s') \<Rightarrow>
              n \<le> UserBuffer_len buf \<and> (n = 0 \<longrightarrow> UserBuffer_len buf = 0 \<or> p = length c)
              \<and> map m' (take n (buf_addrs (buffers buf))) = take n (drop p c)
              \<and> (\<forall>a. a \<notin> set (take n (buf_addrs (buffers buf))) \<longrightarrow> m' a = m a)
              \<and> (\<exists>h'. oi_file ino' = FatFile h' \<and> view h' s' = Some (c, p + n)))
    \<and> (case OSInode_write fs ino buf m s of
            Inl e \<Rightarrow> e = Unwrap_None
          | Inr (n, ino', s') \<Rightarrow>
              n \<le> UserBuffer_len buf
              \<and> (\<exists>h'. oi_file ino' = FatFile h'
                   \<and> view h' s' = Some (overwrite p (take n (map m (buf_addrs (buffers buf)))) c, p + n))
              \<and> st_size (oi_stat ino') = st_size (oi_stat ino) + of_nat n)"
proof (intro conjI)
  show "case OSInode_read fs ino buf m s of Inl e \<Rightarrow> e = Unwrap_None
     | Inr (n, ino', m', s') \<Rightarrow>
              n \<le> UserBuffer_len buf \<and> (n = 0 \<longrightarrow> UserBuffer_len buf = 0 \<or> p = length c)
              \<and> map m' (take n (buf_addrs (buffers buf))) = take n (drop p c)
              \<and> (\<forall>a. a \<notin> set (take n (buf_addrs (buffers buf))) \<longrightarrow> m' a = m a)
              \<and> (\<exists>h'. oi_file ino' = FatFile h' \<and> view h' s' = Some (c, p + n))"
  proof (cases "inode_read_for fs (buffers buf) 0 (FatFile h) m s")
    case (Inl e)
    then show ?thesis using inode_read_for_Inl by (fastforce simp: OSInode_read_def f)
  next
    case (Inr r)
    obtain t f' m' s' where r: "r = (t, f', m', s')" by (metis prod_cases4)
    from inode_read_for_spec [OF ok Inr [unfolded r] v buf]
    obtain h' where "f' = FatFile h'" "t \<le> length (buf_addrs (buffers buf))"
      "t = 0 \<longrightarrow> buf_addrs (buffers buf) = [] \<or> p = length c" "view h' s' = Some (c, p + t)"
      "map m' (take t (buf_addrs (buffers buf))) = take t (drop p c)"
      "\<forall>a. a \<notin> set (take t (buf_addrs (buffers buf))) \<longrightarrow> m' a = m a" by auto
    then show ?thesis
      by (simp add: OSInode_read_def f Inr r UserBuffer_len_eq flip: length_0_conv)
  qed
  show "case OSInode_write fs ino buf m s of Inl e \<Rightarrow> e = Unwrap_None
     | Inr (n, ino', s') \<Rightarrow> n \<le> UserBuffer_len buf
        \<and> (\<exists>h'. oi_file ino' = FatFile h'
              \<and> view h' s' = Some (overwrite p (take n (map m (buf_addrs (buffers buf)))) c, p + n))
        \<and> st_size (oi_stat ino') = st_size (oi_stat ino) + of_nat n"
  proof (cases "inode_write_for fs (buffers buf) 0 (FatFile h) m s")
    case (Inl e)
    then show ?thesis using inode_write_for_Inl by (fastforce simp: OSInode_write_def f)
  next
    case (Inr r)
    obtain t f' s' where r: "r = (t, f', s')" by (metis prod_cases3)
    from inode_write_for_spec [OF ok Inr [unfolded r] v]
    show ?thesis
      by (auto simp: OSInode_write_def f Inr r UserBuffer_len_eq update_after_write_def Let_def)
  qed
qed

theorem inode_io_refines_file_witness:
  "fst (projr (OSInode_write ram_fs (OSInode_new True True (FatFile 1) False ''/f'')
      (UserBuffer_new [\<lparr>sl_addr = 4096, sl_len = 2\<rparr>]) (\<lambda>a. 7) [1, 2, 3])) = 2
   \<and> snd (snd (projr (OSInode_write ram_fs (OSInode_new True True (FatFile 1) False ''/f'')
      (UserBuffer_new [\<lparr>sl_addr = 4096, sl_len = 2\<rparr>]) (\<lambda>a. 7) [1, 2, 3]))) = [1, 7, 7]"
  using inode_io_refines_file [OF ram_fs_ok, of "OSInode_new True True (FatFile 1) False ''/f''" 1 "[1, 2, 3]" "[1, 2, 3]" 1
      "UserBuffer_new [\<lparr>sl_addr = 4096, sl_len = 2\<rparr>]" "\<lambda>a. 7"]
  by (simp add: OSInode_new_def ram_view_def UserBuffer_new_def small_slices_def slice_addrs_def upt_rec
      OSInode_write_def ram_fs_def slice_bytes_def read_bytes_def overwrite_def UserBuffer_len_def Let_def)

text \<open>
  C24. \<open>read_all\<close>, which loads programs for \<open>execve\<close>, ends and returns the file from the current
  offset to its end, whatever the sizes of the individual reads; the handle is left at the end.\<close>

theorem read_all_returns_rest:
  assumes ok: "fatfs_file_ok fs view" "fatfs_reads fs view"
    and f: "oi_file ino = FatFile h" and v: "view h s = Some (c, p)"
  shows "\<exists>h' s'. OSInode_read_all fs ino s = Some (Inr (drop p c, ino\<lparr>oi_file := FatFile h'\<rparr>, s'))
           \<and> view h' s' = Some (c, length c)"
  using read_all_loop_rest [OF ok v, of "replicate 512 0" "[]"]
  by (auto simp: OSInode_read_all_def f)

theorem read_all_returns_rest_witness:
  "\<exists>h' s'. OSInode_read_all ram_fs (OSInode_new True False (FatFile 1) False ''/f'') [1, 2, 3]
     = Some (Inr ([2, 3], (OSInode_new True False (FatFile 1) False ''/f'')\<lparr>oi_file := FatFile h'\<rparr>, s'))"
  using read_all_returns_rest [OF ram_fs_ok ram_fs_reads,
      of "OSInode_new True False (FatFile 1) False ''/f''" 1 "[1, 2, 3]" "[1, 2, 3]" 1]
  by (auto simp: ram_view_def OSInode_new_def)

text \<open>
  \<open>OSInode::write_at\<close> never returns \<open>Ok\<close>: it fails with -1, or panics on borrowing the cell of
  the file a second time while the first guard is alive. In particular a write that \<open>fatfs\<close>
  carried out ends in a kernel panic.\<close>

lemma write_at_never_ok:
  "case OSInode_write_at fs c ino offset buf s is of
     Inl e \<Rightarrow> e = Borrow_Conflict
   | Inr (r, _) \<Rightarrow> r = Inl (- 1)"
  by (auto simp: OSInode_write_at_def exclusive_access_def enter_def Let_def
      split: FatType.split prod.split option.split)

text \<open>
  A file opened by \<open>open_file_at\<close> is readable whatever the access mode asked for, as
  \<open>contains(RDONLY)\<close> holds of all flags.
\<close>

lemma open_file_at_readable: "open_file_at fs base_dir path flags mode s = (Some ino, s') \<Longrightarrow> oi_readable ino"
  by (auto simp: open_file_at_def OSInode_new_def current_root_inode_def bitflags_contains_def OpenFlags_RDONLY_def
      Let_def split: if_splits prod.splits option.splits)

lemma open_file_modes:
  "open_file fs cwd path flags s = Inr (Some ino, s') \<Longrightarrow> (oi_readable ino, oi_writable ino) = read_write flags"
  by (auto simp: open_file_def OSInode_new_def Let_def result_simps split: if_splits prod.splits option.splits)

end
