(* ===== verification/Files.thy ===== *)
theory Files
  imports Inode Pipe
begin

text \<open>
  Open files: the \<open>File\<close> trait of \<open>os/src/fs/file.rs\<close> over its implementations, and the part of
  the kernel state they act on. A trait object is a value of \<open>File\<close>; inodes and pipe ends live in
  stores, as they are shared through \<open>Arc\<close>. The reference count of the write end of a pipe is kept
  in the ring it belongs to, since \<open>all_write_ends_closed\<close> reads it; cloning and dropping an \<open>Arc\<close>
  change it. Kernel log output is not recorded.
\<close>

section \<open>State\<close>

datatype File = Stdin | Stdout | InodeFile nat | PipeFile nat

record ('h, 'd, 's) fsys =
  fs_mem :: memory
  fs_fat :: 's
  fs_inodes :: "nat \<Rightarrow> ('h, 'd) OSInode"
  fs_ninodes :: nat
  fs_pipes :: "nat \<Rightarrow> Pipe \<times> nat"      \<comment> \<open>a pipe end and the number of its ring\<close>
  fs_npipes :: nat
  fs_rings :: "nat \<Rightarrow> PipeRingBuffer"
  fs_nrings :: nat
  fs_console_in :: "usize list"
  fs_console_out :: string

definition new_inode :: "('h, 'd) OSInode \<Rightarrow> ('h, 'd, 's) fsys \<Rightarrow> File \<times> ('h, 'd, 's) fsys" where
  "new_inode ino st =
     (InodeFile (fs_ninodes st),
      st\<lparr>fs_inodes := (fs_inodes st)(fs_ninodes st := ino), fs_ninodes := fs_ninodes st + 1\<rparr>)"

text \<open>\<open>make_pipe\<close>: a fresh ring and its two ends.\<close>

definition new_pipe :: "('h, 'd, 's) fsys \<Rightarrow> nat \<times> nat \<times> ('h, 'd, 's) fsys" where
  "new_pipe st =
     (case make_pipe of (pr, pw, rb) \<Rightarrow>
      (let r = fs_nrings st; i = fs_npipes st; j = i + 1
       in (i, j, st\<lparr>fs_rings := (fs_rings st)(r := rb), fs_nrings := r + 1,
                   fs_pipes := (fs_pipes st)(i := (pr, r), j := (pw, r)), fs_npipes := i + 2\<rparr>)))"

definition pipe_set_nonblocking :: "bool \<Rightarrow> nat \<Rightarrow> ('h, 'd, 's) fsys \<Rightarrow> ('h, 'd, 's) fsys" where
  "pipe_set_nonblocking nb i st =
     st\<lparr>fs_pipes := (fs_pipes st)(i := (set_nonblocking nb (fst (fs_pipes st i)), snd (fs_pipes st i)))\<rparr>"

section \<open>\<open>Arc::clone\<close> and \<open>drop\<close>\<close>

definition upd_strong :: "(nat \<Rightarrow> nat) \<Rightarrow> File \<Rightarrow> ('h, 'd, 's) fsys \<Rightarrow> ('h, 'd, 's) fsys" where
  "upd_strong g f st =
     (case f of
        PipeFile i \<Rightarrow>
          (case fs_pipes st i of (p, r) \<Rightarrow>
             if writable p
             then st\<lparr>fs_rings := (fs_rings st)(r :=
                    (fs_rings st r)\<lparr>write_end := map_option g (write_end (fs_rings st r))\<rparr>)\<rparr>
             else st)
      | _ \<Rightarrow> st)"

definition File_clone :: "File \<Rightarrow> ('h, 'd, 's) fsys \<Rightarrow> ('h, 'd, 's) fsys" where
  "File_clone = upd_strong Suc"

definition File_drop :: "File option \<Rightarrow> ('h, 'd, 's) fsys \<Rightarrow> ('h, 'd, 's) fsys" where
  "File_drop f st = (case f of None \<Rightarrow> st | Some f \<Rightarrow> upd_strong (\<lambda>n. n - 1) f st)"

section \<open>The operations of the trait\<close>

definition File_readable :: "File \<Rightarrow> ('h, 'd, 's) fsys \<Rightarrow> bool" where
  "File_readable f st =
     (case f of Stdin \<Rightarrow> True | Stdout \<Rightarrow> False
      | InodeFile i \<Rightarrow> OSInode_readable (fs_inodes st i) | PipeFile i \<Rightarrow> readable (fst (fs_pipes st i)))"

definition File_writable :: "File \<Rightarrow> ('h, 'd, 's) fsys \<Rightarrow> bool" where
  "File_writable f st =
     (case f of Stdin \<Rightarrow> False | Stdout \<Rightarrow> True
      | InodeFile i \<Rightarrow> OSInode_writable (fs_inodes st i) | PipeFile i \<Rightarrow> writable (fst (fs_pipes st i)))"

text \<open>The standard streams implement the next four with \<open>todo!()\<close>.\<close>

definition File_get_stat :: "File \<Rightarrow> ('h, 'd, 's) fsys \<Rightarrow> UserStat result" where
  "File_get_stat f st =
     (case f of Stdin \<Rightarrow> Inl Explicit_Panic | Stdout \<Rightarrow> Inl Explicit_Panic
      | InodeFile i \<Rightarrow> Inr (OSInode_get_stat (fs_inodes st i)) | PipeFile i \<Rightarrow> Inr Pipe_get_stat)"

definition File_is_dir :: "File \<Rightarrow> ('h, 'd, 's) fsys \<Rightarrow> bool result" where
  "File_is_dir f st =
     (case f of Stdin \<Rightarrow> Inl Explicit_Panic | Stdout \<Rightarrow> Inl Explicit_Panic
      | InodeFile i \<Rightarrow> Inr (is_directory (fs_inodes st i)) | PipeFile i \<Rightarrow> Inr False)"

definition File_get_path :: "File \<Rightarrow> ('h, 'd, 's) fsys \<Rightarrow> string result" where
  "File_get_path f st =
     (case f of Stdin \<Rightarrow> Inl Explicit_Panic | Stdout \<Rightarrow> Inl Explicit_Panic
      | InodeFile i \<Rightarrow> Inr (OSInode_get_path (fs_inodes st i)) | PipeFile i \<Rightarrow> Inr Pipe_get_path)"

definition File_read_at ::
  "('h, 'd, 's) fatfs \<Rightarrow> File \<Rightarrow> usize \<Rightarrow> u8 list \<Rightarrow> ('h, 'd, 's) fsys
     \<Rightarrow> ((isize + nat) \<times> u8 list \<times> ('h, 'd, 's) fsys) result" where
  "File_read_at fs f offset buf st =
     (case f of Stdin \<Rightarrow> Inl Explicit_Panic | Stdout \<Rightarrow> Inl Explicit_Panic
      | InodeFile i \<Rightarrow>
          (case OSInode_read_at fs (fs_inodes st i) offset buf (fs_fat st) of (r, buf', ino, s) \<Rightarrow>
             Inr (r, buf', st\<lparr>fs_inodes := (fs_inodes st)(i := ino), fs_fat := s\<rparr>))
      | PipeFile i \<Rightarrow>
          (let r = snd (fs_pipes st i)
           in rbind (Pipe_read_at offset buf (fs_rings st r)) (\<lambda>(n, buf', rb).
              Inr (n, buf', st\<lparr>fs_rings := (fs_rings st)(r := rb)\<rparr>))))"

text \<open>\<open>as_any().downcast_ref::<OSInode>()\<close>; a pipe's \<open>as_any\<close> is \<open>todo!()\<close>.\<close>

definition File_as_inode :: "File \<Rightarrow> nat option result" where
  "File_as_inode f =
     (case f of InodeFile i \<Rightarrow> Inr (Some i) | PipeFile i \<Rightarrow> Inl Explicit_Panic | _ \<Rightarrow> Inr None)"

text \<open>
  A call of \<open>read\<close> or \<open>write\<close> returns the number of bytes, or waits in \<open>suspend_current_and_run_next\<close>
  with the state of the call.
\<close>

datatype io_outcome = Done nat | Waiting pipe_call

partial_function (option) pipe_read_run ::
  "Pipe \<Rightarrow> pipe_call \<times> PipeRingBuffer \<times> memory \<Rightarrow> (io_outcome \<times> PipeRingBuffer \<times> memory) result option" where
  "pipe_read_run p s =
     (case pipe_read_round p s of
        Inl e \<Rightarrow> Some (Inl e)
      | Inr (r, c, rb, m) \<Rightarrow>
         (case r of
            Return n \<Rightarrow> Some (Inr (Done n, rb, m))
          | Suspend \<Rightarrow> Some (Inr (Waiting c, rb, m))
          | Continue \<Rightarrow> pipe_read_run p (c, rb, m)))"

partial_function (option) pipe_write_run ::
  "Pipe \<Rightarrow> memory \<Rightarrow> pipe_call \<times> PipeRingBuffer \<Rightarrow> (io_outcome \<times> PipeRingBuffer) result option" where
  "pipe_write_run p m s =
     (case pipe_write_round p m s of
        Inl e \<Rightarrow> Some (Inl e)
      | Inr (r, c, rb) \<Rightarrow>
         (case r of
            Return n \<Rightarrow> Some (Inr (Done n, rb))
          | Suspend \<Rightarrow> Some (Inr (Waiting c, rb))
          | Continue \<Rightarrow> pipe_write_run p m (c, rb)))"

definition File_read ::
  "('h, 'd, 's) fatfs \<Rightarrow> File \<Rightarrow> UserBuffer \<Rightarrow> ('h, 'd, 's) fsys
     \<Rightarrow> (io_outcome \<times> ('h, 'd, 's) fsys) result option" where
  "File_read fs f buf st =
     (case f of
        Stdin \<Rightarrow>
          obind (Stdin_read buf (fs_console_in st) (fs_mem st)) (\<lambda>(n, cin, m).
          oret (Done n, st\<lparr>fs_console_in := cin, fs_mem := m\<rparr>))
      | Stdout \<Rightarrow> Some (rbind (Stdout_read buf) (\<lambda>n. Inr (Done n, st)))
      | InodeFile i \<Rightarrow>
          Some (rbind (OSInode_read fs (fs_inodes st i) buf (fs_mem st) (fs_fat st)) (\<lambda>(n, ino, m, s).
          Inr (Done n, st\<lparr>fs_inodes := (fs_inodes st)(i := ino), fs_mem := m, fs_fat := s\<rparr>)))
      | PipeFile i \<Rightarrow>
          (case fs_pipes st i of (p, r) \<Rightarrow>
           obind (pipe_read_run p (start_call buf, fs_rings st r, fs_mem st)) (\<lambda>(out, rb, m).
           oret (out, st\<lparr>fs_rings := (fs_rings st)(r := rb), fs_mem := m\<rparr>))))"

definition File_write ::
  "(u8 list \<Rightarrow> string option) \<Rightarrow> ('h, 'd, 's) fatfs \<Rightarrow> File \<Rightarrow> UserBuffer \<Rightarrow> ('h, 'd, 's) fsys
     \<Rightarrow> (io_outcome \<times> ('h, 'd, 's) fsys) result option" where
  "File_write from_utf8 fs f buf st =
     (case f of
        Stdin \<Rightarrow> Some (rbind (Stdin_write buf) (\<lambda>n. Inr (Done n, st)))
      | Stdout \<Rightarrow>
          Some (rbind (Stdout_write from_utf8 buf (fs_mem st) (fs_console_out st)) (\<lambda>(n, out).
          Inr (Done n, st\<lparr>fs_console_out := out\<rparr>)))
      | InodeFile i \<Rightarrow>
          Some (rbind (OSInode_write fs (fs_inodes st i) buf (fs_mem st) (fs_fat st)) (\<lambda>(n, ino, s).
          Inr (Done n, st\<lparr>fs_inodes := (fs_inodes st)(i := ino), fs_fat := s\<rparr>)))
      | PipeFile i \<Rightarrow>
          (case fs_pipes st i of (p, r) \<Rightarrow>
           obind (pipe_write_run p (fs_mem st) (start_call buf, fs_rings st r)) (\<lambda>(out, rb).
           oret (out, st\<lparr>fs_rings := (fs_rings st)(r := rb)\<rparr>))))"

end
