(* ===== verification/Fs_Syscalls.thy ===== *)
theory Fs_Syscalls
  imports Files
begin

text \<open>
  The file system calls: \<open>os/src/syscall/fs.rs\<close>, with \<open>ProcessControlBlockInner::alloc_fd\<close> of
  \<open>os/src/task/process.rs\<close>. They act on the descriptor table and the working directory of the
  current process, the record \<open>fd_proc\<close>, and on the files, the record \<open>fsys\<close>; the token is the one
  of the current process. A system call that would block returns \<open>Waiting\<close>.
\<close>

section \<open>Strings and structures as bytes\<close>

text \<open>
  A character of a path is a code point below 256 (\<open>translated_str\<close> makes one of every byte); its
  UTF-8 encoding has two bytes from 128 on.
\<close>

definition path_of_bytes :: "u8 list \<Rightarrow> string" where
  "path_of_bytes bs = map (\<lambda>b. char_of (unat b)) bs"

definition utf8_bytes :: "string \<Rightarrow> u8 list" where
  "utf8_bytes s =
     concat (map (\<lambda>c. let n = of_char c :: nat in
        if n < 128 then [of_nat n] else [of_nat (192 + n div 64), of_nat (128 + n mod 64)]) s)"

definition le_bytes :: "nat \<Rightarrow> 'a::len word \<Rightarrow> u8 list" where
  "le_bytes n v = map (\<lambda>i. ucast (drop_bit (8 * i) v)) [0..<n]"

text \<open>The \<open>repr(C)\<close> layouts; the five bytes of padding of a directory entry are unspecified.\<close>

definition UserStat_bytes :: "UserStat \<Rightarrow> u8 list" where
  "UserStat_bytes st =
     le_bytes 8 (st_dev st) @ le_bytes 8 (st_ino st) @ le_bytes 4 (st_mode st) @ le_bytes 4 (st_nlink st)
     @ le_bytes 4 (st_uid st) @ le_bytes 4 (st_gid st) @ le_bytes 8 (st_rdev st) @ le_bytes 8 (st_pad st)
     @ le_bytes 8 (st_size st) @ le_bytes 4 (st_blksize st) @ le_bytes 4 (st_pad2 st) @ le_bytes 8 (st_blocks st)
     @ le_bytes 8 (st_atime_sec st) @ le_bytes 8 (st_atime_nsec st) @ le_bytes 8 (st_mtime_sec st)
     @ le_bytes 8 (st_mtime_nsec st) @ le_bytes 8 (st_ctime_sec st) @ le_bytes 8 (st_ctime_nsec st)
     @ concat (map (le_bytes 4) (st_unused st))"

definition LinuxDirent64_bytes :: "u8 list \<Rightarrow> LinuxDirent64 \<Rightarrow> u8 list" where
  "LinuxDirent64_bytes padding d =
     le_bytes 8 (d_ino d) @ le_bytes 8 (d_off d) @ le_bytes 2 (d_reclen d) @ le_bytes 1 (d_type d)
     @ d_name d @ padding"

definition LinuxDirent64_size :: nat where "LinuxDirent64_size = 280"

section \<open>The descriptor table\<close>

record fd_proc =
  cwd :: string
  cwd_inode :: File
  fd_table :: "File option list"

definition alloc_fd :: "'p fd_proc_scheme \<Rightarrow> nat \<times> 'p fd_proc_scheme" where
  "alloc_fd p =
     (case position (\<lambda>f. f = None) (fd_table p) of
        Some fd \<Rightarrow> (fd, p)
      | None \<Rightarrow> (let p = p\<lparr>fd_table := fd_table p @ [None]\<rparr> in (length (fd_table p) - 1, p)))"

text \<open>\<open>let fd = inner.alloc_fd(); inner.fd_table[fd] = Some(file);\<close>\<close>

definition install_fd :: "File \<Rightarrow> 'p fd_proc_scheme \<Rightarrow> (nat \<times> 'p fd_proc_scheme) result" where
  "install_fd f p =
     (case alloc_fd p of (fd, p) \<Rightarrow>
      rbind (store_at (fd_table p) fd (Some f)) (\<lambda>t.
      Inr (fd, p\<lparr>fd_table := t\<rparr>)))"

text \<open>\<open>inner.fd_table.get(fd)\<close> with its two layers of \<open>Option\<close> flattened.\<close>

definition get_fd :: "'p fd_proc_scheme \<Rightarrow> usize \<Rightarrow> File option" where
  "get_fd p fd = (if unat fd < length (fd_table p) then fd_table p ! unat fd else None)"

definition vec_resize :: "nat \<Rightarrow> 'a \<Rightarrow> 'a list \<Rightarrow> 'a list" where
  "vec_resize n x xs = take n xs @ replicate (n - length xs) x"

type_synonym ('p, 'h, 'd, 's) sysres = "(isize \<times> 'p fd_proc_scheme \<times> ('h, 'd, 's) fsys) result option"

definition AT_FDCWD :: usize where "AT_FDCWD = - 100"

section \<open>System calls on the working directory\<close>

definition sys_getcwd ::
  "usize \<Rightarrow> usize \<Rightarrow> usize \<Rightarrow> 'p fd_proc_scheme \<Rightarrow> ('h, 'd, 's) fsys \<Rightarrow> ('p, 'h, 'd, 's) sysres" where
  "sys_getcwd token buf len p st =
     (let cwd = utf8_bytes (cwd p) in
      if of_nat (length cwd) + 1 > len then oret (- 34, p, st)
      else obind (translated_byte_buffer (fs_mem st) token buf len) (\<lambda>bufs.
           let m' = snd (UserBuffer_write_string (UserBuffer_new bufs) cwd (fs_mem st))
           in oret (buf, p, st\<lparr>fs_mem := m'\<rparr>)))"

definition sys_chdir ::
  "('h, 'd, 's) fatfs \<Rightarrow> usize \<Rightarrow> usize \<Rightarrow> 'p fd_proc_scheme \<Rightarrow> ('h, 'd, 's) fsys \<Rightarrow> ('p, 'h, 'd, 's) sysres" where
  "sys_chdir fs token path p st =
     obind (translated_str (fs_mem st) token path) (\<lambda>path.
     let new_cwd = resolve_path (path_of_bytes path) (cwd p) in
     case open_dir fs (cwd p) new_cwd (fs_fat st) of
       (Inl _, s) \<Rightarrow> oret (- 1, p, st\<lparr>fs_fat := s\<rparr>)
     | (Inr ino, s) \<Rightarrow>
        (case new_inode ino (st\<lparr>fs_fat := s\<rparr>) of (f, st) \<Rightarrow>
         oret (0, p\<lparr>cwd := new_cwd, cwd_inode := f\<rparr>, st)))"

definition sys_mkdirat ::
  "('h, 'd, 's) fatfs \<Rightarrow> usize \<Rightarrow> isize \<Rightarrow> usize \<Rightarrow> u32 \<Rightarrow> 'p fd_proc_scheme \<Rightarrow> ('h, 'd, 's) fsys
     \<Rightarrow> ('p, 'h, 'd, 's) sysres" where
  "sys_mkdirat fs token dirfd path mode p st =
     obind (translated_str (fs_mem st) token path) (\<lambda>bytes.
     let path = path_of_bytes bytes in
     obind (Some (if starts_with path ''/'' then Inr (Some ''/'')
                  else if dirfd = AT_FDCWD then Inr (Some (cwd p))
                  else case get_fd p dirfd of
                         None \<Rightarrow> Inr None
                       | Some fd \<Rightarrow>
                          rbind (File_is_dir fd st) (\<lambda>is_dir.
                          if \<not> is_dir then Inr None else rbind (File_get_path fd st) (\<lambda>s. Inr (Some s)))))
       (\<lambda>base_path.
        case base_path of
          None \<Rightarrow> oret (- 1, p, st)
        | Some base_path \<Rightarrow>
           (let full_path = resolve_path path base_path in
            case create_dir fs (cwd p) full_path (fs_fat st) of
              (Inr _, s) \<Rightarrow> oret (0, p, st\<lparr>fs_fat := s\<rparr>)
            | (Inl _, s) \<Rightarrow> oret (- 1, p, st\<lparr>fs_fat := s\<rparr>))))"

section \<open>System calls on descriptors\<close>

definition sys_dup ::
  "usize \<Rightarrow> 'p fd_proc_scheme \<Rightarrow> ('h, 'd, 's) fsys \<Rightarrow> ('p, 'h, 'd, 's) sysres" where
  "sys_dup fd p st =
     (if unat fd \<ge> length (fd_table p) then oret (- 1, p, st)
      else case fd_table p ! unat fd of
             None \<Rightarrow> oret (- 1, p, st)
           | Some f \<Rightarrow>
              (let st = File_clone f st;
                   new_fd = (case position (\<lambda>f. f = None) (fd_table p) of
                               Some i \<Rightarrow> i | None \<Rightarrow> length (fd_table p));
                   t = (if new_fd = length (fd_table p) then fd_table p @ [Some f]
                        else (fd_table p)[new_fd := Some f])
               in oret (of_nat new_fd, p\<lparr>fd_table := t\<rparr>, st)))"

definition sys_dup3 ::
  "usize \<Rightarrow> usize \<Rightarrow> usize \<Rightarrow> 'p fd_proc_scheme \<Rightarrow> ('h, 'd, 's) fsys \<Rightarrow> ('p, 'h, 'd, 's) sysres" where
  "sys_dup3 old_fd new_fd flags p st =
     (if flags \<noteq> 0 then oret (- 1, p, st)
      else if unat old_fd \<ge> length (fd_table p) then oret (- 1, p, st)
      else case fd_table p ! unat old_fd of
             None \<Rightarrow> oret (- 1, p, st)
           | Some f \<Rightarrow>
              (let st' = File_clone f st in
               if old_fd = new_fd then oret (- 1, p, File_drop (Some f) st')
               else
                 (let t = (if unat new_fd \<ge> length (fd_table p)
                           then vec_resize (unat (new_fd + 1)) None (fd_table p) else fd_table p)
                  in obind (Some (index_at t (unat new_fd))) (\<lambda>old.
                     let st' = File_drop old st'
                     in oret (new_fd, p\<lparr>fd_table := t[unat new_fd := Some f]\<rparr>, st')))))"

definition sys_close ::
  "usize \<Rightarrow> 'p fd_proc_scheme \<Rightarrow> ('h, 'd, 's) fsys \<Rightarrow> ('p, 'h, 'd, 's) sysres" where
  "sys_close fd p st =
     (if unat fd \<ge> length (fd_table p) then oret (- 1, p, st)
      else case fd_table p ! unat fd of
             None \<Rightarrow> oret (- 1, p, st)
           | Some f \<Rightarrow> oret (0, p\<lparr>fd_table := (fd_table p)[unat fd := None]\<rparr>, File_drop (Some f) st))"

text \<open>
  \<open>sys_read\<close> and \<open>sys_write\<close> hold a clone of the \<open>Arc\<close> while they run, so also while they wait.
\<close>

definition sys_read ::
  "('h, 'd, 's) fatfs \<Rightarrow> usize \<Rightarrow> usize \<Rightarrow> usize \<Rightarrow> usize \<Rightarrow> 'p fd_proc_scheme \<Rightarrow> ('h, 'd, 's) fsys
     \<Rightarrow> ((isize + pipe_call) \<times> 'p fd_proc_scheme \<times> ('h, 'd, 's) fsys) result option" where
  "sys_read fs token fd buf len p st =
     (if unat fd \<ge> length (fd_table p) then oret (Inl (- 1), p, st)
      else case fd_table p ! unat fd of
             None \<Rightarrow> oret (Inl (- 1), p, st)
           | Some f \<Rightarrow>
              (let st' = File_clone f st in
               if \<not> File_readable f st' then oret (Inl (- 1), p, File_drop (Some f) st')
               else obind (translated_byte_buffer (fs_mem st') token buf len) (\<lambda>bufs.
                    obind (File_read fs f (UserBuffer_new bufs) st') (\<lambda>(out, st').
                    case out of
                      Done n \<Rightarrow> oret (Inl (of_nat n), p, File_drop (Some f) st')
                    | Waiting c \<Rightarrow> oret (Inr c, p, st')))))"

definition sys_write ::
  "(u8 list \<Rightarrow> string option) \<Rightarrow> ('h, 'd, 's) fatfs \<Rightarrow> usize \<Rightarrow> usize \<Rightarrow> usize \<Rightarrow> usize
     \<Rightarrow> 'p fd_proc_scheme \<Rightarrow> ('h, 'd, 's) fsys
     \<Rightarrow> ((isize + pipe_call) \<times> 'p fd_proc_scheme \<times> ('h, 'd, 's) fsys) result option" where
  "sys_write from_utf8 fs token fd buf len p st =
     (if unat fd \<ge> length (fd_table p) then oret (Inl (- 1), p, st)
      else case fd_table p ! unat fd of
             None \<Rightarrow> oret (Inl (- 1), p, st)
           | Some f \<Rightarrow>
              (if \<not> File_writable f st then oret (Inl (- 1), p, st)
               else
                 (let st' = File_clone f st in
                  obind (translated_byte_buffer (fs_mem st') token buf len) (\<lambda>bufs.
                  obind (File_write from_utf8 fs f (UserBuffer_new bufs) st') (\<lambda>(out, st').
                  case out of
                    Done n \<Rightarrow> oret (Inl (of_nat n), p, File_drop (Some f) st')
                  | Waiting c \<Rightarrow> oret (Inr c, p, st'))))))"

definition sys_getdents64 ::
  "('h, 'd, 's) fatfs \<Rightarrow> u8 list \<Rightarrow> usize \<Rightarrow> usize \<Rightarrow> usize \<Rightarrow> usize \<Rightarrow> 'p fd_proc_scheme \<Rightarrow> ('h, 'd, 's) fsys
     \<Rightarrow> ('p, 'h, 'd, 's) sysres" where
  "sys_getdents64 fs padding token fd buf len p st =
     (if unat fd \<ge> length (fd_table p) then oret (- 1, p, st)
      else case fd_table p ! unat fd of
        None \<Rightarrow> oret (- 1, p, st)
      | Some f \<Rightarrow>
         obind (Some (File_is_dir f st)) (\<lambda>is_dir.
         if \<not> is_dir then oret (- 1, p, st)
         else if unat len < LinuxDirent64_size then oret (- 1, p, st)
         else obind (Some (File_as_inode f)) (\<lambda>dir.
           case dir of
             None \<Rightarrow> oret (- 1, p, st)
           | Some i \<Rightarrow>
              (case list_dir fs (fs_inodes st i) (fs_fat st) of (r, s) \<Rightarrow>
               (let st = st\<lparr>fs_fat := s\<rparr> in
                case r of
                  Inl _ \<Rightarrow> oret (- 1, p, st)
                | Inr [] \<Rightarrow> oret (0, p, st)
                | Inr (e # _) \<Rightarrow>
                   (let name = de_name e;
                        copy_len = min (length name) 255;
                        dirent = \<lparr>d_ino = 1, d_off = 0, d_reclen = of_nat LinuxDirent64_size, d_type = 4,
                                  d_name = take copy_len name @ replicate (256 - copy_len) 0\<rparr>
                    in obind (copy_to_user (fs_mem st) token (LinuxDirent64_bytes padding dirent) buf) (\<lambda>m'.
                       oret (of_nat LinuxDirent64_size, p, st\<lparr>fs_mem := m'\<rparr>))))))))"

section \<open>Opening and removing\<close>

definition sys_open ::
  "('h, 'd, 's) fatfs \<Rightarrow> usize \<Rightarrow> usize \<Rightarrow> u32 \<Rightarrow> 'p fd_proc_scheme \<Rightarrow> ('h, 'd, 's) fsys
     \<Rightarrow> ('p, 'h, 'd, 's) sysres" where
  "sys_open fs token path flags p st =
     obind (translated_str (fs_mem st) token path) (\<lambda>path.
     case bitflags_from_bits OpenFlags_all flags of
       None \<Rightarrow> oret (- 1, p, st)
     | Some flags \<Rightarrow>
        obind (Some (open_file fs (cwd p) (path_of_bytes path) flags (fs_fat st))) (\<lambda>(r, s).
        let st = st\<lparr>fs_fat := s\<rparr> in
        case r of
          None \<Rightarrow> oret (- 1, p, st)
        | Some ino \<Rightarrow>
           (case new_inode ino st of (f, st) \<Rightarrow>
            obind (Some (install_fd f p)) (\<lambda>(fd, p). oret (of_nat fd, p, st)))))"

text \<open>The directory a \<open>dirfd\<close> argument stands for.\<close>

definition dirfd_path :: "usize \<Rightarrow> 'p fd_proc_scheme \<Rightarrow> ('h, 'd, 's) fsys \<Rightarrow> string option result" where
  "dirfd_path dirfd p st =
     (if dirfd = AT_FDCWD then Inr (Some (cwd p))
      else case get_fd p dirfd of
             None \<Rightarrow> Inr None
           | Some f \<Rightarrow>
              rbind (File_is_dir f st) (\<lambda>is_dir.
              if is_dir then rbind (File_get_path f st) (\<lambda>s. Inr (Some s)) else Inr None))"

definition StatMode_all :: u32 where
  "StatMode_all = foldr (OR)
     [0xF000, 0xC000, 0xA000, 0x8000, 0x6000, 0x4000, 0x2000, 0x1000,
      0x800, 0x400, 0x200, 0x1C0, 0x100, 0x80, 0x40, 0x38, 0x20, 0x10, 0x8, 0x7, 0x4, 0x2, 0x1] 0"

definition sys_openat ::
  "('h, 'd, 's) fatfs \<Rightarrow> usize \<Rightarrow> usize \<Rightarrow> usize \<Rightarrow> u32 \<Rightarrow> u32 \<Rightarrow> 'p fd_proc_scheme \<Rightarrow> ('h, 'd, 's) fsys
     \<Rightarrow> ('p, 'h, 'd, 's) sysres" where
  "sys_openat fs token dirfd path flags mode p st =
     obind (translated_str (fs_mem st) token path) (\<lambda>path.
     case bitflags_from_bits OpenFlags_all flags of
       None \<Rightarrow> oret (- 1, p, st)
     | Some flags \<Rightarrow>
        obind (Some (dirfd_path dirfd p st)) (\<lambda>base_dir.
        case base_dir of
          None \<Rightarrow> oret (- 1, p, st)
        | Some base_dir \<Rightarrow>
           obind (Some (unwrap (bitflags_from_bits StatMode_all mode))) (\<lambda>mode.
           case open_file_at fs base_dir (path_of_bytes path) flags mode (fs_fat st) of (r, s) \<Rightarrow>
           (let st = st\<lparr>fs_fat := s\<rparr> in
            case r of
              None \<Rightarrow> oret (- 1, p, st)
            | Some ino \<Rightarrow>
               (if bitflags_contains flags OpenFlags_DIRECTORY \<and> \<not> OSInode_is_dir ino then oret (- 1, p, st)
                else case new_inode ino st of (f, st) \<Rightarrow>
                  obind (Some (install_fd f p)) (\<lambda>(fd, p). oret (of_nat fd, p, st)))))))"

definition sys_fstat ::
  "usize \<Rightarrow> usize \<Rightarrow> usize \<Rightarrow> 'p fd_proc_scheme \<Rightarrow> ('h, 'd, 's) fsys \<Rightarrow> ('p, 'h, 'd, 's) sysres" where
  "sys_fstat token fd statbuf p st =
     obind (Some (if fd = AT_FDCWD then Inr (Some (cwd_inode p)) else index_at (fd_table p) (unat fd))) (\<lambda>inode.
     case inode of
       None \<Rightarrow> oret (- 1, p, st)
     | Some f \<Rightarrow>
        obind (Some (File_get_stat f st)) (\<lambda>stat.
        obind (copy_to_user (fs_mem st) token (UserStat_bytes stat) statbuf) (\<lambda>m'.
        oret (0, p, st\<lparr>fs_mem := m'\<rparr>))))"

definition sys_pipe2 ::
  "usize \<Rightarrow> usize \<Rightarrow> u32 \<Rightarrow> 'p fd_proc_scheme \<Rightarrow> ('h, 'd, 's) fsys \<Rightarrow> ('p, 'h, 'd, 's) sysres" where
  "sys_pipe2 token pipefd flags p st =
     (let allowed = OpenFlags_NONBLOCK OR OpenFlags_CLOEXEC in
      case bitflags_from_bits OpenFlags_all flags of
        None \<Rightarrow> oret (- 1, p, st)
      | Some openflags \<Rightarrow>
         (if openflags AND NOT allowed \<noteq> 0 then oret (- 1, p, st)
          else case new_pipe st of (i, j, st) \<Rightarrow>
            (let st = (if bitflags_contains openflags OpenFlags_NONBLOCK
                       then pipe_set_nonblocking True j (pipe_set_nonblocking True i st) else st)
             in obind (Some (install_fd (PipeFile i) p)) (\<lambda>(read_fd, p).
                obind (Some (install_fd (PipeFile j) p)) (\<lambda>(write_fd, p).
                obind (Some (translated_refmut (fs_mem st) token pipefd)) (\<lambda>a.
                let st = st\<lparr>fs_mem := write_bytes (fs_mem st) a (le_bytes 4 (of_nat read_fd :: i32))\<rparr> in
                obind (Some (translated_refmut (fs_mem st) token (pipefd + 4))) (\<lambda>a.
                let st = st\<lparr>fs_mem := write_bytes (fs_mem st) a (le_bytes 4 (of_nat write_fd :: i32))\<rparr> in
                oret (0, p, st))))))))"

definition sys_unlinkat ::
  "('h, 'd, 's) fatfs \<Rightarrow> usize \<Rightarrow> usize \<Rightarrow> usize \<Rightarrow> u32 \<Rightarrow> 'p fd_proc_scheme \<Rightarrow> ('h, 'd, 's) fsys
     \<Rightarrow> ('p, 'h, 'd, 's) sysres" where
  "sys_unlinkat fs token dirfd path flags p st =
     (if path = 0 then oret (- 1, p, st)
      else obind (translated_str (fs_mem st) token path) (\<lambda>path.
        obind (Some (dirfd_path dirfd p st)) (\<lambda>base_dir.
        case base_dir of
          None \<Rightarrow> oret (- 1, p, st)
        | Some base_dir \<Rightarrow>
           (let full_path = resolve_path (path_of_bytes path) base_dir in
            case fatfs_remove fs (fatfs_root_dir fs) (path_in_fs full_path) (fs_fat st) of (ok, s) \<Rightarrow>
            oret (if ok then 0 else - 1, p, st\<lparr>fs_fat := s\<rparr>)))))"

section \<open>Mounting\<close>

text \<open>Both calls only look the target up.\<close>

definition sys_umount2 ::
  "('h, 'd, 's) fatfs \<Rightarrow> usize \<Rightarrow> usize \<Rightarrow> u32 \<Rightarrow> 'p fd_proc_scheme \<Rightarrow> ('h, 'd, 's) fsys
     \<Rightarrow> ('p, 'h, 'd, 's) sysres" where
  "sys_umount2 fs token target flags p st =
     (if target = 0 then oret (- 1, p, st)
      else obind (translated_str (fs_mem st) token target) (\<lambda>target.
        case open_dir fs (cwd p) (path_of_bytes target) (fs_fat st) of
          (Inl _, s) \<Rightarrow> oret (- 1, p, st\<lparr>fs_fat := s\<rparr>)
        | (Inr _, s) \<Rightarrow> oret (0, p, st\<lparr>fs_fat := s\<rparr>)))"

definition MountFlags_all :: usize where
  "MountFlags_all = foldr (OR)
     [1, 2, 4, 8, 16, 32, 64, 128, 1024, 2048, 4096, 8192, 16384, 32768,
      push_bit 16 1, push_bit 17 1, push_bit 18 1, push_bit 19 1, push_bit 20 1, push_bit 21 1,
      push_bit 22 1, push_bit 23 1, push_bit 24 1, push_bit 25 1, push_bit 27 1, push_bit 28 1,
      push_bit 29 1, push_bit 30 1, push_bit 31 1] 0"

definition sys_mount ::
  "('h, 'd, 's) fatfs \<Rightarrow> usize \<Rightarrow> usize \<Rightarrow> usize \<Rightarrow> usize \<Rightarrow> usize \<Rightarrow> usize
     \<Rightarrow> 'p fd_proc_scheme \<Rightarrow> ('h, 'd, 's) fsys \<Rightarrow> ('p, 'h, 'd, 's) sysres" where
  "sys_mount fs token source target filesystemtype mountflags data p st =
     (if source = 0 \<or> target = 0 \<or> filesystemtype = 0 then oret (- 1, p, st)
      else obind (translated_str (fs_mem st) token source) (\<lambda>source.
        obind (translated_str (fs_mem st) token target) (\<lambda>target.
        obind (translated_str (fs_mem st) token filesystemtype) (\<lambda>fs_type.
        obind (Some (unwrap (bitflags_from_bits MountFlags_all mountflags))) (\<lambda>mountflags.
        case open_dir fs (cwd p) (path_of_bytes target) (fs_fat st) of
          (Inl _, s) \<Rightarrow> oret (- 1, p, st\<lparr>fs_fat := s\<rparr>)
        | (Inr _, s) \<Rightarrow>
           oret (if path_of_bytes fs_type \<noteq> ''vfat'' \<and> path_of_bytes fs_type \<noteq> ''fat32'' then - 1 else 0,
                 p, st\<lparr>fs_fat := s\<rparr>))))))"

end
