(* ===== verification/Fd_Table.thy ===== *)
theory Fd_Table
  imports Fs_Syscalls
begin

text \<open>
  Properties of the descriptor table: the calls that change it act on the partial map from
  descriptors to files (locale \<open>descriptor_table\<close>), and the reference count of the write end of a
  pipe is the number of descriptors and calls that refer to it.
\<close>

section \<open>Descriptors as a partial map\<close>

locale descriptor_table =
  fixes look :: "'t \<Rightarrow> nat \<Rightarrow> 'f option"
    and install :: "'f \<Rightarrow> 't \<Rightarrow> (nat \<times> 't) result"
    and remove :: "nat \<Rightarrow> 't \<Rightarrow> 't"
  assumes install_spec: "\<exists>i t'. install f t = Inr (i, t') \<and> look t i = None
      \<and> (\<forall>j < i. look t j \<noteq> None) \<and> look t' = (look t)(i \<mapsto> f)"
    and remove_spec: "look (remove i t) = (look t)(i := None)"
begin

text \<open>Installing two files takes the two lowest free descriptors, in order.\<close>

lemma install_two:
  "\<exists>i j t1 t2. install f t = Inr (i, t1) \<and> install g t1 = Inr (j, t2) \<and> i < j
     \<and> look t i = None \<and> look t j = None
     \<and> (\<forall>k < j. k \<noteq> i \<longrightarrow> look t k \<noteq> None) \<and> look t2 = (look t)(i \<mapsto> f, j \<mapsto> g)"
proof -
  obtain i t1 where 1: "install f t = Inr (i, t1)" "look t i = None" "\<forall>k < i. look t k \<noteq> None"
    "look t1 = (look t)(i \<mapsto> f)" using install_spec by blast
  obtain j t2 where 2: "install g t1 = Inr (j, t2)" "look t1 j = None" "\<forall>k < j. look t1 k \<noteq> None"
    "look t2 = (look t1)(j \<mapsto> g)" using install_spec by blast
  have "j \<noteq> i" "look t j = None" using 1(4) 2(2) by (auto split: if_splits)
  moreover have "\<not> j < i" using 1(3) \<open>look t j = None\<close> by blast
  moreover have "\<forall>k < j. k \<noteq> i \<longrightarrow> look t k \<noteq> None" using 2(3) 1(4) by auto
  ultimately show ?thesis using 1 2 by fastforce
qed

text \<open>Removing what was installed gives the table back.\<close>

lemma install_remove: "install f t = Inr (i, t') \<Longrightarrow> look (remove i t') = look t"
  using install_spec [of f t] remove_spec [of i t'] by auto

end

definition fd_map :: "'p fd_proc_scheme \<Rightarrow> nat \<Rightarrow> File option" where
  "fd_map p i = (if i < length (fd_table p) then fd_table p ! i else None)"

definition clear_fd :: "nat \<Rightarrow> 'p fd_proc_scheme \<Rightarrow> 'p fd_proc_scheme" where
  "clear_fd i p = p\<lparr>fd_table := (fd_table p)[i := None]\<rparr>"

lemma fd_map_update: "i < length (fd_table p) \<Longrightarrow> fd_map (p\<lparr>fd_table := (fd_table p)[i := f]\<rparr>) = (fd_map p)(i := f)"
  by (auto simp: fd_map_def fun_eq_iff)

lemma fd_map_extend: "fd_map (p\<lparr>fd_table := fd_table p @ replicate n None\<rparr>) = fd_map p"
  by (auto simp: fd_map_def fun_eq_iff nth_append)

lemma alloc_fd_spec:
  "\<exists>i p'. alloc_fd p = (i, p') \<and> i < length (fd_table p') \<and> fd_table p' ! i = None \<and> fd_map p i = None
     \<and> (\<forall>j < i. fd_map p j \<noteq> None) \<and> (p' = p \<or> p' = p\<lparr>fd_table := fd_table p @ [None]\<rparr>)"
proof (cases "position (\<lambda>f. f = None) (fd_table p)")
  case None
  then have "\<forall>j < length (fd_table p). fd_table p ! j \<noteq> None"
    by (auto simp: position_None_iff in_set_conv_nth)
  with None show ?thesis by (auto simp: alloc_fd_def fd_map_def)
next
  case (Some i)
  from position_SomeD [OF this] Some show ?thesis by (auto simp: alloc_fd_def fd_map_def)
qed

interpretation fdt: descriptor_table fd_map install_fd clear_fd
proof
  fix f :: File and p :: "'p fd_proc_scheme"
  obtain i p' where a: "alloc_fd p = (i, p')" "i < length (fd_table p')" "fd_map p i = None"
    "\<forall>j < i. fd_map p j \<noteq> None" "p' = p \<or> p' = p\<lparr>fd_table := fd_table p @ [None]\<rparr>"
    using alloc_fd_spec by blast
  have "fd_map p' = fd_map p" using a(5) fd_map_extend [of p 1] by auto
  moreover have "install_fd f p = Inr (i, p'\<lparr>fd_table := (fd_table p')[i := Some f]\<rparr>)"
    using a(1,2) by (simp add: install_fd_def store_at_def)
  ultimately show "\<exists>i p'. install_fd f p = Inr (i, p') \<and> fd_map p i = None \<and> (\<forall>j < i. fd_map p j \<noteq> None)
      \<and> fd_map p' = (fd_map p)(i \<mapsto> f)"
    using a fd_map_update [OF a(2)] by auto
next
  fix i and p :: "'p fd_proc_scheme"
  show "fd_map (clear_fd i p) = (fd_map p)(i := None)"
    by (auto simp: clear_fd_def fd_map_def fun_eq_iff nth_list_update)
qed

text \<open>
  \<open>sys_dup\<close> searches for a free slot on its own; it does what \<open>alloc_fd\<close> and a store do.
\<close>

lemma sys_dup_install:
  assumes "fd_map p (unat fd) = Some f"
  shows "\<exists>i p'. install_fd f p = Inr (i, p') \<and> sys_dup fd p st = oret (of_nat i, p', File_clone f st)"
proof (cases "position (\<lambda>f. f = None) (fd_table p)")
  case None
  with assms show ?thesis
    by (auto simp: sys_dup_def fd_map_def install_fd_def alloc_fd_def store_at_def Let_def not_le split: if_splits)
next
  case (Some i)
  with assms position_SomeD [OF Some] show ?thesis
    by (auto simp: sys_dup_def fd_map_def install_fd_def alloc_fd_def store_at_def Let_def not_le split: if_splits)
qed

lemma vec_resize_extend: "length xs \<le> n \<Longrightarrow> vec_resize n x xs = xs @ replicate (n - length xs) x"
  by (simp add: vec_resize_def)

lemma unat_Suc_max: "(a :: usize) \<noteq> - 1 \<Longrightarrow> unat (a + 1) = unat a + 1"
  by (intro unat_Suc_nowrap [of _ "- 1"]) (simp add: word_order.not_eq_extremum)

text \<open>The table in which \<open>sys_dup3\<close> stores its file, and the file that it replaces.\<close>

lemma sys_dup3_ok:
  assumes "fd_map p (unat old_fd) = Some f" "old_fd \<noteq> new_fd" "new_fd \<noteq> - 1"
  shows "\<exists>n. unat new_fd < length (fd_table p @ replicate n None)
     \<and> sys_dup3 old_fd new_fd 0 p st
       = oret (new_fd, p\<lparr>fd_table := (fd_table p @ replicate n None)[unat new_fd := Some f]\<rparr>,
               File_drop ((fd_table p @ replicate n None) ! unat new_fd) (File_clone f st))"
proof (cases "unat new_fd \<ge> length (fd_table p)")
  case True
  then have "vec_resize (unat (new_fd + 1)) None (fd_table p)
      = fd_table p @ replicate (unat new_fd + 1 - length (fd_table p)) None"
    using unat_Suc_max [OF assms(3)] by (simp add: vec_resize_extend)
  with True assms show ?thesis
    by (intro exI [of _ "unat new_fd + 1 - length (fd_table p)"])
      (auto simp: sys_dup3_def fd_map_def Let_def index_at_def not_le split: if_splits)
next
  case False
  with assms show ?thesis
    by (intro exI [of _ 0]) (auto simp: sys_dup3_def fd_map_def Let_def index_at_def not_le split: if_splits)
qed

section \<open>References to the write end of a pipe\<close>

text \<open>
  \<open>others i\<close> counts the references to the pipe end \<open>i\<close> that are not in the descriptor table of the
  current process: those of other processes and of calls that are waiting.
\<close>

definition bump :: "File \<Rightarrow> (nat \<Rightarrow> nat) \<Rightarrow> nat \<Rightarrow> nat" where
  "bump f others = (case f of PipeFile i \<Rightarrow> others(i := others i + 1) | _ \<Rightarrow> others)"

definition pipe_refs :: "'p fd_proc_scheme \<Rightarrow> nat \<Rightarrow> nat" where
  "pipe_refs p i = count_list (fd_table p) (Some (PipeFile i))"

definition valid_file :: "('h, 'd, 's) fsys \<Rightarrow> File \<Rightarrow> bool" where
  "valid_file st f \<longleftrightarrow> (\<forall>i. f = PipeFile i \<longrightarrow> i < fs_npipes st)"

text \<open>The write end of each ring is one pipe, and its count is exact.\<close>

definition pipes_wf :: "('h, 'd, 's) fsys \<Rightarrow> bool" where
  "pipes_wf st \<longleftrightarrow> (\<forall>i < fs_npipes st. snd (fs_pipes st i) < fs_nrings st)
     \<and> (\<forall>i < fs_npipes st. \<forall>j < fs_npipes st. writable (fst (fs_pipes st i)) \<and> writable (fst (fs_pipes st j))
          \<and> snd (fs_pipes st i) = snd (fs_pipes st j) \<longrightarrow> i = j)"

definition refs_ok :: "(nat \<Rightarrow> nat) \<Rightarrow> 'p fd_proc_scheme \<Rightarrow> ('h, 'd, 's) fsys \<Rightarrow> bool" where
  "refs_ok others p st \<longleftrightarrow> pipes_wf st
     \<and> (\<forall>f. Some f \<in> set (fd_table p) \<longrightarrow> valid_file st f)
     \<and> (\<forall>i \<ge> fs_npipes st. others i = 0)
     \<and> (\<forall>i < fs_npipes st. writable (fst (fs_pipes st i)) \<longrightarrow>
          write_end (fs_rings st (snd (fs_pipes st i))) = Some (pipe_refs p i + others i))"

text \<open>A change of the files that does not touch the pipes' structure or counts.\<close>

definition pipes_same :: "('h, 'd, 's) fsys \<Rightarrow> ('h, 'd, 's) fsys \<Rightarrow> bool" where
  "pipes_same st st' \<longleftrightarrow> fs_npipes st' = fs_npipes st \<and> fs_nrings st' = fs_nrings st
     \<and> (\<forall>i. writable (fst (fs_pipes st' i)) = writable (fst (fs_pipes st i))
          \<and> snd (fs_pipes st' i) = snd (fs_pipes st i))
     \<and> (\<forall>r. write_end (fs_rings st' r) = write_end (fs_rings st r))"

lemma pipes_same_refs: "refs_ok others p st \<Longrightarrow> pipes_same st st' \<Longrightarrow> refs_ok others p st'"
  by (auto simp: refs_ok_def pipes_same_def pipes_wf_def valid_file_def)

lemma pipes_same_upd [simp]:
  "pipes_same st (st\<lparr>fs_mem := m\<rparr>)"
  "pipes_same st (st\<lparr>fs_fat := s\<rparr>)"
  "pipes_same st (st\<lparr>fs_mem := m, fs_fat := s\<rparr>)"
  "pipes_same st (snd (new_inode ino st))"
  by (auto simp: pipes_same_def new_inode_def)

lemma pipes_same_refl [simp]: "pipes_same st st"
  by (simp add: pipes_same_def)

lemma pipes_same_trans: "pipes_same a b \<Longrightarrow> pipes_same b c \<Longrightarrow> pipes_same a c"
  by (auto simp: pipes_same_def)

text \<open>Only the table of the process matters.\<close>

lemma refs_ok_table: "fd_table p' = fd_table p \<Longrightarrow> refs_ok others p' st = refs_ok others p st"
  by (simp add: refs_ok_def pipe_refs_def)

lemma count_list_append: "count_list (xs @ ys) x = count_list xs x + count_list ys x"
  by (induction xs) auto

lemma count_list_replicate_None: "count_list (replicate n None) (Some x) = 0"
  by (induction n) auto

lemma refs_ok_extend: "refs_ok others (p\<lparr>fd_table := fd_table p @ replicate n None\<rparr>) st = refs_ok others p st"
  by (auto simp: refs_ok_def pipe_refs_def count_list_append count_list_replicate_None)

lemma count_list_update:
  "i < length xs \<Longrightarrow> count_list (xs[i := y]) x + of_bool (xs ! i = x) = count_list xs x + of_bool (y = x)"
proof (induction xs arbitrary: i)
  case (Cons a xs)
  then show ?case using Cons.IH [of "i - 1"] by (cases i) auto
qed simp

text \<open>
  Ownership: a reference in hand is counted in \<open>others\<close>. It is put into an empty slot, taken out of
  a slot, made by \<open>Arc::clone\<close> and given up by \<open>drop\<close>.
\<close>

lemma bump_eval: "bump f others i = others i + of_bool (f = PipeFile i)"
  by (cases f) (auto simp: bump_def)

lemma put_ref:
  assumes r: "refs_ok (bump f others) p st" and v: "valid_file st f"
    and i: "i < length (fd_table p)" "fd_table p ! i = None"
  shows "refs_ok others (p\<lparr>fd_table := (fd_table p)[i := Some f]\<rparr>) st"
proof -
  have c: "count_list ((fd_table p)[i := Some f]) (Some (PipeFile k))
      = count_list (fd_table p) (Some (PipeFile k)) + of_bool (f = PipeFile k)" for k
    using count_list_update [OF i(1), of "Some f" "Some (PipeFile k)"] i(2) by simp
  have "valid_file st g" if "Some g \<in> set ((fd_table p)[i := Some f])" for g
    using that r v set_update_subset_insert [of "fd_table p" i "Some f"] by (auto simp: refs_ok_def)
  with r show ?thesis by (auto simp: refs_ok_def pipe_refs_def c bump_eval add.assoc add.commute)
qed

lemma take_ref:
  assumes r: "refs_ok others p st" and i: "i < length (fd_table p)" "fd_table p ! i = Some f"
  shows "refs_ok (bump f others) (p\<lparr>fd_table := (fd_table p)[i := None]\<rparr>) st" "valid_file st f"
proof -
  have c: "count_list ((fd_table p)[i := None]) (Some (PipeFile k)) + of_bool (f = PipeFile k)
      = count_list (fd_table p) (Some (PipeFile k))" for k
    using count_list_update [OF i(1), of None "Some (PipeFile k)"] i(2) by simp
  show v: "valid_file st f" using r i by (auto simp: refs_ok_def dest: nth_mem)
  have "valid_file st g" if "Some g \<in> set ((fd_table p)[i := None])" for g
    using that r set_update_subset_insert [of "fd_table p" i None] by (auto simp: refs_ok_def)
  moreover have "bump f others k = 0" if "fs_npipes st \<le> k" for k
    using that r v by (auto simp: refs_ok_def valid_file_def bump_eval)
  moreover have "write_end (fs_rings st (snd (fs_pipes st k)))
      = Some (count_list ((fd_table p)[i := None]) (Some (PipeFile k)) + bump f others k)"
    if "k < fs_npipes st" "writable (fst (fs_pipes st k))" for k
    using that r c [of k] by (simp add: refs_ok_def pipe_refs_def bump_eval)
  ultimately show "refs_ok (bump f others) (p\<lparr>fd_table := (fd_table p)[i := None]\<rparr>) st"
    using r by (simp add: refs_ok_def pipe_refs_def)
qed

lemma upd_strong_fields [simp]:
  "fs_npipes (upd_strong g f st) = fs_npipes st" "fs_nrings (upd_strong g f st) = fs_nrings st"
  "fs_pipes (upd_strong g f st) = fs_pipes st" "fs_mem (upd_strong g f st) = fs_mem st"
  by (simp_all add: upd_strong_def split: File.split prod.split)

lemma upd_strong_write_end:
  assumes "pipes_wf st" "valid_file st f" "k < fs_npipes st" "writable (fst (fs_pipes st k))"
  shows "write_end (fs_rings (upd_strong g f st) (snd (fs_pipes st k)))
    = (if f = PipeFile k then map_option g (write_end (fs_rings st (snd (fs_pipes st k))))
       else write_end (fs_rings st (snd (fs_pipes st k))))"
proof (cases f)
  case (PipeFile i)
  obtain e r where e: "fs_pipes st i = (e, r)" by (cases "fs_pipes st i")
  have "i < fs_npipes st" using assms(2) PipeFile by (simp add: valid_file_def)
  then have ik: "i = k" if "writable e" "r = snd (fs_pipes st k)"
    using that assms(1,3,4) e unfolding pipes_wf_def by (metis fst_conv snd_conv)
  show ?thesis
  proof (cases "i = k")
    case True
    with e assms(4) show ?thesis by (simp add: upd_strong_def PipeFile)
  next
    case False
    with ik e show ?thesis by (auto simp: upd_strong_def PipeFile)
  qed
qed (simp_all add: upd_strong_def)

lemma clone_ref:
  assumes r: "refs_ok others p st" and v: "valid_file st f"
  shows "refs_ok (bump f others) p (File_clone f st)" "valid_file (File_clone f st) f"
proof -
  have wf: "pipes_wf st" using r by (simp add: refs_ok_def)
  show "valid_file (File_clone f st) f" using v by (simp add: valid_file_def File_clone_def)
  show "refs_ok (bump f others) p (File_clone f st)"
    using r v upd_strong_write_end [OF wf v, of _ Suc]
    by (auto simp: refs_ok_def pipes_wf_def valid_file_def File_clone_def bump_eval)
qed

lemma drop_ref:
  assumes r: "refs_ok (bump f others) p st" and v: "valid_file st f"
  shows "refs_ok others p (File_drop (Some f) st)"
proof -
  have wf: "pipes_wf st" using r by (simp add: refs_ok_def)
  show ?thesis
    using r v upd_strong_write_end [OF wf v, of _ "\<lambda>n. n - 1"]
    by (auto simp: refs_ok_def pipes_wf_def valid_file_def File_drop_def bump_eval split: if_splits)
qed

lemma install_ref:
  assumes r: "refs_ok (bump f others) p st" and v: "valid_file st f" and i: "install_fd f p = Inr (fd, p')"
  shows "refs_ok others p' st"
proof -
  obtain k q where a: "alloc_fd p = (k, q)" "k < length (fd_table q)" "fd_table q ! k = None"
    "q = p \<or> q = p\<lparr>fd_table := fd_table p @ [None]\<rparr>" using alloc_fd_spec [of p] by blast
  have "refs_ok (bump f others) q st" using a(4) r refs_ok_extend [of "bump f others" p 1 st] by auto
  from put_ref [OF this v a(2,3)] i a(1,2) show ?thesis by (auto simp: install_fd_def store_at_def)
qed

lemma new_pipe_ref:
  assumes r: "refs_ok others p st" and n: "new_pipe st = (i, j, st')"
  shows "refs_ok (bump (PipeFile j) (bump (PipeFile i) others)) p st'"
    "valid_file st' (PipeFile i)" "valid_file st' (PipeFile j)"
proof -
  have f: "i = fs_npipes st" "j = fs_npipes st + 1" "fs_npipes st' = fs_npipes st + 2"
    "fs_nrings st' = fs_nrings st + 1"
    "fs_pipes st' = (fs_pipes st)(i := (read_end_with_buffer, fs_nrings st), j := (write_end_with_buffer, fs_nrings st))"
    "fs_rings st' = (fs_rings st)(fs_nrings st := set_write_end 1 PipeRingBuffer_new)"
    using n by (auto simp: new_pipe_def make_pipe_def Let_def)
  show "valid_file st' (PipeFile i)" "valid_file st' (PipeFile j)" using f by (auto simp: valid_file_def)
  have ring: "snd (fs_pipes st k) < fs_nrings st" if "k < fs_npipes st" for k
    using that r by (simp add: refs_ok_def pipes_wf_def)
  have cnt: "pipe_refs p k = 0" if "fs_npipes st \<le> k" for k
  proof -
    have "Some (PipeFile k) \<notin> set (fd_table p)" using that r by (fastforce simp: refs_ok_def valid_file_def)
    then show ?thesis by (simp add: pipe_refs_def)
  qed
  have split: "k < fs_npipes st + 2 \<longleftrightarrow> k < fs_npipes st \<or> k = i \<or> k = j" for k using f by auto
  have pi: "fs_pipes st' i = (read_end_with_buffer, fs_nrings st)" "fs_pipes st' j = (write_end_with_buffer, fs_nrings st)"
    "\<And>k. k < fs_npipes st \<Longrightarrow> fs_pipes st' k = fs_pipes st k" using f(1,2,5) by simp_all
  have "pipes_wf st'"
    unfolding pipes_wf_def f(3,4) split
  proof (intro conjI allI impI)
    fix k assume "k < fs_npipes st \<or> k = i \<or> k = j"
    then show "snd (fs_pipes st' k) < fs_nrings st + 1" using pi ring by fastforce
  next
    fix k l
    assume k: "k < fs_npipes st \<or> k = i \<or> k = j" and l: "l < fs_npipes st \<or> l = i \<or> l = j"
      and w: "writable (fst (fs_pipes st' k)) \<and> writable (fst (fs_pipes st' l)) \<and> snd (fs_pipes st' k) = snd (fs_pipes st' l)"
    have "k \<noteq> i" "l \<noteq> i" using w pi(1) by (auto simp: read_end_with_buffer_def)
    moreover have "k = l" if "k < fs_npipes st" "l < fs_npipes st"
      using that w pi(3) r by (simp add: refs_ok_def pipes_wf_def)
    moreover have False if "k = j" "l < fs_npipes st" using that w pi(2,3) ring [of l] by simp
    moreover have False if "l = j" "k < fs_npipes st" using that w pi(2,3) ring [of k] by simp
    ultimately show "k = l" using k l by blast
  qed
  moreover have "valid_file st' g" if "Some g \<in> set (fd_table p)" for g
    using that r by (auto simp: refs_ok_def valid_file_def f(3) intro: less_trans)
  moreover have "write_end (fs_rings st' (snd (fs_pipes st' k)))
      = Some (pipe_refs p k + bump (PipeFile j) (bump (PipeFile i) others) k)"
    if "k < fs_npipes st'" "writable (fst (fs_pipes st' k))" for k
  proof (cases "k < fs_npipes st")
    case True
    then show ?thesis using that r ring [OF True] by (auto simp: refs_ok_def f bump_eval)
  next
    case False
    moreover have "k \<noteq> i" using that(2) pi(1) by (auto simp: read_end_with_buffer_def)
    ultimately have "k = j" using that(1) unfolding f(3) split by blast
    then show ?thesis using cnt [of j] r f(1,2)
      by (auto simp: f(5,6) set_write_end_def bump_eval refs_ok_def)
  qed
  ultimately show "refs_ok (bump (PipeFile j) (bump (PipeFile i) others)) p st'"
    using r f(1-3) by (auto simp: refs_ok_def bump_eval)
qed

section \<open>Every call keeps the counts\<close>

text \<open>Reading and writing leave the counts alone.\<close>

lemma read_byte_write_end: "read_byte rb = Inr (b, rb') \<Longrightarrow> write_end rb' = write_end rb"
  by (auto simp: read_byte_def Let_def result_simps split: if_splits)

lemma write_byte_write_end: "write_byte b rb = Inr rb' \<Longrightarrow> write_end rb' = write_end rb"
  by (auto simp: write_byte_def Let_def result_simps split: if_splits)

lemma pipe_read_for_write_end: "pipe_read_for n (c, rb, m) = Inr (r, c', rb', m') \<Longrightarrow> write_end rb' = write_end rb"
proof (induction n arbitrary: c rb m)
  case (Suc n)
  then show ?case
    by (auto simp: result_simps Let_def split: option.splits if_splits dest!: read_byte_write_end)
qed simp

lemma pipe_write_for_write_end: "pipe_write_for n m (c, rb) = Inr (r, c', rb') \<Longrightarrow> write_end rb' = write_end rb"
proof (induction n arbitrary: c rb)
  case (Suc n)
  then show ?case
    by (auto simp: result_simps Let_def split: option.splits if_splits dest!: write_byte_write_end)
qed simp

lemma pipe_read_round_write_end:
  "pipe_read_round p (c, rb, m) = Inr (r, c', rb', m') \<Longrightarrow> write_end rb' = write_end rb"
  by (auto simp: pipe_read_round_def result_simps split: if_splits dest: pipe_read_for_write_end)

lemma pipe_write_round_write_end:
  "pipe_write_round p m (c, rb) = Inr (r, c', rb') \<Longrightarrow> write_end rb' = write_end rb"
  by (auto simp: pipe_write_round_def result_simps split: if_splits dest: pipe_write_for_write_end)

lemma pipe_read_run_write_end:
  assumes "pipe_read_run p s = Some (Inr (out, rb', m'))"
  shows "write_end rb' = write_end (fst (snd s))"
proof -
  have "\<forall>out rb' m'. y = Inr (out, rb', m') \<longrightarrow> write_end rb' = write_end (fst (snd s))"
    if "pipe_read_run p s = Some y" for y
  proof (rule pipe_read_run.raw_induct [OF _ that])
    fix run p s y
    assume IH: "\<And>p s y. run p s = Some y \<Longrightarrow> \<forall>out rb' m'. y = Inr (out, rb', m') \<longrightarrow> write_end rb' = write_end (fst (snd s))"
      and y: "(case pipe_read_round p s of Inl e \<Rightarrow> Some (Inl e)
        | Inr (r, c, rb, m) \<Rightarrow> (case r of Return n \<Rightarrow> Some (Inr (Done n, rb, m))
             | Suspend \<Rightarrow> Some (Inr (Waiting c, rb, m)) | Continue \<Rightarrow> run p (c, rb, m))) = Some y"
    obtain c rb m where s: "s = (c, rb, m)" by (cases s) auto
    show "\<forall>out rb' m'. y = Inr (out, rb', m') \<longrightarrow> write_end rb' = write_end (fst (snd s))"
      using y IH unfolding s
      by (fastforce split: sum.splits prod.splits round.splits dest: pipe_read_round_write_end)
  qed
  with assms show ?thesis by blast
qed

lemma pipe_write_run_write_end:
  assumes "pipe_write_run p m s = Some (Inr (out, rb'))"
  shows "write_end rb' = write_end (snd s)"
proof -
  have "\<forall>out rb'. y = Inr (out, rb') \<longrightarrow> write_end rb' = write_end (snd s)"
    if "pipe_write_run p m s = Some y" for y
  proof (rule pipe_write_run.raw_induct [OF _ that])
    fix run p m s y
    assume IH: "\<And>p m s y. run p m s = Some y \<Longrightarrow> \<forall>out rb'. y = Inr (out, rb') \<longrightarrow> write_end rb' = write_end (snd s)"
      and y: "(case pipe_write_round p m s of Inl e \<Rightarrow> Some (Inl e)
        | Inr (r, c, rb) \<Rightarrow> (case r of Return n \<Rightarrow> Some (Inr (Done n, rb))
             | Suspend \<Rightarrow> Some (Inr (Waiting c, rb)) | Continue \<Rightarrow> run p m (c, rb))) = Some y"
    obtain c rb where s: "s = (c, rb)" by (cases s) auto
    show "\<forall>out rb'. y = Inr (out, rb') \<longrightarrow> write_end rb' = write_end (snd s)"
      using y IH unfolding s
      by (fastforce split: sum.splits prod.splits round.splits dest: pipe_write_round_write_end)
  qed
  with assms show ?thesis by blast
qed

lemma File_read_same: "File_read fs f buf st = Some (Inr (out, st')) \<Longrightarrow> pipes_same st st'"
  by (auto simp: File_read_def pipes_same_def elim!: obindE rbindE split: File.splits prod.splits
      dest!: pipe_read_run_write_end)

lemma File_write_same: "File_write u fs f buf st = Some (Inr (out, st')) \<Longrightarrow> pipes_same st st'"
  by (auto simp: File_write_def pipes_same_def elim!: obindE rbindE split: File.splits prod.splits
      dest!: pipe_write_run_write_end)

text \<open>The calls that touch neither the table nor a pipe.\<close>

lemma sys_getcwd_same: "sys_getcwd token buf len p st = oret (r, p', st') \<Longrightarrow> p' = p \<and> pipes_same st st'"
  by (auto simp: sys_getcwd_def Let_def elim!: obindE rbindE split: if_splits)

lemma sys_chdir_same:
  "sys_chdir fs token path p st = oret (r, p', st') \<Longrightarrow> fd_table p' = fd_table p \<and> pipes_same st st'"
  by (auto simp: sys_chdir_def Let_def new_inode_def pipes_same_def elim!: obindE rbindE split: prod.splits sum.splits)

lemma sys_mkdirat_same:
  "sys_mkdirat fs token dirfd path mode p st = oret (r, p', st') \<Longrightarrow> p' = p \<and> pipes_same st st'"
  by (auto simp: sys_mkdirat_def Let_def pipes_same_def elim!: obindE rbindE split: prod.splits sum.splits option.splits)

lemma sys_getdents64_same:
  "sys_getdents64 fs pad token fd buf len p st = oret (r, p', st') \<Longrightarrow> p' = p \<and> pipes_same st st'"
  by (auto simp: sys_getdents64_def Let_def pipes_same_def elim!: obindE rbindE split: prod.splits sum.splits option.splits list.splits if_splits)

lemma sys_fstat_same: "sys_fstat token fd statbuf p st = oret (r, p', st') \<Longrightarrow> p' = p \<and> pipes_same st st'"
  by (auto simp: sys_fstat_def pipes_same_def elim!: obindE rbindE split: option.splits)

lemma sys_unlinkat_same:
  "sys_unlinkat fs token dirfd path flags p st = oret (r, p', st') \<Longrightarrow> p' = p \<and> pipes_same st st'"
  by (auto simp: sys_unlinkat_def Let_def pipes_same_def elim!: obindE rbindE split: prod.splits option.splits if_splits)

lemma sys_umount2_same:
  "sys_umount2 fs token target flags p st = oret (r, p', st') \<Longrightarrow> p' = p \<and> pipes_same st st'"
  by (auto simp: sys_umount2_def pipes_same_def elim!: obindE rbindE split: prod.splits sum.splits if_splits)

lemma sys_mount_same:
  "sys_mount fs token src tgt ty mf data p st = oret (r, p', st') \<Longrightarrow> p' = p \<and> pipes_same st st'"
  by (auto simp: sys_mount_def pipes_same_def elim!: obindE rbindE split: prod.splits sum.splits if_splits)

lemmas fs_same = sys_getcwd_same sys_chdir_same sys_mkdirat_same sys_getdents64_same sys_fstat_same
  sys_unlinkat_same sys_umount2_same sys_mount_same

text \<open>The calls that open a file.\<close>

lemma install_inode_ref: "refs_ok others p st \<Longrightarrow> install_fd (InodeFile i) p = Inr (fd, p') \<Longrightarrow> refs_ok others p' st"
  using install_ref [of "InodeFile i" others p st fd p'] by (simp add: bump_def valid_file_def)

lemma sys_open_refs:
  assumes "refs_ok others p st" "sys_open fs token path flags p st = oret (r, p', st')"
  shows "refs_ok others p' st'"
proof -
  have "pipes_same st st' \<and> (p' = p \<or> (\<exists>i fd. install_fd (InodeFile i) p = Inr (fd, p')))"
    using assms(2)
    by (auto simp: sys_open_def Let_def new_inode_def pipes_same_def elim!: obindE rbindE split: prod.splits option.splits)
  then show ?thesis using assms(1) by (blast intro: install_inode_ref pipes_same_refs)
qed

lemma sys_openat_refs:
  assumes "refs_ok others p st" "sys_openat fs token dirfd path flags mode p st = oret (r, p', st')"
  shows "refs_ok others p' st'"
proof -
  have "pipes_same st st' \<and> (p' = p \<or> (\<exists>i fd. install_fd (InodeFile i) p = Inr (fd, p')))"
    using assms(2)
    by (auto simp: sys_openat_def Let_def new_inode_def pipes_same_def elim!: obindE rbindE split: prod.splits option.splits if_splits)
  then show ?thesis using assms(1) by (blast intro: install_inode_ref pipes_same_refs)
qed

text \<open>The calls that move references.\<close>

lemma table_valid: "refs_ok others p st \<Longrightarrow> fd_map p i = Some f \<Longrightarrow> valid_file st f"
  by (auto simp: refs_ok_def fd_map_def split: if_splits dest: nth_mem)

lemma sys_dup_None: "fd_map p (unat fd) = None \<Longrightarrow> sys_dup fd p st = oret (- 1, p, st)"
  by (auto simp: sys_dup_def fd_map_def split: if_splits option.splits)

lemma sys_dup_refs:
  assumes r: "refs_ok others p st" and s: "sys_dup fd p st = oret (v, p', st')"
  shows "refs_ok others p' st'"
proof (cases "fd_map p (unat fd)")
  case None
  then show ?thesis using r s by (simp add: sys_dup_None)
next
  case (Some f)
  from clone_ref [OF r table_valid [OF r Some]] sys_dup_install [OF Some, of st] s
  show ?thesis by (auto intro: install_ref)
qed

lemma sys_close_refs:
  assumes r: "refs_ok others p st" and s: "sys_close fd p st = oret (v, p', st')"
  shows "refs_ok others p' st'"
proof (cases "unat fd < length (fd_table p) \<and> fd_table p ! unat fd \<noteq> None")
  case False
  with r s show ?thesis by (auto simp: sys_close_def split: if_splits option.splits)
next
  case True
  then obtain f where f: "unat fd < length (fd_table p)" "fd_table p ! unat fd = Some f" by auto
  from drop_ref [OF take_ref [OF r f]] s f show ?thesis by (auto simp: sys_close_def)
qed

lemma replace_ref:
  assumes r: "refs_ok (bump f others) p st" and v: "valid_file st f" and i: "i < length (fd_table p)"
  shows "refs_ok others (p\<lparr>fd_table := (fd_table p)[i := Some f]\<rparr>) (File_drop (fd_table p ! i) st)"
proof (cases "fd_table p ! i")
  case None
  with put_ref [OF r v i] show ?thesis by (simp add: File_drop_def)
next
  case (Some g)
  note t = take_ref [OF r i Some]
  have "bump g (bump f others) = bump f (bump g others)" by (auto simp: fun_eq_iff bump_eval)
  with t(1) have "refs_ok (bump g others) (p\<lparr>fd_table := (fd_table p)[i := Some f]\<rparr>) st"
    using put_ref [OF _ v, of "bump g others" "p\<lparr>fd_table := (fd_table p)[i := None]\<rparr>" i] i by simp
  from drop_ref [OF this t(2)] Some show ?thesis by simp
qed

lemma sys_dup3_refused:
  "flags \<noteq> 0 \<or> fd_map p (unat old_fd) = None \<Longrightarrow> sys_dup3 old_fd new_fd flags p st = oret (- 1, p, st)"
  by (auto simp: sys_dup3_def fd_map_def split: if_splits option.splits)

lemma sys_dup3_self:
  "fd_map p (unat fd) = Some f \<Longrightarrow> sys_dup3 fd fd 0 p st = oret (- 1, p, File_drop (Some f) (File_clone f st))"
  by (auto simp: sys_dup3_def fd_map_def not_le Let_def split: if_splits)

lemma sys_dup3_max:
  assumes "fd_map p (unat old_fd) = Some f" "old_fd \<noteq> - 1" "length (fd_table p) < 2 ^ 64"
  shows "sys_dup3 old_fd (- 1) 0 p st = Some (Inl Index_Out_Of_Range)"
proof -
  have "unat (- 1 :: usize) = 2 ^ 64 - 1" using unat_minus_word [of 1] by simp
  then have "length (fd_table p) \<le> unat (- 1 :: usize)" using assms(3) by simp
  then show ?thesis using assms(1,2)
    by (auto simp: sys_dup3_def fd_map_def not_le Let_def vec_resize_def index_at_def split: if_splits)
qed

lemma sys_dup3_refs:
  assumes r: "refs_ok others p st" and s: "sys_dup3 old_fd new_fd flags p st = oret (v, p', st')"
    and len: "length (fd_table p) < 2 ^ 64"
  shows "refs_ok others p' st'"
proof (cases "flags \<noteq> 0 \<or> fd_map p (unat old_fd) = None")
  case True
  from sys_dup3_refused [OF this, of new_fd st] s r show ?thesis by auto
next
  case False
  then obtain f where f: "fd_map p (unat old_fd) = Some f" "flags = 0" by auto
  note c = clone_ref [OF r table_valid [OF r f(1)]]
  show ?thesis
  proof (cases "old_fd = new_fd")
    case True
    then show ?thesis using s drop_ref [OF c] f sys_dup3_self [OF f(1), of st] by simp
  next
    case neq: False
    then have "new_fd \<noteq> - 1" using sys_dup3_max [OF f(1) _ len, of st] s f(2) by auto
    from sys_dup3_ok [OF f(1) neq this, of st] s f(2)
    obtain n where n: "unat new_fd < length (fd_table p @ replicate n None)"
      "p' = p\<lparr>fd_table := (fd_table p @ replicate n None)[unat new_fd := Some f]\<rparr>"
      "st' = File_drop ((fd_table p @ replicate n None) ! unat new_fd) (File_clone f st)" by auto
    let ?p = "p\<lparr>fd_table := fd_table p @ replicate n None\<rparr>"
    have "refs_ok (bump f others) ?p (File_clone f st)" using c(1) by (simp add: refs_ok_extend)
    from replace_ref [OF this c(2), of "unat new_fd"] n show ?thesis by simp
  qed
qed

lemma pipe_set_nonblocking_same: "pipes_same st (pipe_set_nonblocking nb i st)"
  by (auto simp: pipes_same_def pipe_set_nonblocking_def set_nonblocking_def)

lemma sys_pipe2_refs:
  assumes r: "refs_ok others p st" and s: "sys_pipe2 token pipefd flags p st = oret (v, p', st')"
  shows "refs_ok others p' st'"
proof (cases "p' = p \<and> st' = st")
  case True
  with r show ?thesis by simp
next
  case False
  obtain i j st1 where n: "new_pipe st = (i, j, st1)" by (metis prod_cases3)
  from s False n obtain fd1 p1 fd2 where i1: "install_fd (PipeFile i) p = Inr (fd1, p1)"
    and i2: "install_fd (PipeFile j) p1 = Inr (fd2, p')" and st': "pipes_same st1 st'"
    by (auto simp: sys_pipe2_def Let_def elim!: obindE rbindE split: option.splits if_splits;
        (auto simp: pipes_same_def pipe_set_nonblocking_def set_nonblocking_def; fail)?)
  note np = new_pipe_ref [OF r n]
  have "bump (PipeFile j) (bump (PipeFile i) others) = bump (PipeFile i) (bump (PipeFile j) others)"
    by (auto simp: fun_eq_iff bump_eval)
  with np have "refs_ok (bump (PipeFile j) others) p1 st1" by (auto intro: install_ref [OF _ _ i1])
  from install_ref [OF this np(3) i2] st' show ?thesis by (rule pipes_same_refs)
qed

lemma sys_read_refs:
  assumes r: "refs_ok others p st" and s: "sys_read fs token fd buf len p st = oret (out, p', st')"
  shows "p' = p" "out = Inl v \<Longrightarrow> refs_ok others p st'"
    "out = Inr c \<Longrightarrow> \<exists>f. get_fd p fd = Some f \<and> refs_ok (bump f others) p st'"
proof -
  show "p' = p" using s by (auto simp: sys_read_def Let_def elim!: obindE split: if_splits option.splits io_outcome.splits)
  show "refs_ok others p st'" if o: "out = Inl v"
  proof (cases "fd_map p (unat fd)")
    case None
    then show ?thesis using r s by (auto simp: sys_read_def fd_map_def split: if_splits)
  next
    case (Some f)
    note c = clone_ref [OF r table_valid [OF r Some]]
    obtain st1 where st1: "pipes_same (File_clone f st) st1" "st' = File_drop (Some f) st1"
      using s Some o
      by (auto simp: sys_read_def fd_map_def Let_def not_le elim!: obindE split: if_splits io_outcome.splits
          dest!: File_read_same intro: pipes_same_refl)
    have "valid_file st1 f" using c(2) st1(1) by (auto simp: valid_file_def pipes_same_def)
    with drop_ref [OF pipes_same_refs [OF c(1) st1(1)]] st1(2) show ?thesis by simp
  qed
  show "\<exists>f. get_fd p fd = Some f \<and> refs_ok (bump f others) p st'" if o: "out = Inr c"
  proof (cases "fd_map p (unat fd)")
    case None
    then show ?thesis using s o by (auto simp: sys_read_def fd_map_def split: if_splits)
  next
    case (Some f)
    note c = clone_ref [OF r table_valid [OF r Some]]
    have "pipes_same (File_clone f st) st'"
      using s Some o
      by (auto simp: sys_read_def fd_map_def Let_def not_le elim!: obindE split: if_splits io_outcome.splits
          dest!: File_read_same)
    from pipes_same_refs [OF c(1) this] Some show ?thesis by (auto simp: get_fd_def fd_map_def split: if_splits)
  qed
qed

lemma sys_write_refs:
  assumes r: "refs_ok others p st" and s: "sys_write u fs token fd buf len p st = oret (out, p', st')"
  shows "p' = p" "out = Inl v \<Longrightarrow> refs_ok others p st'"
    "out = Inr c \<Longrightarrow> \<exists>f. get_fd p fd = Some f \<and> refs_ok (bump f others) p st'"
proof -
  show "p' = p" using s by (auto simp: sys_write_def Let_def elim!: obindE split: if_splits option.splits io_outcome.splits)
  show "refs_ok others p st'" if o: "out = Inl v"
  proof (cases "\<exists>f. fd_map p (unat fd) = Some f \<and> File_writable f st")
    case False
    then show ?thesis using r s by (auto simp: sys_write_def fd_map_def split: if_splits option.splits)
  next
    case True
    then obtain f where Some: "fd_map p (unat fd) = Some f" "File_writable f st" by auto
    note c = clone_ref [OF r table_valid [OF r Some(1)]]
    obtain st1 where st1: "pipes_same (File_clone f st) st1" "st' = File_drop (Some f) st1"
      using s Some o
      by (auto simp: sys_write_def fd_map_def Let_def not_le elim!: obindE split: if_splits io_outcome.splits
          dest!: File_write_same)
    have "valid_file st1 f" using c(2) st1(1) by (auto simp: valid_file_def pipes_same_def)
    with drop_ref [OF pipes_same_refs [OF c(1) st1(1)]] st1(2) show ?thesis by simp
  qed
  show "\<exists>f. get_fd p fd = Some f \<and> refs_ok (bump f others) p st'" if o: "out = Inr c"
  proof (cases "fd_map p (unat fd)")
    case None
    then show ?thesis using s o by (auto simp: sys_write_def fd_map_def split: if_splits)
  next
    case (Some f)
    note c = clone_ref [OF r table_valid [OF r Some]]
    have "pipes_same (File_clone f st) st'"
      using s Some o
      by (auto simp: sys_write_def fd_map_def Let_def not_le elim!: obindE split: if_splits io_outcome.splits
          dest!: File_write_same)
    from pipes_same_refs [OF c(1) this] Some show ?thesis by (auto simp: get_fd_def fd_map_def split: if_splits)
  qed
qed

section \<open>Steps of a process and of its environment\<close>

text \<open>
  The file system calls of the current process, in any order and with any arguments; \<open>clone\<close> and
  \<open>drop\<close> are the references other processes and waiting calls gain and give up. A table never
  reaches the size of the address space.
\<close>

inductive fd_step ::
  "(u8 list \<Rightarrow> string option) \<Rightarrow> ('h, 'd, 's) fatfs
     \<Rightarrow> (nat \<Rightarrow> nat) \<times> 'p fd_proc_scheme \<times> ('h, 'd, 's) fsys
     \<Rightarrow> (nat \<Rightarrow> nat) \<times> 'p fd_proc_scheme \<times> ('h, 'd, 's) fsys \<Rightarrow> bool" for u fs where
  getcwd: "sys_getcwd token buf len p st = oret (r, p', st') \<Longrightarrow> fd_step u fs (n, p, st) (n, p', st')"
| chdir: "sys_chdir fs token path p st = oret (r, p', st') \<Longrightarrow> fd_step u fs (n, p, st) (n, p', st')"
| mkdirat: "sys_mkdirat fs token dirfd path mode p st = oret (r, p', st') \<Longrightarrow> fd_step u fs (n, p, st) (n, p', st')"
| getdents64: "sys_getdents64 fs pad token fd buf len p st = oret (r, p', st') \<Longrightarrow> fd_step u fs (n, p, st) (n, p', st')"
| fstat: "sys_fstat token fd statbuf p st = oret (r, p', st') \<Longrightarrow> fd_step u fs (n, p, st) (n, p', st')"
| unlinkat: "sys_unlinkat fs token dirfd path flags p st = oret (r, p', st') \<Longrightarrow> fd_step u fs (n, p, st) (n, p', st')"
| umount2: "sys_umount2 fs token tgt flags p st = oret (r, p', st') \<Longrightarrow> fd_step u fs (n, p, st) (n, p', st')"
| mount: "sys_mount fs token src tgt ty mf data p st = oret (r, p', st') \<Longrightarrow> fd_step u fs (n, p, st) (n, p', st')"
| open_: "sys_open fs token path flags p st = oret (r, p', st') \<Longrightarrow> fd_step u fs (n, p, st) (n, p', st')"
| openat: "sys_openat fs token dirfd path flags mode p st = oret (r, p', st') \<Longrightarrow> fd_step u fs (n, p, st) (n, p', st')"
| dup: "sys_dup fd p st = oret (r, p', st') \<Longrightarrow> fd_step u fs (n, p, st) (n, p', st')"
| dup3: "sys_dup3 fd fd' flags p st = oret (r, p', st') \<Longrightarrow> length (fd_table p) < 2 ^ 64
    \<Longrightarrow> fd_step u fs (n, p, st) (n, p', st')"
| close: "sys_close fd p st = oret (r, p', st') \<Longrightarrow> fd_step u fs (n, p, st) (n, p', st')"
| pipe2: "sys_pipe2 token pipefd flags p st = oret (r, p', st') \<Longrightarrow> fd_step u fs (n, p, st) (n, p', st')"
| read_done: "sys_read fs token fd buf len p st = oret (Inl r, p', st') \<Longrightarrow> fd_step u fs (n, p, st) (n, p', st')"
| read_wait: "sys_read fs token fd buf len p st = oret (Inr c, p', st') \<Longrightarrow> get_fd p fd = Some f
    \<Longrightarrow> fd_step u fs (n, p, st) (bump f n, p', st')"
| write_done: "sys_write u fs token fd buf len p st = oret (Inl r, p', st') \<Longrightarrow> fd_step u fs (n, p, st) (n, p', st')"
| write_wait: "sys_write u fs token fd buf len p st = oret (Inr c, p', st') \<Longrightarrow> get_fd p fd = Some f
    \<Longrightarrow> fd_step u fs (n, p, st) (bump f n, p', st')"
| clone: "valid_file st f \<Longrightarrow> fd_step u fs (n, p, st) (bump f n, p, File_clone f st)"
| drop: "valid_file st f \<Longrightarrow> fd_step u fs (bump f n, p, st) (n, p, File_drop (Some f) st)"

lemma fd_step_refs:
  assumes "fd_step u fs a b" and "case a of (n, p, st) \<Rightarrow> refs_ok n p st"
  shows "case b of (n, p, st) \<Rightarrow> refs_ok n p st"
  using assms
proof (induction rule: fd_step.induct)
  case (chdir token path p st r p' st' n)
  then show ?case using refs_ok_table [of p' p n st'] by (auto dest!: sys_chdir_same intro: pipes_same_refs)
next
  case (read_wait token fd buf len p st c p' st' f n)
  then show ?case using sys_read_refs(1,3) [of n p st fs token fd buf len "Inr c" p' st'] by auto
next
  case (write_wait token fd buf len p st c p' st' f n)
  then show ?case using sys_write_refs(1,3) [of n p st u fs token fd buf len "Inr c" p' st'] by auto
qed (auto dest: fs_same sys_open_refs sys_openat_refs sys_dup_refs sys_dup3_refs sys_close_refs sys_pipe2_refs
      sys_read_refs sys_write_refs intro: pipes_same_refs clone_ref drop_ref)

lemma fd_steps_refs:
  assumes "(fd_step u fs)\<^sup>*\<^sup>* a b" and "case a of (n, p, st) \<Rightarrow> refs_ok n p st"
  shows "case b of (n, p, st) \<Rightarrow> refs_ok n p st"
  using assms
proof (induction rule: rtranclp_induct)
  case (step y z)
  show ?case by (rule fd_step_refs [OF step.hyps(2)]) (rule step.IH [OF step.prems])
qed

section \<open>Properties\<close>


definition example_fds :: fd_proc where
  "example_fds = \<lparr>cwd = ''/'', cwd_inode = InodeFile 0, fd_table = [Some Stdin, Some Stdout, None, Some Stdout]\<rparr>"

definition example_files :: "(nat, unit, u8 list) fsys" where
  "example_files = snd (snd (new_pipe
     \<lparr>fs_mem = (\<lambda>_. 0), fs_fat = [], fs_inodes = (\<lambda>_. current_root_inode ram_fs), fs_ninodes = 1,
      fs_pipes = (\<lambda>_. (read_end_with_buffer, 0)), fs_npipes = 0, fs_rings = (\<lambda>_. PipeRingBuffer_new),
      fs_nrings = 0, fs_console_in = [], fs_console_out = []\<rparr>))"


text \<open>
  C25. A reader of a pipe sees the end of the data exactly when nothing refers to its write end any
  more. Through any sequence of file system calls of a process (opening, duplicating, closing,
  creating pipes, reading and writing, with calls that wait) and of references taken and given up
  elsewhere, the count in the ring of a pipe is the number of descriptors of the process that refer
  to the write end plus the references of others.\<close>

theorem pipe_eof_iff_unreferenced:
  assumes "refs_ok others p st" and "(fd_step u fs)\<^sup>*\<^sup>* (others, p, st) (others', p', st')"
    and "w < fs_npipes st'" and "writable (fst (fs_pipes st' w))"
  shows "all_write_ends_closed (fs_rings st' (snd (fs_pipes st' w)))
    = Inr (\<not> (\<exists>fd. fd_map p' fd = Some (PipeFile w)) \<and> others' w = 0)"
proof -
  have "refs_ok others' p' st'" using fd_steps_refs [OF assms(2)] assms(1) by simp
  then have "write_end (fs_rings st' (snd (fs_pipes st' w))) = Some (pipe_refs p' w + others' w)"
    using assms(3,4) by (simp add: refs_ok_def)
  moreover have "pipe_refs p' w = 0 \<longleftrightarrow> \<not> (\<exists>fd. fd_map p' fd = Some (PipeFile w))"
    by (auto simp: pipe_refs_def fd_map_def count_list_0_iff in_set_conv_nth)
  ultimately show ?thesis by (auto simp: all_write_ends_closed_def)
qed

definition example_ends :: fd_proc where
  "example_ends = \<lparr>cwd = ''/'', cwd_inode = InodeFile 0, fd_table = [Some (PipeFile 0), Some (PipeFile 1)]\<rparr>"

theorem pipe_eof_iff_unreferenced_witness:
  "all_write_ends_closed (fs_rings example_files 0) = Inr False
   \<and> all_write_ends_closed (fs_rings (File_drop (Some (PipeFile 1)) example_files) 0) = Inr True"
proof -
  let ?p = "example_ends\<lparr>fd_table := [Some (PipeFile 0), None]\<rparr>"
  let ?st = "File_drop (Some (PipeFile 1)) example_files"
  have ok: "refs_ok (\<lambda>_. 0) example_ends example_files"
    by (auto simp: refs_ok_def pipes_wf_def valid_file_def pipe_refs_def example_ends_def example_files_def
        new_pipe_def make_pipe_def read_end_with_buffer_def write_end_with_buffer_def set_write_end_def
        Let_def less_Suc_eq numeral_2_eq_2)
  have f: "fs_npipes example_files = 2" "fs_pipes example_files (Suc 0) = (write_end_with_buffer, 0)"
    by (simp_all add: example_files_def new_pipe_def make_pipe_def)
  have none: "fd_map ?p fd \<noteq> Some (PipeFile (Suc 0))" for fd
    by (auto simp: fd_map_def less_Suc_eq)
  have "sys_close 1 example_ends example_files = oret (0, ?p, ?st)"
    by (simp add: sys_close_def example_ends_def)
  then have "(fd_step (\<lambda>_. None) ram_fs)\<^sup>*\<^sup>* ((\<lambda>_. 0), example_ends, example_files) ((\<lambda>_. 0), ?p, ?st)"
    by (blast intro: fd_step.close)
  from pipe_eof_iff_unreferenced [OF ok this, of "Suc 0"] none
  have "all_write_ends_closed (fs_rings ?st 0) = Inr True"
    by (simp add: f File_drop_def write_end_with_buffer_def)
  moreover have "\<exists>fd. fd_map example_ends fd = Some (PipeFile (Suc 0))"
    by (intro exI [of _ 1]) (simp add: fd_map_def example_ends_def)
  then have "all_write_ends_closed (fs_rings example_files 0) = Inr False"
    using pipe_eof_iff_unreferenced [OF ok rtranclp.rtrancl_refl, of "Suc 0"]
    by (simp add: f write_end_with_buffer_def)
  ultimately show ?thesis by simp
qed

text \<open>\<open>fstat\<close> panics on a descriptor beyond the table and on a standard stream.\<close>

lemma fstat_panics:
  "fd \<noteq> AT_FDCWD \<Longrightarrow> length (fd_table p) \<le> unat fd \<Longrightarrow> sys_fstat token fd buf p st = Some (Inl Index_Out_Of_Range)"
  "fd \<noteq> AT_FDCWD \<Longrightarrow> fd_map p (unat fd) \<in> {Some Stdin, Some Stdout} \<Longrightarrow>
     sys_fstat token fd buf p st = Some (Inl Explicit_Panic)"
  by (auto simp: sys_fstat_def index_at_def fd_map_def File_get_stat_def split: if_splits)

end
