(* ===== verification/Process.thy ===== *)
theory Process
  imports Fs_Syscalls Sync Signal Memory_Set
begin

text \<open>
  Processes and threads: \<open>os/src/task/process.rs\<close>, \<open>os/src/task/task.rs\<close>, the process part of
  \<open>os/src/task/{mod,manager,processor}.rs\<close>, \<open>os/src/hal/arch/riscv/kernel_stack.rs\<close> and
  \<open>os/src/hal/arch/riscv/trap/context.rs\<close>. Process and task control blocks live in stores, as
  they are shared through \<open>Arc\<close> and \<open>Weak\<close>: \<open>upgrade\<close> of a \<open>Weak\<close> is \<open>None\<close> once the block has been
  freed. The kernel state extends the scheduler's; the values of linker symbols, of the \<open>sstatus\<close>
  register and the third-party crates are the record \<open>kenv\<close>.
\<close>

section \<open>Trap contexts\<close>

text \<open>The 32 general registers in the order of \<open>GeneralRegs\<close>.\<close>

record TrapContext =
  general_regs :: "usize list"
  tc_sstatus :: usize
  tc_sepc :: usize
  tc_kernel_satp :: usize
  tc_kernel_sp :: usize
  tc_trap_handler :: usize

definition reg_sp :: nat where "reg_sp = 2"
definition reg_a0 :: nat where "reg_a0 = 10"
definition reg_a1 :: nat where "reg_a1 = 11"

definition set_reg :: "nat \<Rightarrow> usize \<Rightarrow> TrapContext \<Rightarrow> TrapContext" where
  "set_reg r v cx = cx\<lparr>general_regs := (general_regs cx)[r := v]\<rparr>"

definition set_sp :: "usize \<Rightarrow> TrapContext \<Rightarrow> TrapContext" where
  "set_sp sp cx = set_reg reg_sp sp cx"

text \<open>\<open>sstatus\<close> as read, with the previous privilege (bit 8) set to user.\<close>

definition app_init_context :: "usize \<Rightarrow> usize \<Rightarrow> usize \<Rightarrow> usize \<Rightarrow> usize \<Rightarrow> usize \<Rightarrow> TrapContext" where
  "app_init_context sstatus pc sp kernel_satp kernel_sp trap_handler =
     set_sp sp
       \<lparr>general_regs = replicate 32 0, tc_sstatus = sstatus AND NOT 0x100, tc_sepc = pc,
        tc_kernel_satp = kernel_satp, tc_kernel_sp = kernel_sp, tc_trap_handler = trap_handler\<rparr>"

definition TrapContext_bytes :: "TrapContext \<Rightarrow> u8 list" where
  "TrapContext_bytes cx =
     concat (map to_le_bytes (general_regs cx
       @ [tc_sstatus cx, tc_sepc cx, tc_kernel_satp cx, tc_kernel_sp cx, tc_trap_handler cx]))"

text \<open>The addresses of fields of a trap context at \<open>a\<close>.\<close>

definition reg_addr :: "usize \<Rightarrow> nat \<Rightarrow> usize" where "reg_addr a r = a + of_nat (8 * r)"
definition sepc_addr :: "usize \<Rightarrow> usize" where "sepc_addr a = a + 264"
definition kernel_sp_addr :: "usize \<Rightarrow> usize" where "kernel_sp_addr a = a + 280"

section \<open>Process control blocks\<close>

record Rusage =
  ru_utime :: TimeVal
  ru_stime :: TimeVal
  ru_cutime :: TimeVal
  ru_cstime :: TimeVal

definition Rusage_new :: Rusage where
  "Rusage_new = \<lparr>ru_utime = TimeVal_new, ru_stime = TimeVal_new, ru_cutime = TimeVal_new, ru_cstime = TimeVal_new\<rparr>"

record ProcClock =
  last_enter_u_mode :: TimeVal
  last_enter_s_mode :: TimeVal

definition ProcClock_new :: "usize \<Rightarrow> ProcClock" where
  "ProcClock_new tick = (let now = TimeVal_now tick in \<lparr>last_enter_u_mode = now, last_enter_s_mode = now\<rparr>)"

datatype mutex_ref = SpinMutex nat | BlockingMutex nat

record PCB = fd_proc +
  pcb_pid :: PidHandle
  is_zombie :: bool
  memory_set :: MemorySet
  parent :: "nat option"
  children :: "nat list"
  exit_code :: i32
  signals :: SignalFlags
  tasks :: "task option list"
  task_res_allocator :: RecycleAllocator
  mutex_list :: "mutex_ref option list"
  semaphore_list :: "nat option list"
  condvar_list :: "nat option list"
  rusage :: Rusage
  clock :: ProcClock
  timer :: ITimerVal
  tgid :: usize

definition getpid :: "PCB \<Rightarrow> usize" where "getpid p = pid0 (pcb_pid p)"

definition get_user_token :: "PCB \<Rightarrow> usize" where "get_user_token p = MemorySet_token (memory_set p)"

definition thread_count :: "PCB \<Rightarrow> nat" where "thread_count p = length (tasks p)"

definition get_task :: "PCB \<Rightarrow> nat \<Rightarrow> task result" where
  "get_task p tid = rbind (index_at (tasks p) tid) unwrap"

definition add_signal :: "SignalFlags \<Rightarrow> PCB \<Rightarrow> PCB" where
  "add_signal sig p = p\<lparr>signals := signals p OR sig\<rparr>"

definition PCB_alloc_tid :: "PCB \<Rightarrow> usize \<times> PCB" where
  "PCB_alloc_tid p = (case RecycleAllocator_alloc (task_res_allocator p) of (i, a) \<Rightarrow> (i, p\<lparr>task_res_allocator := a\<rparr>))"

definition PCB_dealloc_tid :: "usize \<Rightarrow> PCB \<Rightarrow> PCB result" where
  "PCB_dealloc_tid tid p =
     rbind (RecycleAllocator_dealloc (task_res_allocator p) tid) (\<lambda>a. Inr (p\<lparr>task_res_allocator := a\<rparr>))"

section \<open>Time accounting\<close>

definition update_itimer_real_if_exists :: "TimeVal \<Rightarrow> PCB \<Rightarrow> PCB" where
  "update_itimer_real_if_exists diff p =
     (if \<not> TimeVal_is_zero (it_value (timer p)) then
        (let p = p\<lparr>timer := (timer p)\<lparr>it_value := TimeVal_sub (it_value (timer p)) diff\<rparr>\<rparr> in
         if TimeVal_is_zero (it_value (timer p)) then
           (add_signal SIGALRM p)\<lparr>timer := (timer p)\<lparr>it_value := it_interval (timer p)\<rparr>\<rparr>
         else p)
      else p)"

definition update_process_times_enter_trap :: "usize \<Rightarrow> PCB \<Rightarrow> PCB" where
  "update_process_times_enter_trap tick p =
     (let now = TimeVal_now tick;
          p = p\<lparr>clock := (clock p)\<lparr>last_enter_s_mode := now\<rparr>\<rparr>;
          diff = TimeVal_sub now (last_enter_u_mode (clock p))
      in p\<lparr>rusage := (rusage p)\<lparr>ru_utime := TimeVal_add (ru_utime (rusage p)) diff\<rparr>\<rparr>)"

definition update_process_times_leave_trap :: "usize \<Rightarrow> PCB \<Rightarrow> PCB" where
  "update_process_times_leave_trap tick p =
     (let now = TimeVal_now tick;
          p = update_itimer_real_if_exists (TimeVal_sub now (last_enter_u_mode (clock p))) p;
          diff = TimeVal_sub now (last_enter_s_mode (clock p));
          p = p\<lparr>rusage := (rusage p)\<lparr>ru_stime := TimeVal_add (ru_stime (rusage p)) diff\<rparr>\<rparr>
      in p\<lparr>clock := (clock p)\<lparr>last_enter_u_mode := now\<rparr>\<rparr>)"

section \<open>The kernel state\<close>

record ('h, 'd, 's) kenv =
  env_strampoline :: usize
  env_trap_handler :: usize
  env_trap_return :: usize
  env_sstatus :: usize
  env_parse :: "u8 list \<Rightarrow> ElfFile option"
  env_fs :: "('h, 'd, 's) fatfs"
  env_from_utf8 :: "u8 list \<Rightarrow> string option"

record ('h, 'd, 's) kernel = sched +
  k_mm :: mm
  k_files :: "('h, 'd, 's) fsys"          \<comment> \<open>its memory field is unused\<close>
  kernel_space :: MemorySet
  pid_allocator :: RecycleAllocator
  kstack_allocator :: RecycleAllocator
  procs :: "nat \<Rightarrow> PCB option"
  next_proc :: nat
  pid2pcb :: "usize \<Rightarrow> nat option"
  initproc :: nat
  k_timers :: "TimerCondVar list"
  k_spins :: "nat \<Rightarrow> MutexSpin"
  k_mutexes :: "nat \<Rightarrow> MutexBlockingInner"
  k_semaphores :: "nat \<Rightarrow> SemaphoreInner"
  k_condvars :: "nat \<Rightarrow> CondvarInner"
  next_sync :: nat

text \<open>The files with the memory of the machine, and back.\<close>

definition files_of :: "('h, 'd, 's) kernel \<Rightarrow> ('h, 'd, 's) fsys" where
  "files_of k = (k_files k)\<lparr>fs_mem := mm_mem (k_mm k)\<rparr>"

definition put_files :: "('h, 'd, 's) fsys \<Rightarrow> ('h, 'd, 's) kernel \<Rightarrow> ('h, 'd, 's) kernel" where
  "put_files st k = k\<lparr>k_files := st, k_mm := (k_mm k)\<lparr>mm_mem := fs_mem st\<rparr>\<rparr>"

definition put_mem :: "memory \<Rightarrow> ('h, 'd, 's) kernel \<Rightarrow> ('h, 'd, 's) kernel" where
  "put_mem m k = k\<lparr>k_mm := (k_mm k)\<lparr>mm_mem := m\<rparr>\<rparr>"

text \<open>\<open>Weak::upgrade().unwrap()\<close>, and a change of the fields behind \<open>inner_exclusive_access()\<close>.\<close>

definition get_proc :: "nat \<Rightarrow> ('h, 'd, 's) kernel \<Rightarrow> PCB result" where
  "get_proc p k = unwrap (procs k p)"

definition upd_proc :: "nat \<Rightarrow> (PCB \<Rightarrow> PCB) \<Rightarrow> ('h, 'd, 's) kernel \<Rightarrow> ('h, 'd, 's) kernel" where
  "upd_proc p f k = k\<lparr>procs := (procs k)(p := map_option f (procs k p))\<rparr>"

definition upd_tcb :: "task \<Rightarrow> (TaskControlBlock \<Rightarrow> TaskControlBlock) \<Rightarrow> ('h, 'd, 's) kernel \<Rightarrow> ('h, 'd, 's) kernel" where
  "upd_tcb t f k = k\<lparr>tcbs := (tcbs k)(t := f (tcbs k t))\<rparr>"

text \<open>An operation on the address space of a process.\<close>

definition on_memory_set ::
  "nat \<Rightarrow> (MemorySet \<times> mm \<Rightarrow> (MemorySet \<times> mm) result) \<Rightarrow> ('h, 'd, 's) kernel \<Rightarrow> ('h, 'd, 's) kernel result" where
  "on_memory_set p f k =
     rbind (get_proc p k) (\<lambda>pcb.
     rbind (f (memory_set pcb, k_mm k)) (\<lambda>(ms, st).
     Inr ((upd_proc p (\<lambda>pcb. pcb\<lparr>memory_set := ms\<rparr>) k)\<lparr>k_mm := st\<rparr>)))"

section \<open>Kernel stacks\<close>

definition kstack_alloc :: "('h, 'd, 's) kernel \<Rightarrow> (KernelStack \<times> ('h, 'd, 's) kernel) result" where
  "kstack_alloc k =
     (case RecycleAllocator_alloc (kstack_allocator k) of (kstack_id, a) \<Rightarrow>
      case kernel_stack_position kstack_id of (kstack_bottom, kstack_top) \<Rightarrow>
      rbind (insert_framed_area (VirtAddr_from kstack_bottom) (VirtAddr_from kstack_top)
               (MapPermission_R OR MapPermission_W) (kernel_space k, k_mm k)) (\<lambda>(ms, st).
      Inr (KernelStack kstack_id, k\<lparr>kstack_allocator := a, kernel_space := ms, k_mm := st\<rparr>)))"

definition KernelStack_drop :: "KernelStack \<Rightarrow> ('h, 'd, 's) kernel \<Rightarrow> ('h, 'd, 's) kernel result" where
  "KernelStack_drop ks k =
     (case kernel_stack_position (kstack0 ks) of (kernel_stack_bottom, _) \<Rightarrow>
      rbind (VirtPageNum_from_VirtAddr (VirtAddr_from kernel_stack_bottom)) (\<lambda>vpn.
      rbind (remove_area_with_start_vpn vpn (kernel_space k, k_mm k)) (\<lambda>(ms, st).
      rbind (RecycleAllocator_dealloc (kstack_allocator k) (kstack0 ks)) (\<lambda>a.
      Inr (k\<lparr>kernel_space := ms, k_mm := st, kstack_allocator := a\<rparr>)))))"

section \<open>User resources of a thread\<close>

definition alloc_user_res :: "TaskUserRes \<Rightarrow> ('h, 'd, 's) kernel \<Rightarrow> ('h, 'd, 's) kernel result" where
  "alloc_user_res r k =
     (let ustack_bottom = ustack_bottom_from_tid (ur_tid r);
          ustack_top = ustack_bottom + USER_STACK_SIZE;
          trap_cx_bottom = trap_cx_bottom_from_tid (ur_tid r);
          trap_cx_top = trap_cx_bottom + PAGE_SIZE
      in rbind (on_memory_set (ur_process r)
           (insert_framed_area (VirtAddr_from ustack_bottom) (VirtAddr_from ustack_top)
              (MapPermission_R OR MapPermission_W OR MapPermission_U)) k) (\<lambda>k.
         on_memory_set (ur_process r)
           (insert_framed_area (VirtAddr_from trap_cx_bottom) (VirtAddr_from trap_cx_top)
              (MapPermission_R OR MapPermission_W)) k))"

definition dealloc_user_res :: "TaskUserRes \<Rightarrow> ('h, 'd, 's) kernel \<Rightarrow> ('h, 'd, 's) kernel result" where
  "dealloc_user_res r k =
     rbind (VirtPageNum_from_VirtAddr (VirtAddr_from (ustack_bottom_from_tid (ur_tid r)))) (\<lambda>vpn.
     rbind (on_memory_set (ur_process r) (remove_area_with_start_vpn vpn) k) (\<lambda>k.
     rbind (VirtPageNum_from_VirtAddr (VirtAddr_from (trap_cx_bottom_from_tid (ur_tid r)))) (\<lambda>vpn.
     on_memory_set (ur_process r) (remove_area_with_start_vpn vpn) k)))"

definition dealloc_tid :: "TaskUserRes \<Rightarrow> ('h, 'd, 's) kernel \<Rightarrow> ('h, 'd, 's) kernel result" where
  "dealloc_tid r k =
     rbind (get_proc (ur_process r) k) (\<lambda>pcb.
     rbind (PCB_dealloc_tid (ur_tid r) pcb) (\<lambda>pcb.
     Inr (upd_proc (ur_process r) (\<lambda>_. pcb) k)))"

definition TaskUserRes_drop :: "TaskUserRes \<Rightarrow> ('h, 'd, 's) kernel \<Rightarrow> ('h, 'd, 's) kernel result" where
  "TaskUserRes_drop r k = rbind (dealloc_tid r k) (dealloc_user_res r)"

definition TaskUserRes_new ::
  "nat \<Rightarrow> bool \<Rightarrow> ('h, 'd, 's) kernel \<Rightarrow> (TaskUserRes \<times> ('h, 'd, 's) kernel) result" where
  "TaskUserRes_new p alloc k =
     rbind (get_proc p k) (\<lambda>pcb.
     case PCB_alloc_tid pcb of (tid, pcb) \<Rightarrow>
     (let k = upd_proc p (\<lambda>_. pcb) k;
          r = \<lparr>ur_tid = tid, ur_process = p\<rparr>
      in if alloc then rbind (alloc_user_res r k) (\<lambda>k. Inr (r, k)) else Inr (r, k)))"

definition TaskUserRes_alloc_tid ::
  "TaskUserRes \<Rightarrow> ('h, 'd, 's) kernel \<Rightarrow> (TaskUserRes \<times> ('h, 'd, 's) kernel) result" where
  "TaskUserRes_alloc_tid r k =
     rbind (get_proc (ur_process r) k) (\<lambda>pcb.
     case PCB_alloc_tid pcb of (tid, pcb) \<Rightarrow> Inr (r\<lparr>ur_tid := tid\<rparr>, upd_proc (ur_process r) (\<lambda>_. pcb) k))"

definition trap_cx_user_va :: "TaskUserRes \<Rightarrow> usize" where
  "trap_cx_user_va r = trap_cx_bottom_from_tid (ur_tid r)"

definition trap_cx_ppn :: "TaskUserRes \<Rightarrow> ('h, 'd, 's) kernel \<Rightarrow> PhysPageNum result" where
  "trap_cx_ppn r k =
     rbind (get_proc (ur_process r) k) (\<lambda>pcb.
     rbind (VirtPageNum_from_VirtAddr (VirtAddr_from (trap_cx_bottom_from_tid (ur_tid r)))) (\<lambda>vpn.
     rbind (unwrap (MemorySet_translate (memory_set pcb) vpn (mm_mem (k_mm k)))) (\<lambda>e.
     Inr (PageTableEntry_ppn e))))"

definition ustack_base :: "TaskUserRes \<Rightarrow> usize" where "ustack_base r = UserStackBase"

definition ustack_top :: "TaskUserRes \<Rightarrow> usize" where
  "ustack_top r = ustack_bottom_from_tid (ur_tid r) + USER_STACK_SIZE"

section \<open>Task control blocks\<close>

definition TaskControlBlock_new ::
  "('h, 'd, 's) kenv \<Rightarrow> nat \<Rightarrow> usize \<Rightarrow> bool \<Rightarrow> ('h, 'd, 's) kernel \<Rightarrow> (task \<times> ('h, 'd, 's) kernel) result" where
  "TaskControlBlock_new E p base alloc k =
     rbind (TaskUserRes_new p alloc k) (\<lambda>(res, k).
     rbind (trap_cx_ppn res k) (\<lambda>ppn.
     rbind (kstack_alloc k) (\<lambda>(kstack, k).
     let kstack_top = KernelStack_get_top kstack
     in Inr (tcb_alloc
          \<lparr>tcb_process = p, tcb_kstack = kstack, tcb_res = Some res, tcb_trap_cx_ppn = ppn,
           tcb_cx = goto_trap_return (env_trap_return E) kstack_top, tcb_status = Ready,
           tcb_exit_code = None\<rparr> k))))"

text \<open>\<open>TaskControlBlockInner::get_trap_cx\<close>: the address of the trap context.\<close>

definition get_trap_cx :: "task \<Rightarrow> ('h, 'd, 's) kernel \<Rightarrow> usize result" where
  "get_trap_cx t k = PhysAddr_get_mut (PhysAddr_from_PhysPageNum (tcb_trap_cx_ppn (tcbs k t)))"

definition TCB_get_user_token :: "task \<Rightarrow> ('h, 'd, 's) kernel \<Rightarrow> usize result" where
  "TCB_get_user_token t k =
     rbind (get_proc (tcb_process (tcbs k t)) k) (\<lambda>pcb. Inr (get_user_token pcb))"

text \<open>
  A control block is freed when its last \<open>Arc\<close> goes: the references are those of the ready queue,
  of the processor, of the processes, of the timers and of the wait queues.
\<close>

definition task_referenced :: "task \<Rightarrow> ('h, 'd, 's) kernel \<Rightarrow> bool" where
  "task_referenced t k \<longleftrightarrow>
     t \<in> set (ready_queue k) \<or> current k = Some t
     \<or> list_ex (\<lambda>p. case procs k p of None \<Rightarrow> False | Some pcb \<Rightarrow> Some t \<in> set (tasks pcb)) [0..<next_proc k]
     \<or> list_ex (\<lambda>c. tm_task c = t) (k_timers k)
     \<or> list_ex (\<lambda>i. t \<in> set (mb_wait_queue (k_mutexes k i)) \<or> t \<in> set (sem_wait_queue (k_semaphores k i))
                   \<or> t \<in> set (cv_wait_queue (k_condvars k i))) [0..<next_sync k]"

definition TaskControlBlock_drop :: "task \<Rightarrow> ('h, 'd, 's) kernel \<Rightarrow> ('h, 'd, 's) kernel result" where
  "TaskControlBlock_drop t k =
     rbind (KernelStack_drop (tcb_kstack (tcbs k t)) k) (\<lambda>k.
     case tcb_res (tcbs k t) of None \<Rightarrow> Inr k | Some r \<Rightarrow> TaskUserRes_drop r k)"

definition release_task :: "task \<Rightarrow> ('h, 'd, 's) kernel \<Rightarrow> ('h, 'd, 's) kernel result" where
  "release_task t k = (if task_referenced t k then Inr k else TaskControlBlock_drop t k)"

section \<open>The processor's view\<close>

definition current_process :: "('h, 'd, 's) kernel \<Rightarrow> nat result" where
  "current_process k =
     rbind (unwrap (current_task k)) (\<lambda>t.
     rbind (get_proc (tcb_process (tcbs k t)) k) (\<lambda>_. Inr (tcb_process (tcbs k t))))"

definition current_user_token :: "('h, 'd, 's) kernel \<Rightarrow> usize result" where
  "current_user_token k = rbind (unwrap (current_task k)) (\<lambda>t. TCB_get_user_token t k)"

definition current_trap_cx :: "('h, 'd, 's) kernel \<Rightarrow> usize result" where
  "current_trap_cx k = rbind (unwrap (current_task k)) (\<lambda>t. get_trap_cx t k)"

definition current_trap_cx_user_va :: "('h, 'd, 's) kernel \<Rightarrow> usize result" where
  "current_trap_cx_user_va k =
     rbind (unwrap (current_task k)) (\<lambda>t.
     rbind (unwrap (tcb_res (tcbs k t))) (\<lambda>r. Inr (trap_cx_user_va r)))"

definition current_kstack_top :: "('h, 'd, 's) kernel \<Rightarrow> usize result" where
  "current_kstack_top k = rbind (unwrap (current_task k)) (\<lambda>t. Inr (KernelStack_get_top (tcb_kstack (tcbs k t))))"

section \<open>The table of processes\<close>

definition pid2process :: "usize \<Rightarrow> ('h, 'd, 's) kernel \<Rightarrow> nat option" where
  "pid2process pid k = pid2pcb k pid"

definition insert_into_pid2process :: "usize \<Rightarrow> nat \<Rightarrow> ('h, 'd, 's) kernel \<Rightarrow> ('h, 'd, 's) kernel" where
  "insert_into_pid2process pid p k = k\<lparr>pid2pcb := (pid2pcb k)(pid := Some p)\<rparr>"

definition remove_from_pid2process :: "usize \<Rightarrow> ('h, 'd, 's) kernel \<Rightarrow> ('h, 'd, 's) kernel result" where
  "remove_from_pid2process pid k =
     (if pid2pcb k pid = None then Inl Explicit_Panic else Inr (k\<lparr>pid2pcb := (pid2pcb k)(pid := None)\<rparr>))"

text \<open>\<open>find_map\<close> over the ready queue; a task whose process is gone is skipped.\<close>

definition find_by_pid :: "usize \<Rightarrow> ('h, 'd, 's) kernel \<Rightarrow> task option" where
  "find_by_pid pid k =
     find (\<lambda>t. case procs k (tcb_process (tcbs k t)) of None \<Rightarrow> False | Some pcb \<Rightarrow> getpid pcb = pid) (ready_queue k)"

definition find_task_by_pid :: "usize \<Rightarrow> ('h, 'd, 's) kernel \<Rightarrow> task option result" where
  "find_task_by_pid pid k =
     rbind (unwrap (current_task k)) (\<lambda>t.
     rbind (get_proc (tcb_process (tcbs k t)) k) (\<lambda>pcb.
     Inr (if getpid pcb = pid then Some t else find_by_pid pid k)))"

text \<open>\<open>Arc::new\<close> of a process control block.\<close>

definition proc_alloc :: "PCB \<Rightarrow> ('h, 'd, 's) kernel \<Rightarrow> nat \<times> ('h, 'd, 's) kernel" where
  "proc_alloc pcb k = (next_proc k, k\<lparr>procs := (procs k)(next_proc k := Some pcb), next_proc := next_proc k + 1\<rparr>)"

section \<open>\<open>ProcessControlBlock::new\<close>\<close>

definition PCB_new ::
  "('h, 'd, 's) kenv \<Rightarrow> usize \<Rightarrow> u8 list \<Rightarrow> ('h, 'd, 's) kernel \<Rightarrow> (nat \<times> ('h, 'd, 's) kernel) result" where
  "PCB_new E tick elf_data k =
     rbind (MemorySet_from_elf (env_strampoline E) (env_parse E) elf_data (k_mm k)) (\<lambda>((ms, entry_point), st).
     let k = k\<lparr>k_mm := st\<rparr>;
         (pid_handle, a) = pid_alloc (pid_allocator k);
         k = k\<lparr>pid_allocator := a\<rparr>;
         (root, files) = new_inode (current_root_inode (env_fs E)) (k_files k);
         (p, k) = proc_alloc
           \<lparr>cwd = ''/'', cwd_inode = root, fd_table = [Some Stdin, Some Stdout, Some Stdout],
            pcb_pid = pid_handle, is_zombie = False, memory_set = ms, parent = None, children = [],
            exit_code = 0, signals = SignalFlags_EMPTY, tasks = [], task_res_allocator = RecycleAllocator_new,
            mutex_list = [], semaphore_list = [], condvar_list = [], rusage = Rusage_new,
            clock = ProcClock_new tick, timer = ITimerVal_new, tgid = pid0 pid_handle\<rparr>
           (k\<lparr>k_files := files\<rparr>)
     in rbind (TaskControlBlock_new E p UserStackBase True k) (\<lambda>(t, k).
        rbind (get_trap_cx t k) (\<lambda>cx.
        rbind (unwrap (tcb_res (tcbs k t))) (\<lambda>r.
        let kstack_top = KernelStack_get_top (tcb_kstack (tcbs k t));
            k = put_mem (write_bytes (mm_mem (k_mm k)) cx (TrapContext_bytes
                  (app_init_context (env_sstatus E) entry_point (ustack_top r)
                     (MemorySet_token (kernel_space k)) kstack_top (env_trap_handler E)))) k;
            k = upd_proc p (\<lambda>pcb. pcb\<lparr>tasks := tasks pcb @ [Some t]\<rparr>) k;
            k = insert_into_pid2process (pid0 pid_handle) p k
        in Inr (p, add_task t k)))))"

section \<open>The initial process\<close>

definition clear_bss :: "usize \<Rightarrow> usize \<Rightarrow> memory \<Rightarrow> memory" where
  "clear_bss bss_start bss_end m = write_bytes m bss_start (replicate (unat (bss_end - bss_start)) 0)"

text \<open>\<open>INITPROC\<close>, made on its first use by \<open>add_initproc\<close>.\<close>

definition add_initproc ::
  "('h, 'd, 's) kenv \<Rightarrow> usize \<Rightarrow> ('h, 'd, 's) kernel \<Rightarrow> ('h, 'd, 's) kernel result option" where
  "add_initproc E tick k =
     (case open_initproc (env_fs E) OpenFlags_RDONLY (fs_fat (k_files k)) of (inode, s) \<Rightarrow>
      obind (Some (unwrap inode)) (\<lambda>inode.
      obind (OSInode_read_all (env_fs E) inode s) (\<lambda>(v, _, s).
      obind (Some (PCB_new E tick v (k\<lparr>k_files := (k_files k)\<lparr>fs_fat := s\<rparr>\<rparr>))) (\<lambda>(p, k).
      oret (k\<lparr>initproc := p\<rparr>)))))"

section \<open>\<open>exec\<close>\<close>

text \<open>
  The argument strings, as bytes, below the vector of their addresses: first all entries of the
  vector are translated, then the strings are written one below the other.
\<close>

fun push_arg_bytes :: "usize \<Rightarrow> usize \<Rightarrow> u8 list \<Rightarrow> memory \<Rightarrow> memory result" where
  "push_arg_bytes token p [] m = rbind (translated_refmut m token p) (\<lambda>a. Inr (m(a := 0)))"
| "push_arg_bytes token p (c # cs) m =
     rbind (translated_refmut m token p) (\<lambda>a. push_arg_bytes token (p + 1) cs (m(a := c)))"

fun push_args :: "usize \<Rightarrow> (usize \<times> u8 list) list \<Rightarrow> usize \<Rightarrow> memory \<Rightarrow> (usize \<times> memory) result" where
  "push_args token [] user_sp m = Inr (user_sp, m)"
| "push_args token ((slot, arg) # rest) user_sp m =
     (let user_sp = user_sp - (of_nat (length arg) + 1) in
      rbind (push_arg_bytes token user_sp arg (write_u64 m slot user_sp)) (push_args token rest user_sp))"

fun translate_all :: "usize \<Rightarrow> memory \<Rightarrow> usize list \<Rightarrow> usize list result" where
  "translate_all token m [] = Inr []"
| "translate_all token m (va # vas) =
     rbind (translated_refmut m token va) (\<lambda>a. rbind (translate_all token m vas) (\<lambda>as. Inr (a # as)))"

definition exec_push_args ::
  "usize \<Rightarrow> u8 list list \<Rightarrow> usize \<Rightarrow> memory \<Rightarrow> (usize \<times> usize \<times> memory) result" where
  "exec_push_args token args user_sp m =
     (let user_sp = user_sp - (of_nat (length args) + 1) * 8;
          argv_base = user_sp
      in rbind (translate_all token m (map (\<lambda>i. argv_base + of_nat i * 8) [0..<length args + 1])) (\<lambda>argv.
         rbind (index_at argv (length args)) (\<lambda>last.
         let m = write_u64 m last 0 in
         rbind (push_args token (zip argv args) user_sp m) (\<lambda>(user_sp, m).
         Inr (user_sp - user_sp mod 8, argv_base, m)))))"

definition PCB_exec ::
  "('h, 'd, 's) kenv \<Rightarrow> nat \<Rightarrow> u8 list \<Rightarrow> u8 list list \<Rightarrow> ('h, 'd, 's) kernel \<Rightarrow> ('h, 'd, 's) kernel result" where
  "PCB_exec E p elf_data args k =
     rbind (get_proc p k) (\<lambda>pcb.
     rbind (rassert (thread_count pcb = 1)) (\<lambda>_.
     rbind (MemorySet_from_elf (env_strampoline E) (env_parse E) elf_data (k_mm k)) (\<lambda>((ms, entry_point), st).
     let new_token = MemorySet_token ms in
     rbind (MemorySet_drop (memory_set pcb) st) (\<lambda>st.
     let k = (upd_proc p (\<lambda>pcb. pcb\<lparr>memory_set := ms\<rparr>) k)\<lparr>k_mm := st\<rparr> in
     rbind (get_task pcb 0) (\<lambda>t.
     rbind (unwrap (tcb_res (tcbs k t))) (\<lambda>r.
     rbind (alloc_user_res r k) (\<lambda>k.
     rbind (trap_cx_ppn r k) (\<lambda>ppn.
     let k = upd_tcb t (\<lambda>b. b\<lparr>tcb_trap_cx_ppn := ppn\<rparr>) k in
     rbind (exec_push_args new_token args (ustack_top r) (mm_mem (k_mm k))) (\<lambda>(user_sp, argv_base, m).
     let k = put_mem m k;
         cx = app_init_context (env_sstatus E) entry_point user_sp (MemorySet_token (kernel_space k))
                (KernelStack_get_top (tcb_kstack (tcbs k t))) (env_trap_handler E);
         cx = set_reg reg_a1 argv_base (set_reg reg_a0 (of_nat (length args)) cx)
     in rbind (get_trap_cx t k) (\<lambda>a.
        Inr (put_mem (write_bytes (mm_mem (k_mm k)) a (TrapContext_bytes cx)) k)))))))))))"

section \<open>\<open>sys_clone\<close> of the control block\<close>

text \<open>Cloning the table clones every \<open>Arc\<close> in it.\<close>

definition clone_fd_table :: "File option list \<Rightarrow> ('h, 'd, 's) fsys \<Rightarrow> ('h, 'd, 's) fsys" where
  "clone_fd_table t st = fold (\<lambda>f st. case f of None \<Rightarrow> st | Some f \<Rightarrow> File_clone f st) t st"

definition PCB_sys_clone ::
  "('h, 'd, 's) kenv \<Rightarrow> usize \<Rightarrow> nat \<Rightarrow> SignalFlags \<Rightarrow> ('h, 'd, 's) kernel \<Rightarrow> (nat \<times> ('h, 'd, 's) kernel) result" where
  "PCB_sys_clone E tick self exit_signal k =
     rbind (get_proc self k) (\<lambda>par.
     rbind (rassert (thread_count par = 1)) (\<lambda>_.
     rbind (MemorySet_from_existed_user (env_strampoline E) (memory_set par) (k_mm k)) (\<lambda>(ms, st).
     let ms = ms\<lparr>heap_start := heap_start (memory_set par), brk := brk (memory_set par)\<rparr>;
         k = k\<lparr>k_mm := st\<rparr>;
         (pid_handle, a) = pid_alloc (pid_allocator k);
         k = k\<lparr>pid_allocator := a, k_files := clone_fd_table (fd_table par) (k_files k)\<rparr>;
         (child, k) = proc_alloc
           \<lparr>cwd = cwd par, cwd_inode = cwd_inode par, fd_table = fd_table par,
            pcb_pid = pid_handle, is_zombie = False, memory_set = ms, parent = Some self, children = [],
            exit_code = exit_signal, signals = SignalFlags_EMPTY, tasks = [],
            task_res_allocator = RecycleAllocator_new,
            mutex_list = [], semaphore_list = [], condvar_list = [], rusage = Rusage_new,
            clock = ProcClock_new tick, timer = ITimerVal_new, tgid = pid0 pid_handle\<rparr> k;
         k = upd_proc self (\<lambda>pcb. pcb\<lparr>children := children pcb @ [child]\<rparr>) k
     in rbind (get_task par 0) (\<lambda>parent_task.
        rbind (unwrap (tcb_res (tcbs k parent_task))) (\<lambda>res.
        rbind (TaskControlBlock_new E child (ustack_base res) False k) (\<lambda>(t, k).
        let k = upd_proc child (\<lambda>pcb. pcb\<lparr>tasks := tasks pcb @ [Some t]\<rparr>) k in
        rbind (get_trap_cx t k) (\<lambda>cx.
        let k = put_mem (write_u64 (mm_mem (k_mm k)) (kernel_sp_addr cx) (KernelStack_get_top (tcb_kstack (tcbs k t)))) k;
            k = insert_into_pid2process (pid0 pid_handle) child k
        in Inr (child, add_task t k))))))))"

section \<open>Exit\<close>

text \<open>
  \<open>fd_table.clear()\<close> and the references of the tasks of the process. The result \<open>None\<close> is the
  machine shut down, when the idle process exits.
\<close>

definition drop_fd_table :: "File option list \<Rightarrow> ('h, 'd, 's) fsys \<Rightarrow> ('h, 'd, 's) fsys" where
  "drop_fd_table t st = fold File_drop t st"

text \<open>The children of the process are moved to the initial process.\<close>

definition reparent :: "nat \<Rightarrow> ('h, 'd, 's) kernel \<Rightarrow> ('h, 'd, 's) kernel result" where
  "reparent child k =
     rbind (get_proc child k) (\<lambda>_.
     let k = upd_proc child (\<lambda>c. c\<lparr>parent := Some (initproc k)\<rparr>) k
     in Inr (upd_proc (initproc k) (\<lambda>i. i\<lparr>children := children i @ [child]\<rparr>) k))"

text \<open>The user resources of the remaining threads are taken out first and dropped afterwards.\<close>

fun take_all_res :: "task option list \<Rightarrow> ('h, 'd, 's) kernel \<Rightarrow> TaskUserRes list \<times> ('h, 'd, 's) kernel" where
  "take_all_res [] k = ([], k)"
| "take_all_res (None # ts) k = take_all_res ts k"
| "take_all_res (Some t # ts) k =
     (case tcb_res (tcbs k t) of
        None \<Rightarrow> take_all_res ts k
      | Some r \<Rightarrow>
         (case take_all_res ts (upd_tcb t (\<lambda>b. b\<lparr>tcb_res := None\<rparr>) k) of (rs, k) \<Rightarrow> (r # rs, k)))"

text \<open>\<open>while tasks.len() > 1 { tasks.pop(); }\<close>\<close>

fun pop_tasks :: "nat \<Rightarrow> task option list \<Rightarrow> ('h, 'd, 's) kernel \<Rightarrow> ('h, 'd, 's) kernel result" where
  "pop_tasks p ts k =
     (if length ts > 1 then
        (let k = upd_proc p (\<lambda>pcb. pcb\<lparr>tasks := butlast ts\<rparr>) k in
         rbind (case last ts of None \<Rightarrow> Inr k | Some t \<Rightarrow> release_task t k) (pop_tasks p (butlast ts)))
      else Inr k)"

declare pop_tasks.simps [simp del]

definition exit_process :: "nat \<Rightarrow> i32 \<Rightarrow> ('h, 'd, 's) kernel \<Rightarrow> ('h, 'd, 's) kernel option result" where
  "exit_process p code k =
     rbind (get_proc p k) (\<lambda>pcb.
     if getpid pcb = IDLE_PID then Inr None
     else
       rbind (remove_from_pid2process (getpid pcb) k) (\<lambda>k.
       let k = upd_proc p (\<lambda>pcb. pcb\<lparr>is_zombie := True, exit_code := code\<rparr>) k in
       rbind (if initproc k = p then Inl Borrow_Conflict else Inr ()) (\<lambda>_.
       rbind (rfold reparent (children pcb) k) (\<lambda>k.
       let (recycle_res, k) = take_all_res (tasks pcb) k in
       rbind (rfold TaskUserRes_drop recycle_res k) (\<lambda>k.
       let k = upd_proc p (\<lambda>pcb. pcb\<lparr>children := []\<rparr>) k in
       rbind (on_memory_set p recycle_data_pages k) (\<lambda>k.
       let k = k\<lparr>k_files := drop_fd_table (fd_table pcb) (k_files k)\<rparr>;
           k = upd_proc p (\<lambda>pcb. pcb\<lparr>fd_table := []\<rparr>) k
       in rbind (pop_tasks p (tasks pcb) k) (\<lambda>k. Inr (Some k))))))))"

definition exit_current_and_run_next ::
  "i32 \<Rightarrow> ('h, 'd, 's) kernel \<Rightarrow> ('h, 'd, 's) kernel option result" where
  "exit_current_and_run_next code k =
     (let (cur, k) = take_current_task k in
      rbind (unwrap cur) (\<lambda>t.
      rbind (get_proc (tcb_process (tcbs k t)) k) (\<lambda>_.
      let p = tcb_process (tcbs k t) in
      rbind (unwrap (tcb_res (tcbs k t))) (\<lambda>r.
      let k = upd_tcb t (\<lambda>b. b\<lparr>tcb_exit_code := Some code, tcb_res := None\<rparr>) k in
      rbind (TaskUserRes_drop r k) (\<lambda>k.
      rbind (release_task t k) (\<lambda>k.
      if ur_tid r = 0 then
        rbind (exit_process p code k) (\<lambda>k'. Inr (map_option (schedule Unused_Cx) k'))
      else Inr (Some (schedule Unused_Cx k))))))))"

section \<open>Reaping\<close>

text \<open>
  The last \<open>Arc\<close> of a process goes: its id, its address space, its files and its tasks are given
  back. The children were moved when the process exited.
\<close>

definition PCB_drop :: "nat \<Rightarrow> ('h, 'd, 's) kernel \<Rightarrow> ('h, 'd, 's) kernel result" where
  "PCB_drop p k =
     rbind (get_proc p k) (\<lambda>pcb.
     let k = k\<lparr>procs := (procs k)(p := None)\<rparr> in
     rbind (PidHandle_drop (pcb_pid pcb) (pid_allocator k)) (\<lambda>a.
     rbind (MemorySet_drop (memory_set pcb) (k_mm k)) (\<lambda>st.
     let k = k\<lparr>pid_allocator := a, k_mm := st,
               k_files := drop_fd_table (fd_table pcb) (File_drop (Some (cwd_inode pcb)) (k_files k))\<rparr>
     in rfold (\<lambda>t k. case t of None \<Rightarrow> Inr k | Some t \<Rightarrow> release_task t k) (tasks pcb) k)))"

text \<open>
  \<open>Arc::strong_count\<close> of a process, but for references in local variables: entries in lists of
  children and in the table of processes.
\<close>

definition proc_refs :: "nat \<Rightarrow> ('h, 'd, 's) kernel \<Rightarrow> nat" where
  "proc_refs p k =
     (\<Sum>q \<leftarrow> [0..<next_proc k]. case procs k q of None \<Rightarrow> 0 | Some pcb \<Rightarrow> count_list (children pcb) p)
     + (case procs k p of None \<Rightarrow> 0 | Some pcb \<Rightarrow> if pid2pcb k (getpid pcb) = Some p then 1 else 0)"

section \<open>Signals of the current process\<close>

definition check_signals_of_current :: "('h, 'd, 's) kernel \<Rightarrow> (i32 \<times> string) option result" where
  "check_signals_of_current k =
     rbind (current_process k) (\<lambda>p. rbind (get_proc p k) (\<lambda>pcb. Inr (check_error (signals pcb))))"

definition current_add_signal :: "SignalFlags \<Rightarrow> ('h, 'd, 's) kernel \<Rightarrow> ('h, 'd, 's) kernel result" where
  "current_add_signal sig k = rbind (current_process k) (\<lambda>p. Inr (upd_proc p (add_signal sig) k))"

end
