(* ===== verification/Proc_Syscalls.thy ===== *)
theory Proc_Syscalls
  imports Process
begin

text \<open>
  The process, thread and synchronisation system calls: \<open>os/src/syscall/process.rs\<close>,
  \<open>os/src/syscall/thread.rs\<close> and \<open>os/src/syscall/sync.rs\<close>. A call returns a value to the user
  program, or leaves its task waiting with what it does when it runs again (\<open>wait_call\<close>, carried
  out by \<open>sys_resume\<close>), or ends the task or the machine. The reading of the clock is an argument.
\<close>

section \<open>Outcomes\<close>

datatype wait_call =
    Yielding
  | Reading nat pipe_call            \<comment> \<open>a pipe, the only file that waits\<close>
  | Writing nat pipe_call
  | Waiting4 usize usize u32          \<comment> \<open>pid, status, options\<close>
  | Sleeping TimeSpec usize           \<comment> \<open>the end, and where the rest is stored\<close>
  | Spinning nat                      \<comment> \<open>in \<open>lock\<close> of a spinning mutex\<close>
  | Woken                             \<comment> \<open>blocked; the call returns 0 once woken\<close>
  | Relocking mutex_ref               \<comment> \<open>in \<open>wait\<close> of a condition variable\<close>

datatype sys_out = Ret isize | Wait wait_call | Exited | Shut_Down

type_synonym ('h, 'd, 's) kres = "(sys_out \<times> ('h, 'd, 's) kernel) result option"

text \<open>A call of \<open>syscall/fs.rs\<close> by the current process.\<close>

definition fs_call ::
  "(usize \<Rightarrow> PCB \<Rightarrow> ('h, 'd, 's) fsys \<Rightarrow> (isize \<times> PCB \<times> ('h, 'd, 's) fsys) result option)
     \<Rightarrow> ('h, 'd, 's) kernel \<Rightarrow> ('h, 'd, 's) kres" where
  "fs_call f k =
     obind (Some (current_process k)) (\<lambda>p.
     obind (Some (get_proc p k)) (\<lambda>pcb.
     obind (f (get_user_token pcb) pcb (files_of k)) (\<lambda>(r, pcb, st).
     oret (Ret r, put_files st (upd_proc p (\<lambda>_. pcb) k)))))"

text \<open>\<open>sys_read\<close> and \<open>sys_write\<close>; one that waits has suspended its task.\<close>

definition io_call ::
  "(nat \<Rightarrow> pipe_call \<Rightarrow> wait_call) \<Rightarrow> usize
     \<Rightarrow> (usize \<Rightarrow> PCB \<Rightarrow> ('h, 'd, 's) fsys \<Rightarrow> ((isize + pipe_call) \<times> PCB \<times> ('h, 'd, 's) fsys) result option)
     \<Rightarrow> ('h, 'd, 's) kernel \<Rightarrow> ('h, 'd, 's) kres" where
  "io_call w fd f k =
     obind (Some (current_process k)) (\<lambda>p.
     obind (Some (get_proc p k)) (\<lambda>pcb.
     obind (f (get_user_token pcb) pcb (files_of k)) (\<lambda>(r, pcb', st).
     let k = put_files st (upd_proc p (\<lambda>_. pcb') k) in
     case r of
       Inl v \<Rightarrow> oret (Ret v, k)
     | Inr c \<Rightarrow>
        obind (Some (suspend_current_and_run_next k)) (\<lambda>k.
        case get_fd pcb fd of
          Some (PipeFile i) \<Rightarrow> oret (Wait (w i c), k)
        | _ \<Rightarrow> Some (Inl Explicit_Panic)))))"

section \<open>\<open>syscall/process.rs\<close>\<close>

definition sys_exit :: "i32 \<Rightarrow> ('h, 'd, 's) kernel \<Rightarrow> ('h, 'd, 's) kres" where
  "sys_exit code k =
     Some (rbind (exit_current_and_run_next (push_bit 8 (code AND 0xff)) k) (\<lambda>k'.
     Inr (case k' of None \<Rightarrow> (Shut_Down, k) | Some k \<Rightarrow> (Exited, k))))"

definition sys_yield :: "('h, 'd, 's) kernel \<Rightarrow> ('h, 'd, 's) kres" where
  "sys_yield k = Some (rbind (suspend_current_and_run_next k) (\<lambda>k. Inr (Wait Yielding, k)))"

definition sys_getpid :: "('h, 'd, 's) kernel \<Rightarrow> ('h, 'd, 's) kres" where
  "sys_getpid k =
     Some (rbind (current_process k) (\<lambda>p. rbind (get_proc p k) (\<lambda>pcb. Inr (Ret (getpid pcb), k))))"

definition sys_brk :: "usize \<Rightarrow> ('h, 'd, 's) kernel \<Rightarrow> ('h, 'd, 's) kres" where
  "sys_brk addr k =
     Some (rbind (current_process k) (\<lambda>p.
     rbind (get_proc p k) (\<lambda>pcb.
     let ms = memory_set pcb in
     if addr = 0 then Inr (Ret (brk ms), k)
     else if addr < brk ms then Inr (Ret (brk ms), k)
     else
       rbind (expand_heap addr (ms, k_mm k)) (\<lambda>(ms, st).
       Inr (Ret addr, (upd_proc p (\<lambda>pcb. pcb\<lparr>memory_set := ms\<lparr>brk := addr\<rparr>\<rparr>) k)\<lparr>k_mm := st\<rparr>)))))"

definition sys_munmap :: "usize \<Rightarrow> usize \<Rightarrow> ('h, 'd, 's) kernel \<Rightarrow> ('h, 'd, 's) kres" where
  "sys_munmap start len k =
     Some (rbind (current_process k) (\<lambda>p.
     rbind (get_proc p k) (\<lambda>pcb.
     rbind (MemorySet_munmap start len (memory_set pcb, k_mm k)) (\<lambda>(r, ms, st).
     Inr (Ret (case r of Inl e \<Rightarrow> e | Inr _ \<Rightarrow> 0),
          (upd_proc p (\<lambda>pcb. pcb\<lparr>memory_set := ms\<rparr>) k)\<lparr>k_mm := st\<rparr>)))))"

text \<open>
  The file behind a mapping, and the files after it has been read: only a mapping that succeeds
  reads it, once.
\<close>

definition mmap_file_of :: "('h, 'd, 's) fatfs \<Rightarrow> File \<Rightarrow> ('h, 'd, 's) fsys \<Rightarrow> mmap_file" where
  "mmap_file_of fs f st =
     \<lparr>mf_size = (case File_get_stat f st of Inl _ \<Rightarrow> 0 | Inr s \<Rightarrow> st_size s),
      mf_read = (\<lambda>n. case File_read_at fs f 0 (replicate n 0) st of
                       Inr (Inr _, buf, _) \<Rightarrow> Some buf | _ \<Rightarrow> None)\<rparr>"

definition mmap_files_after :: "('h, 'd, 's) fatfs \<Rightarrow> File option \<Rightarrow> usize \<Rightarrow> ('h, 'd, 's) fsys \<Rightarrow> ('h, 'd, 's) fsys" where
  "mmap_files_after fs file len st =
     (case file of
        None \<Rightarrow> st
      | Some f \<Rightarrow>
         (case File_read_at fs f 0 (replicate (unat (min len (mf_size (mmap_file_of fs f st)))) 0) st of
            Inr (_, _, st') \<Rightarrow> st' | Inl _ \<Rightarrow> st))"

definition sys_mmap ::
  "('h, 'd, 's) kenv \<Rightarrow> usize \<Rightarrow> usize \<Rightarrow> usize \<Rightarrow> usize \<Rightarrow> isize \<Rightarrow> usize \<Rightarrow> ('h, 'd, 's) kernel \<Rightarrow> ('h, 'd, 's) kres" where
  "sys_mmap E start len prot flags fd off k =
     obind (Some (current_process k)) (\<lambda>p.
     obind (Some (get_proc p k)) (\<lambda>pcb.
     let file = (if 0 \<le> sint fd then get_fd pcb fd else None);
         st = files_of k
     in obind (MemorySet_mmap start len prot flags (map_option (\<lambda>f. mmap_file_of (env_fs E) f st) file) off
                 (memory_set pcb, k_mm k)) (\<lambda>(r, ms, mm).
        let k = (upd_proc p (\<lambda>pcb. pcb\<lparr>memory_set := ms\<rparr>) k)\<lparr>k_mm := mm\<rparr> in
        case r of
          Inl e \<Rightarrow> oret (Ret e, k)
        | Inr addr \<Rightarrow> oret (Ret addr, k\<lparr>k_files := mmap_files_after (env_fs E) file len st\<rparr>))))"

definition CloneFlags_CLONE_PARENT_SETTID :: u32 where "CloneFlags_CLONE_PARENT_SETTID = 0x00100000"

definition CloneFlags_all :: u32 where
  "CloneFlags_all = foldr (OR)
     [0x100, 0x200, 0x400, 0x800, 0x1000, 0x2000, 0x4000, 0x8000, 0x10000, 0x20000, 0x40000, 0x80000,
      0x100000, 0x200000, 0x400000, 0x800000, 0x1000000, 0x2000000, 0x4000000, 0x8000000,
      0x10000000, 0x20000000, 0x40000000, 0x80000000] 0"

definition sys_clone ::
  "('h, 'd, 's) kenv \<Rightarrow> usize \<Rightarrow> u32 \<Rightarrow> usize \<Rightarrow> usize \<Rightarrow> usize \<Rightarrow> usize \<Rightarrow> ('h, 'd, 's) kernel \<Rightarrow> ('h, 'd, 's) kres" where
  "sys_clone E tick flags stack ptid tls ctid k =
     Some (rbind (current_user_token k) (\<lambda>parent_token.
     rbind (current_process k) (\<lambda>par.
     let copy_flags = bitflags_from_bits_truncate CloneFlags_all (flags AND NOT 0xff);
         exit_signal = bitflags_from_bits_truncate SignalFlags_all (flags AND 0xff)
     in rbind (unwrap (bitflags_from_bits CloneFlags_all (flags AND NOT 0xff))) (\<lambda>_.
        rbind (PCB_sys_clone E tick par exit_signal k) (\<lambda>(child, k).
        rbind (get_proc child k) (\<lambda>pcb.
        let child_pid = getpid pcb in
        rbind (if bitflags_contains copy_flags CloneFlags_CLONE_PARENT_SETTID then
                 rbind (translated_refmut (mm_mem (k_mm k)) parent_token ptid) (\<lambda>a.
                 Inr (put_mem (write_bytes (mm_mem (k_mm k)) a (le_bytes 4 (ucast child_pid :: u32))) k))
               else Inr k) (\<lambda>k.
        rbind (get_task pcb 0) (\<lambda>t.
        rbind (get_trap_cx t k) (\<lambda>cx.
        Inr (Ret child_pid, put_mem (write_u64 (mm_mem (k_mm k)) (reg_addr cx reg_a0) 0) k))))))))))"

text \<open>The loops over the argument and environment vectors.\<close>

partial_function (option) read_str_vec ::
  "memory \<Rightarrow> usize \<Rightarrow> usize \<Rightarrow> u8 list list \<Rightarrow> u8 list list result option" where
  "read_str_vec m token argv v =
     (case translated_ref m token argv of
        Inl e \<Rightarrow> Some (Inl e)
      | Inr a \<Rightarrow>
         (let arg_str_ptr = read_u64 m a in
          if arg_str_ptr = 0 then Some (Inr v)
          else case translated_str m token arg_str_ptr of
                 None \<Rightarrow> None
               | Some r \<Rightarrow>
                  (case r of Inl e \<Rightarrow> Some (Inl e) | Inr s \<Rightarrow> read_str_vec m token (argv + 8) (v @ [s]))))"

definition sys_execve ::
  "('h, 'd, 's) kenv \<Rightarrow> usize \<Rightarrow> usize \<Rightarrow> usize \<Rightarrow> ('h, 'd, 's) kernel \<Rightarrow> ('h, 'd, 's) kres" where
  "sys_execve E path argv envp k =
     obind (Some (current_user_token k)) (\<lambda>token.
     obind (translated_str (mm_mem (k_mm k)) token path) (\<lambda>path.
     obind (if argv \<noteq> 0 then read_str_vec (mm_mem (k_mm k)) token argv [] else oret []) (\<lambda>argv_vec.
     obind (if envp \<noteq> 0 then read_str_vec (mm_mem (k_mm k)) token envp [] else oret []) (\<lambda>envp_vec.
     obind (Some (current_process k)) (\<lambda>p.
     obind (Some (get_proc p k)) (\<lambda>pcb.
     obind (Some (open_file (env_fs E) (cwd pcb) (path_of_bytes path) OpenFlags_RDONLY (fs_fat (k_files k)))) (\<lambda>(r, s).
     let k = k\<lparr>k_files := (k_files k)\<lparr>fs_fat := s\<rparr>\<rparr> in
     case r of
       None \<Rightarrow> oret (Ret (- 1), k)
     | Some app_inode \<Rightarrow>
        obind (OSInode_read_all (env_fs E) app_inode (fs_fat (k_files k))) (\<lambda>(all_data, _, s).
        obind (Some (PCB_exec E p all_data (map (utf8_bytes \<circ> path_of_bytes) argv_vec)
                       (k\<lparr>k_files := (k_files k)\<lparr>fs_fat := s\<rparr>\<rparr>))) (\<lambda>k.
        oret (Ret 0, k))))))))))"

definition WaitOption_all :: u32 where
  "WaitOption_all = foldr (OR) [1, 2, 4, 8, 0x1000000] 0"

definition WaitOption_WNOHANG :: u32 where "WaitOption_WNOHANG = 1"

text \<open>\<open>pid == -1 || pid as usize == p.getpid()\<close>, and a child that has exited.\<close>

definition child_matches :: "isize \<Rightarrow> ('h, 'd, 's) kernel \<Rightarrow> nat \<Rightarrow> bool" where
  "child_matches pid k c \<longleftrightarrow> pid = - 1 \<or> (case procs k c of None \<Rightarrow> False | Some pcb \<Rightarrow> pid = getpid pcb)"

definition child_zombie :: "('h, 'd, 's) kernel \<Rightarrow> nat \<Rightarrow> bool" where
  "child_zombie k c \<longleftrightarrow> (case procs k c of None \<Rightarrow> False | Some pcb \<Rightarrow> is_zombie pcb)"

text \<open>
  A child is removed and freed; \<open>None\<close> when its id is not that of its thread group, so that the
  loop starts over. \<open>held\<close> is the number of references to the child in local variables of calls
  that wait.
\<close>

definition reap_child ::
  "(nat \<Rightarrow> nat) \<Rightarrow> usize \<Rightarrow> usize \<Rightarrow> nat \<Rightarrow> nat \<Rightarrow> ('h, 'd, 's) kernel \<Rightarrow> (sys_out option \<times> ('h, 'd, 's) kernel) result" where
  "reap_child held token statusp self idx k =
     rbind (get_proc self k) (\<lambda>inner.
     let child = children inner ! idx;
         k = upd_proc self (\<lambda>pcb. pcb\<lparr>children := remove_nth idx (children pcb)\<rparr>) k
     in rbind (rassert (proc_refs child k + held child = 0)) (\<lambda>_.
        rbind (get_proc child k) (\<lambda>child_inner.
        if getpid child_inner = tgid child_inner then
          (let ru = rusage inner; ru' = rusage child_inner;
               k = upd_proc self (\<lambda>pcb. pcb\<lparr>rusage :=
                     ru\<lparr>ru_cutime := TimeVal_add (ru_cutime ru) (ru_utime ru'),
                        ru_cstime := TimeVal_add (ru_cstime ru) (ru_stime ru')\<rparr>\<rparr>) k
           in rbind (if statusp \<noteq> 0 then
                       rbind (translated_refmut (mm_mem (k_mm k)) token statusp) (\<lambda>a.
                       Inr (put_mem (write_bytes (mm_mem (k_mm k)) a (le_bytes 4 (exit_code child_inner))) k))
                     else Inr k) (\<lambda>k.
              rbind (PCB_drop child k) (\<lambda>k.
              Inr (Some (Ret (getpid child_inner)), k))))
        else rbind (PCB_drop child k) (\<lambda>k. Inr (None, k)))))"

text \<open>One round of the loop of \<open>sys_wait4\<close>.\<close>

definition sys_wait4_round ::
  "(nat \<Rightarrow> nat) \<Rightarrow> isize \<Rightarrow> usize \<Rightarrow> u32 \<Rightarrow> ('h, 'd, 's) kernel \<Rightarrow> (sys_out option \<times> ('h, 'd, 's) kernel) result" where
  "sys_wait4_round held pid statusp opts k =
     rbind (current_user_token k) (\<lambda>token.
     rbind (current_process k) (\<lambda>self.
     rbind (get_proc self k) (\<lambda>inner.
     if \<not> list_ex (child_matches pid k) (children inner) then Inr (Some (Ret (- 1)), k)
     else case position (\<lambda>c. child_zombie k c \<and> child_matches pid k c) (children inner) of
       Some idx \<Rightarrow> reap_child held token statusp self idx k
     | None \<Rightarrow>
         (if bitflags_contains opts WaitOption_WNOHANG then Inr (Some (Ret 0), k)
          else rbind (suspend_current_and_run_next k) (\<lambda>k. Inr (Some (Wait (Waiting4 pid statusp opts)), k))))))"

partial_function (option) sys_wait4_loop ::
  "(nat \<Rightarrow> nat) \<Rightarrow> isize \<Rightarrow> usize \<Rightarrow> u32 \<Rightarrow> ('h, 'd, 's) kernel \<Rightarrow> ('h, 'd, 's) kres" where
  "sys_wait4_loop held pid statusp opts k =
     (case sys_wait4_round held pid statusp opts k of
        Inl e \<Rightarrow> Some (Inl e)
      | Inr (out, k) \<Rightarrow>
         (case out of Some out \<Rightarrow> Some (Inr (out, k)) | None \<Rightarrow> sys_wait4_loop held pid statusp opts k))"

definition sys_wait4 ::
  "(nat \<Rightarrow> nat) \<Rightarrow> isize \<Rightarrow> usize \<Rightarrow> u32 \<Rightarrow> usize \<Rightarrow> ('h, 'd, 's) kernel \<Rightarrow> ('h, 'd, 's) kres" where
  "sys_wait4 held pid statusp opts ru k =
     obind (Some (unwrap (bitflags_from_bits WaitOption_all opts))) (\<lambda>opts.
     sys_wait4_loop held pid statusp opts k)"

text \<open>\<open>get_from_user\<close> reads into a local variable whose initial contents are overwritten.\<close>

definition get_timespec :: "memory \<Rightarrow> usize \<Rightarrow> usize \<Rightarrow> TimeSpec result option" where
  "get_timespec m token src =
     obind (copy_from_user m token src (replicate 16 0)) (\<lambda>bs.
     oret \<lparr>ts_sec = from_le_bytes (take 8 bs), ts_nsec = from_le_bytes (drop 8 bs)\<rparr>)"

definition TimeSpec_bytes :: "TimeSpec \<Rightarrow> u8 list" where
  "TimeSpec_bytes t = to_le_bytes (ts_sec t) @ to_le_bytes (ts_nsec t)"

definition sys_nanosleep :: "usize \<Rightarrow> usize \<Rightarrow> usize \<Rightarrow> ('h, 'd, 's) kernel \<Rightarrow> ('h, 'd, 's) kres" where
  "sys_nanosleep tick req rem' k =
     (if req = 0 then oret (Ret (- 1), k)
      else obind (Some (unwrap (current_task k))) (\<lambda>t.
        obind (Some (TCB_get_user_token t k)) (\<lambda>token.
        obind (get_timespec (mm_mem (k_mm k)) token req) (\<lambda>req.
        let end' = TimeSpec_add (TimeSpec_now tick) req;
            expire_ms = TimeSpec_to_ms end';
            k = k\<lparr>k_timers := add_timer expire_ms t (k_timers k)\<rparr>
        in obind (Some (block_current_and_run_next k)) (\<lambda>k.
           oret (Wait (Sleeping end' rem'), k))))))"

text \<open>What \<open>sys_nanosleep\<close> does when its task runs again.\<close>

definition sys_nanosleep_resume :: "usize \<Rightarrow> TimeSpec \<Rightarrow> usize \<Rightarrow> ('h, 'd, 's) kernel \<Rightarrow> ('h, 'd, 's) kres" where
  "sys_nanosleep_resume tick end' rem' k =
     obind (Some (current_process k)) (\<lambda>p.
     obind (Some (get_proc p k)) (\<lambda>pcb.
     let now = TimeSpec_now tick; token = get_user_token pcb in
     if signals pcb = 0 then
       obind (Some (rassert (TimeSpec_le end' now))) (\<lambda>_.
       obind (if rem' \<noteq> 0 then copy_to_user (mm_mem (k_mm k)) token (TimeSpec_bytes TimeSpec_new) rem'
              else oret (mm_mem (k_mm k))) (\<lambda>m.
       oret (Ret 0, put_mem m k)))
     else
       obind (if rem' \<noteq> 0 then copy_to_user (mm_mem (k_mm k)) token (TimeSpec_bytes (TimeSpec_sub end' now)) rem'
              else oret (mm_mem (k_mm k))) (\<lambda>m.
       oret (Ret (- 1), put_mem m k))))"

definition sys_kill :: "usize \<Rightarrow> usize \<Rightarrow> ('h, 'd, 's) kernel \<Rightarrow> ('h, 'd, 's) kres" where
  "sys_kill pid sig k =
     (case from_signum sig of
        Inl _ \<Rightarrow> oret (Ret (- 1), k)
      | Inr signal \<Rightarrow>
         (if pid > 0 then
            Some (rbind (find_task_by_pid pid k) (\<lambda>r.
            case r of
              Some t \<Rightarrow>
                (if signal \<noteq> 0 then
                   rbind (get_proc (tcb_process (tcbs k t)) k) (\<lambda>_.
                   let k = upd_proc (tcb_process (tcbs k t)) (add_signal signal) k in
                   if status_of k t = Blocked then Inr (Ret 0, wake_blocked t (set_status t Ready k))
                   else Inr (Ret 0, k))
                 else Inr (Ret 0, k))
            | None \<Rightarrow> Inr (Ret (- 1), k)))
          else Some (Inl Explicit_Panic)))"

definition sys_getppid :: "('h, 'd, 's) kernel \<Rightarrow> ('h, 'd, 's) kres" where
  "sys_getppid k =
     Some (rbind (current_process k) (\<lambda>p.
     rbind (get_proc p k) (\<lambda>pcb.
     Inr (case parent pcb of
            None \<Rightarrow> (Ret 0, k)
          | Some q \<Rightarrow> (case procs k q of None \<Rightarrow> (Ret 0, k) | Some par \<Rightarrow> (Ret (getpid par), k))))))"

definition Tms_bytes :: "Tms \<Rightarrow> u8 list" where
  "Tms_bytes t = to_le_bytes (tms_utime t) @ to_le_bytes (tms_stime t) @ to_le_bytes (tms_cutime t) @ to_le_bytes (tms_cstime t)"

definition sys_times :: "usize \<Rightarrow> usize \<Rightarrow> ('h, 'd, 's) kernel \<Rightarrow> ('h, 'd, 's) kres" where
  "sys_times tick tms_ptr k =
     obind (Some (current_user_token k)) (\<lambda>token.
     obind (Some (current_process k)) (\<lambda>p.
     obind (Some (get_proc p k)) (\<lambda>pcb.
     obind (Some (translated_refmut (mm_mem (k_mm k)) token tms_ptr)) (\<lambda>_.
     let ru = rusage pcb;
         times = \<lparr>tms_utime = TimeVal_to_tick (ru_utime ru), tms_stime = TimeVal_to_tick (ru_stime ru),
                  tms_cutime = TimeVal_to_tick (ru_cutime ru), tms_cstime = TimeVal_to_tick (ru_cstime ru)\<rparr>
     in obind (copy_to_user (mm_mem (k_mm k)) token (Tms_bytes times) tms_ptr) (\<lambda>m.
        oret (Ret tick, put_mem m k))))))"

definition ascii :: "string \<Rightarrow> u8 list" where "ascii s = map (\<lambda>c. of_nat (of_char c)) s"

definition sys_uname :: "usize \<Rightarrow> ('h, 'd, 's) kernel \<Rightarrow> ('h, 'd, 's) kres" where
  "sys_uname utsname_ptr k =
     obind (Some (current_user_token k)) (\<lambda>token.
     obind (translated_byte_buffer (mm_mem (k_mm k)) token utsname_ptr 390) (\<lambda>bufs.
     let buffer = UserBuffer_new bufs;
         write = (\<lambda>i s m. snd (UserBuffer_write_buffer buffer (Some (65 * i)) (ascii s @ [0]) m));
         m = mm_mem (k_mm k);
         m = write 0 ''cutecore'' m;
         m = write 1 ''xeinnious'' m;
         m = write 2 ''5.0.0-riscv64'' m;
         m = write 3 ''#1 SMP Xein-Revo 6.15.2-arch1-1 (2025-06-10)'' m;
         m = write 4 ''riscv64'' m;
         m = write 5 '''' m
     in oret (Ret 0, put_mem m k)))"

definition TimeVal_bytes :: "TimeVal \<Rightarrow> u8 list" where
  "TimeVal_bytes t = to_le_bytes (tv_sec t) @ to_le_bytes (tv_usec t)"

definition sys_gettimeofday :: "usize \<Rightarrow> usize \<Rightarrow> usize \<Rightarrow> ('h, 'd, 's) kernel \<Rightarrow> ('h, 'd, 's) kres" where
  "sys_gettimeofday tick tv tz k =
     obind (Some (current_user_token k)) (\<lambda>token.
     if tv \<noteq> 0 then
       obind (copy_to_user (mm_mem (k_mm k)) token (TimeVal_bytes (TimeVal_now tick)) tv) (\<lambda>m.
       oret (Ret 0, put_mem m k))
     else oret (Ret 0, k))"

section \<open>\<open>syscall/thread.rs\<close>\<close>

definition sys_thread_create ::
  "('h, 'd, 's) kenv \<Rightarrow> usize \<Rightarrow> usize \<Rightarrow> ('h, 'd, 's) kernel \<Rightarrow> ('h, 'd, 's) kres" where
  "sys_thread_create E pc arg k =
     Some (rbind (current_process k) (\<lambda>p.
     rbind (TaskControlBlock_new E p UserStackBase True k) (\<lambda>(t, k).
     let k = add_task t k in
     rbind (unwrap (tcb_res (tcbs k t))) (\<lambda>r.
     let tid = unat (ur_tid r);
         k = upd_proc p (\<lambda>pcb.
               let ts = tasks pcb @ replicate (tid + 1 - length (tasks pcb)) None
               in pcb\<lparr>tasks := ts[tid := Some t]\<rparr>) k
     in rbind (get_trap_cx t k) (\<lambda>cx.
        let c = set_reg reg_a0 arg
                  (app_init_context (env_sstatus E) pc (ustack_top r) (MemorySet_token (kernel_space k))
                     (KernelStack_get_top (tcb_kstack (tcbs k t))) (env_trap_handler E))
        in Inr (Ret (ur_tid r), put_mem (write_bytes (mm_mem (k_mm k)) cx (TrapContext_bytes c)) k))))))"

definition sys_gettid :: "('h, 'd, 's) kernel \<Rightarrow> ('h, 'd, 's) kres" where
  "sys_gettid k =
     Some (rbind (unwrap (current_task k)) (\<lambda>t. rbind (unwrap (tcb_res (tcbs k t))) (\<lambda>r. Inr (Ret (ur_tid r), k))))"

definition sys_waittid :: "usize \<Rightarrow> ('h, 'd, 's) kernel \<Rightarrow> (i32 \<times> ('h, 'd, 's) kernel) result" where
  "sys_waittid tid k =
     rbind (unwrap (current_task k)) (\<lambda>t.
     rbind (current_process k) (\<lambda>p.
     rbind (get_proc p k) (\<lambda>pcb.
     rbind (unwrap (tcb_res (tcbs k t))) (\<lambda>r.
     if ur_tid r = tid then Inr (- 1, k)
     else rbind (index_at (tasks pcb) (unat tid)) (\<lambda>waited_task.
       case waited_task of
         None \<Rightarrow> Inr (- 1, k)
       | Some w \<Rightarrow>
          (case tcb_exit_code (tcbs k w) of
             Some code \<Rightarrow>
               (let k = upd_proc p (\<lambda>pcb. pcb\<lparr>tasks := (tasks pcb)[unat tid := None]\<rparr>) k
                in rbind (release_task w k) (\<lambda>k. Inr (code, k)))
           | None \<Rightarrow> Inr (- 2, k)))))))"

section \<open>\<open>syscall/sync.rs\<close>\<close>

definition sys_sleep :: "usize \<Rightarrow> usize \<Rightarrow> ('h, 'd, 's) kernel \<Rightarrow> ('h, 'd, 's) kres" where
  "sys_sleep tick ms k =
     Some (rbind (unwrap (current_task k)) (\<lambda>t.
     let expire_ms = get_time_ms tick + ms in
     rbind (block_current_and_run_next (k\<lparr>k_timers := add_timer expire_ms t (k_timers k)\<rparr>)) (\<lambda>k.
     Inr (Wait Woken, k))))"

text \<open>The first free slot of a list of objects, or a new one.\<close>

definition slot_for :: "'x option list \<Rightarrow> 'x \<Rightarrow> nat \<times> 'x option list" where
  "slot_for xs x =
     (case position (\<lambda>y. y = None) xs of
        Some i \<Rightarrow> (i, xs[i := Some x])
      | None \<Rightarrow> (let xs = xs @ [Some x] in (length xs - 1, xs)))"

definition sys_mutex_create :: "bool \<Rightarrow> ('h, 'd, 's) kernel \<Rightarrow> ('h, 'd, 's) kres" where
  "sys_mutex_create blocking k =
     Some (rbind (current_process k) (\<lambda>p.
     rbind (get_proc p k) (\<lambda>pcb.
     let n = next_sync k;
         (m, k) = (if \<not> blocking then (SpinMutex n, k\<lparr>k_spins := (k_spins k)(n := MutexSpin_new)\<rparr>)
                   else (BlockingMutex n, k\<lparr>k_mutexes := (k_mutexes k)(n := MutexBlocking_new)\<rparr>));
         (i, l) = slot_for (mutex_list pcb) m
     in Inr (Ret (of_nat i), upd_proc p (\<lambda>pcb. pcb\<lparr>mutex_list := l\<rparr>) (k\<lparr>next_sync := n + 1\<rparr>)))))"

definition mutex_lock :: "mutex_ref \<Rightarrow> ('h, 'd, 's) kernel \<Rightarrow> (sys_out \<times> ('h, 'd, 's) kernel) result" where
  "mutex_lock m k =
     (case m of
        SpinMutex i \<Rightarrow>
          rbind (MutexSpin_lock_round (k_spins k i) k) (\<lambda>(taken, s, k).
          Inr (if taken then Ret 0 else Wait (Spinning i), k\<lparr>k_spins := (k_spins k)(i := s)\<rparr>))
      | BlockingMutex i \<Rightarrow>
          (let locked = mb_locked (k_mutexes k i) in
           rbind (MutexBlocking_lock (k_mutexes k i) k) (\<lambda>(s, k).
           Inr (if locked then Wait Woken else Ret 0, k\<lparr>k_mutexes := (k_mutexes k)(i := s)\<rparr>))))"

definition mutex_unlock :: "mutex_ref \<Rightarrow> ('h, 'd, 's) kernel \<Rightarrow> ('h, 'd, 's) kernel result" where
  "mutex_unlock m k =
     (case m of
        SpinMutex i \<Rightarrow> Inr (k\<lparr>k_spins := (k_spins k)(i := MutexSpin_unlock (k_spins k i))\<rparr>)
      | BlockingMutex i \<Rightarrow>
          rbind (MutexBlocking_unlock (k_mutexes k i) k) (\<lambda>(s, k).
          Inr (k\<lparr>k_mutexes := (k_mutexes k)(i := s)\<rparr>)))"

definition sys_mutex_lock :: "usize \<Rightarrow> ('h, 'd, 's) kernel \<Rightarrow> ('h, 'd, 's) kres" where
  "sys_mutex_lock mutex_id k =
     Some (rbind (current_process k) (\<lambda>p.
     rbind (get_proc p k) (\<lambda>pcb.
     rbind (index_at (mutex_list pcb) (unat mutex_id)) (\<lambda>m.
     rbind (unwrap m) (\<lambda>m. mutex_lock m k)))))"

definition sys_mutex_unlock :: "usize \<Rightarrow> ('h, 'd, 's) kernel \<Rightarrow> ('h, 'd, 's) kres" where
  "sys_mutex_unlock mutex_id k =
     Some (rbind (current_process k) (\<lambda>p.
     rbind (get_proc p k) (\<lambda>pcb.
     rbind (index_at (mutex_list pcb) (unat mutex_id)) (\<lambda>m.
     rbind (unwrap m) (\<lambda>m.
     rbind (mutex_unlock m k) (\<lambda>k. Inr (Ret 0, k)))))))"

definition sys_semaphore_create :: "usize \<Rightarrow> ('h, 'd, 's) kernel \<Rightarrow> ('h, 'd, 's) kres" where
  "sys_semaphore_create res_count k =
     Some (rbind (current_process k) (\<lambda>p.
     rbind (get_proc p k) (\<lambda>pcb.
     let n = next_sync k;
         (i, l) = slot_for (semaphore_list pcb) n
     in Inr (Ret (of_nat i), upd_proc p (\<lambda>pcb. pcb\<lparr>semaphore_list := l\<rparr>)
          (k\<lparr>k_semaphores := (k_semaphores k)(n := Semaphore_new res_count), next_sync := n + 1\<rparr>)))))"

definition sys_semaphore_up :: "usize \<Rightarrow> ('h, 'd, 's) kernel \<Rightarrow> ('h, 'd, 's) kres" where
  "sys_semaphore_up sem_id k =
     Some (rbind (current_process k) (\<lambda>p.
     rbind (get_proc p k) (\<lambda>pcb.
     rbind (index_at (semaphore_list pcb) (unat sem_id)) (\<lambda>i.
     rbind (unwrap i) (\<lambda>i.
     case Semaphore_up (k_semaphores k i) k of (s, k) \<Rightarrow>
     Inr (Ret 0, k\<lparr>k_semaphores := (k_semaphores k)(i := s)\<rparr>))))))"

definition sys_semaphore_down :: "usize \<Rightarrow> ('h, 'd, 's) kernel \<Rightarrow> ('h, 'd, 's) kres" where
  "sys_semaphore_down sem_id k =
     Some (rbind (current_process k) (\<lambda>p.
     rbind (get_proc p k) (\<lambda>pcb.
     rbind (index_at (semaphore_list pcb) (unat sem_id)) (\<lambda>i.
     rbind (unwrap i) (\<lambda>i.
     rbind (Semaphore_down (k_semaphores k i) k) (\<lambda>(s, k).
     Inr (if sint (sem_count s) < 0 then Wait Woken else Ret 0,
          k\<lparr>k_semaphores := (k_semaphores k)(i := s)\<rparr>)))))))"

definition sys_condvar_create :: "('h, 'd, 's) kernel \<Rightarrow> ('h, 'd, 's) kres" where
  "sys_condvar_create k =
     Some (rbind (current_process k) (\<lambda>p.
     rbind (get_proc p k) (\<lambda>pcb.
     let n = next_sync k;
         (i, l) = slot_for (condvar_list pcb) n
     in Inr (Ret (of_nat i), upd_proc p (\<lambda>pcb. pcb\<lparr>condvar_list := l\<rparr>)
          (k\<lparr>k_condvars := (k_condvars k)(n := Condvar_new), next_sync := n + 1\<rparr>)))))"

definition sys_condvar_signal :: "usize \<Rightarrow> ('h, 'd, 's) kernel \<Rightarrow> ('h, 'd, 's) kres" where
  "sys_condvar_signal condvar_id k =
     Some (rbind (current_process k) (\<lambda>p.
     rbind (get_proc p k) (\<lambda>pcb.
     rbind (index_at (condvar_list pcb) (unat condvar_id)) (\<lambda>i.
     rbind (unwrap i) (\<lambda>i.
     case Condvar_signal (k_condvars k i) k of (c, k) \<Rightarrow>
     Inr (Ret 0, k\<lparr>k_condvars := (k_condvars k)(i := c)\<rparr>))))))"

text \<open>\<open>wait_with_mutex\<close> over \<open>dyn Mutex\<close>: unlock, enqueue, block; lock again when woken.\<close>

definition sys_condvar_wait :: "usize \<Rightarrow> usize \<Rightarrow> ('h, 'd, 's) kernel \<Rightarrow> ('h, 'd, 's) kres" where
  "sys_condvar_wait condvar_id mutex_id k =
     Some (rbind (current_process k) (\<lambda>p.
     rbind (get_proc p k) (\<lambda>pcb.
     rbind (index_at (condvar_list pcb) (unat condvar_id)) (\<lambda>i.
     rbind (unwrap i) (\<lambda>i.
     rbind (index_at (mutex_list pcb) (unat mutex_id)) (\<lambda>m.
     rbind (unwrap m) (\<lambda>m.
     rbind (mutex_unlock m k) (\<lambda>k.
     rbind (unwrap (current_task k)) (\<lambda>t.
     let k = k\<lparr>k_condvars := (k_condvars k)(i :=
               (k_condvars k i)\<lparr>cv_wait_queue := cv_wait_queue (k_condvars k i) @ [t]\<rparr>)\<rparr>
     in rbind (block_current_and_run_next k) (\<lambda>k.
        Inr (Wait (Relocking m), k)))))))))))"

section \<open>Running again\<close>

text \<open>What a waiting call does when the scheduler runs its task again.\<close>

definition sys_resume ::
  "('h, 'd, 's) kenv \<Rightarrow> usize \<Rightarrow> (nat \<Rightarrow> nat) \<Rightarrow> wait_call \<Rightarrow> ('h, 'd, 's) kernel \<Rightarrow> ('h, 'd, 's) kres" where
  "sys_resume E tick held w k =
     (case w of
        Yielding \<Rightarrow> oret (Ret 0, k)
      | Woken \<Rightarrow> oret (Ret 0, k)
      | Reading i c \<Rightarrow>
               (case fs_pipes (k_files k) i of (p, r) \<Rightarrow>
                obind (pipe_read_run p (c, fs_rings (k_files k) r, mm_mem (k_mm k))) (\<lambda>(out, rb, m).
                let st = (k_files k)\<lparr>fs_rings := (fs_rings (k_files k))(r := rb)\<rparr>; k = put_mem m k in
                case out of
                  Done n \<Rightarrow> oret (Ret (of_nat n), k\<lparr>k_files := File_drop (Some (PipeFile i)) st\<rparr>)
                | Files.Waiting c \<Rightarrow>
                    obind (Some (suspend_current_and_run_next (k\<lparr>k_files := st\<rparr>))) (\<lambda>k.
                    oret (Wait (Reading i c), k))))
      | Writing i c \<Rightarrow>
               (case fs_pipes (k_files k) i of (p, r) \<Rightarrow>
                obind (pipe_write_run p (mm_mem (k_mm k)) (c, fs_rings (k_files k) r)) (\<lambda>(out, rb).
                let st = (k_files k)\<lparr>fs_rings := (fs_rings (k_files k))(r := rb)\<rparr> in
                case out of
                  Done n \<Rightarrow> oret (Ret (of_nat n), k\<lparr>k_files := File_drop (Some (PipeFile i)) st\<rparr>)
                | Files.Waiting c \<Rightarrow>
                    obind (Some (suspend_current_and_run_next (k\<lparr>k_files := st\<rparr>))) (\<lambda>k.
                    oret (Wait (Writing i c), k))))
      | Waiting4 pid statusp opts \<Rightarrow> sys_wait4_loop held pid statusp opts k
      | Sleeping end' rem' \<Rightarrow> sys_nanosleep_resume tick end' rem' k
      | Spinning i \<Rightarrow> Some (mutex_lock (SpinMutex i) k)
      | Relocking m \<Rightarrow> Some (mutex_lock m k))"

end
