(* ===== verification/Trap.thy ===== *)
theory Trap
  imports Proc_Syscalls
begin

text \<open>
  Entering and leaving the kernel: \<open>os/src/syscall/mod.rs\<close> and \<open>os/src/hal/arch/riscv/trap/mod.rs\<close>.
  The registers the handlers write are the record \<open>hart\<close>; the addresses of the assembly entries and
  of \<open>trap_from_kernel\<close> are the record \<open>trap_syms\<close>. A trap whose task gives up the processor is
  resumed, when the task runs again, by \<open>trap_resume\<close>. The readings of the clock on the way in, in
  the call and on the way out are three arguments.
\<close>

section \<open>Dispatch of the system calls\<close>

definition SYSCALL_GETCWD :: usize where "SYSCALL_GETCWD = 17"
definition SYSCALL_DUP :: usize where "SYSCALL_DUP = 23"
definition SYSCALL_DUP3 :: usize where "SYSCALL_DUP3 = 24"
definition SYSCALL_MKDIRAT :: usize where "SYSCALL_MKDIRAT = 34"
definition SYSCALL_UNLINKAT :: usize where "SYSCALL_UNLINKAT = 35"
definition SYSCALL_UMOUNT2 :: usize where "SYSCALL_UMOUNT2 = 39"
definition SYSCALL_MOUNT :: usize where "SYSCALL_MOUNT = 40"
definition SYSCALL_CHDIR :: usize where "SYSCALL_CHDIR = 49"
definition SYSCALL_OPENAT :: usize where "SYSCALL_OPENAT = 56"
definition SYSCALL_CLOSE :: usize where "SYSCALL_CLOSE = 57"
definition SYSCALL_PIPE2 :: usize where "SYSCALL_PIPE2 = 59"
definition SYSCALL_GETDENTS64 :: usize where "SYSCALL_GETDENTS64 = 61"
definition SYSCALL_READ :: usize where "SYSCALL_READ = 63"
definition SYSCALL_WRITE :: usize where "SYSCALL_WRITE = 64"
definition SYSCALL_FSTAT :: usize where "SYSCALL_FSTAT = 80"
definition SYSCALL_EXIT :: usize where "SYSCALL_EXIT = 93"
definition SYSCALL_NANOSLEEP :: usize where "SYSCALL_NANOSLEEP = 101"
definition SYSCALL_YIELD :: usize where "SYSCALL_YIELD = 124"
definition SYSCALL_TIMES :: usize where "SYSCALL_TIMES = 153"
definition SYSCALL_UNAME :: usize where "SYSCALL_UNAME = 160"
definition SYSCALL_GET_TIME_OF_DAY :: usize where "SYSCALL_GET_TIME_OF_DAY = 169"
definition SYSCALL_GETPID :: usize where "SYSCALL_GETPID = 172"
definition SYSCALL_GETPPID :: usize where "SYSCALL_GETPPID = 173"
definition SYSCALL_BRK :: usize where "SYSCALL_BRK = 214"
definition SYSCALL_MUNMAP :: usize where "SYSCALL_MUNMAP = 215"
definition SYSCALL_CLONE :: usize where "SYSCALL_CLONE = 220"
definition SYSCALL_EXECVE :: usize where "SYSCALL_EXECVE = 221"
definition SYSCALL_MMAP :: usize where "SYSCALL_MMAP = 222"
definition SYSCALL_WAIT4 :: usize where "SYSCALL_WAIT4 = 260"

lemmas syscall_ids = SYSCALL_GETCWD_def SYSCALL_DUP_def SYSCALL_DUP3_def SYSCALL_MKDIRAT_def
  SYSCALL_UNLINKAT_def SYSCALL_UMOUNT2_def SYSCALL_MOUNT_def SYSCALL_CHDIR_def SYSCALL_OPENAT_def
  SYSCALL_CLOSE_def SYSCALL_PIPE2_def SYSCALL_GETDENTS64_def SYSCALL_READ_def SYSCALL_WRITE_def
  SYSCALL_FSTAT_def SYSCALL_EXIT_def SYSCALL_NANOSLEEP_def SYSCALL_YIELD_def SYSCALL_TIMES_def
  SYSCALL_UNAME_def SYSCALL_GET_TIME_OF_DAY_def SYSCALL_GETPID_def SYSCALL_GETPPID_def SYSCALL_BRK_def
  SYSCALL_MUNMAP_def SYSCALL_CLONE_def SYSCALL_EXECVE_def SYSCALL_MMAP_def SYSCALL_WAIT4_def

text \<open>
  \<open>padding\<close> is what the padding of a directory entry holds, \<open>held\<close> the references to processes in
  local variables of waiting calls.
\<close>

definition syscall ::
  "('h, 'd, 's) kenv \<Rightarrow> usize \<Rightarrow> u8 list \<Rightarrow> (nat \<Rightarrow> nat) \<Rightarrow> usize \<Rightarrow> usize list \<Rightarrow> ('h, 'd, 's) kernel \<Rightarrow> ('h, 'd, 's) kres" where
  "syscall E tick padding held syscall_id args k =
     (let fs = env_fs E; a = (\<lambda>i. args ! i) in
      if syscall_id = SYSCALL_OPENAT then fs_call (\<lambda>token. sys_openat fs token (a 0) (a 1) (ucast (a 2)) (ucast (a 3))) k
      else if syscall_id = SYSCALL_CLOSE then fs_call (\<lambda>token. sys_close (a 0)) k
      else if syscall_id = SYSCALL_READ then io_call Reading (a 0) (\<lambda>token. sys_read fs token (a 0) (a 1) (a 2)) k
      else if syscall_id = SYSCALL_WRITE
        then io_call Writing (a 0) (\<lambda>token. sys_write (env_from_utf8 E) fs token (a 0) (a 1) (a 2)) k
      else if syscall_id = SYSCALL_GETCWD then fs_call (\<lambda>token. sys_getcwd token (a 0) (a 1)) k
      else if syscall_id = SYSCALL_DUP then fs_call (\<lambda>token. sys_dup (a 0)) k
      else if syscall_id = SYSCALL_DUP3 then fs_call (\<lambda>token. sys_dup3 (a 0) (a 1) (a 2)) k
      else if syscall_id = SYSCALL_MKDIRAT then fs_call (\<lambda>token. sys_mkdirat fs token (a 0) (a 1) (ucast (a 2))) k
      else if syscall_id = SYSCALL_CHDIR then fs_call (\<lambda>token. sys_chdir fs token (a 0)) k
      else if syscall_id = SYSCALL_GETDENTS64 then fs_call (\<lambda>token. sys_getdents64 fs padding token (a 0) (a 1) (a 2)) k
      else if syscall_id = SYSCALL_GETPID then sys_getpid k
      else if syscall_id = SYSCALL_EXIT then sys_exit (ucast (a 0)) k
      else if syscall_id = SYSCALL_YIELD then sys_yield k
      else if syscall_id = SYSCALL_GETPPID then sys_getppid k
      else if syscall_id = SYSCALL_UNAME then sys_uname (a 0) k
      else if syscall_id = SYSCALL_TIMES then sys_times tick (a 0) k
      else if syscall_id = SYSCALL_BRK then sys_brk (a 0) k
      else if syscall_id = SYSCALL_MUNMAP then sys_munmap (a 0) (a 1) k
      else if syscall_id = SYSCALL_FSTAT then fs_call (\<lambda>token. sys_fstat token (a 0) (a 1)) k
      else if syscall_id = SYSCALL_PIPE2 then fs_call (\<lambda>token. sys_pipe2 token (a 0) (ucast (a 1))) k
      else if syscall_id = SYSCALL_UMOUNT2 then fs_call (\<lambda>token. sys_umount2 fs token (a 0) (ucast (a 1))) k
      else if syscall_id = SYSCALL_UNLINKAT then fs_call (\<lambda>token. sys_unlinkat fs token (a 0) (a 1) (ucast (a 2))) k
      else if syscall_id = SYSCALL_MOUNT then fs_call (\<lambda>token. sys_mount fs token (a 0) (a 1) (a 2) (a 3) (a 4)) k
      else if syscall_id = SYSCALL_MMAP then sys_mmap E (a 0) (a 1) (a 2) (a 3) (a 4) (a 5) k
      else if syscall_id = SYSCALL_GET_TIME_OF_DAY then sys_gettimeofday tick (a 0) (a 1) k
      else if syscall_id = SYSCALL_CLONE then sys_clone E tick (ucast (a 0)) (a 1) (a 2) (a 3) (a 4) k
      else if syscall_id = SYSCALL_EXECVE then sys_execve E (a 0) (a 1) (a 2) k
      else if syscall_id = SYSCALL_WAIT4 then sys_wait4 held (a 0) (a 1) (ucast (a 2)) (a 3) k
      else if syscall_id = SYSCALL_NANOSLEEP then sys_nanosleep tick (a 0) (a 1) k
      else Some (Inl Explicit_Panic))"

section \<open>Trap entries\<close>

record hart =
  stvec :: usize
  sscratch :: usize
  sie :: bool           \<comment> \<open>\<open>sstatus.SIE\<close>\<close>
  stimer :: bool        \<comment> \<open>\<open>sie.STIE\<close>\<close>
  deadline :: usize     \<comment> \<open>handed to the firmware\<close>

record trap_syms =
  alltraps :: usize
  alltraps_k :: usize
  restore :: usize
  trap_from_kernel_addr :: usize

definition set_kernel_trap_entry :: "trap_syms \<Rightarrow> hart \<Rightarrow> hart" where
  "set_kernel_trap_entry S h =
     h\<lparr>stvec := alltraps_k S - alltraps S + TRAMPOLINE, sscratch := trap_from_kernel_addr S\<rparr>"

definition trap_init :: "trap_syms \<Rightarrow> hart \<Rightarrow> hart" where
  "trap_init S h = set_kernel_trap_entry S h"

definition set_user_trap_entry :: "hart \<Rightarrow> hart" where
  "set_user_trap_entry h = h\<lparr>stvec := TRAMPOLINE\<rparr>"

definition enable_timer_interrupt :: "hart \<Rightarrow> hart" where
  "enable_timer_interrupt h = h\<lparr>stimer := True\<rparr>"

definition enable_supervisor_interrupt :: "hart \<Rightarrow> hart" where
  "enable_supervisor_interrupt h = h\<lparr>sie := True\<rparr>"

definition disable_supervisor_interrupt :: "hart \<Rightarrow> hart" where
  "disable_supervisor_interrupt h = h\<lparr>sie := False\<rparr>"

text \<open>The causes the handlers distinguish.\<close>

datatype exception = UserEnvCall | StoreFault | StorePageFault | LoadFault | LoadPageFault | InstructionFault
  | InstructionPageFault | IllegalInstruction | Other_Exception

datatype interrupt = SupervisorTimer | SupervisorExternal | Other_Interrupt

datatype trap_cause = Exception exception | Interrupt interrupt

section \<open>Traps from the kernel\<close>

definition kernel_check_timer :: "usize \<Rightarrow> ('h, 'd, 's) kernel \<Rightarrow> ('h, 'd, 's) kernel" where
  "kernel_check_timer tick k = (case check_timer tick (k_timers k, k) of (ts, k) \<Rightarrow> k\<lparr>k_timers := ts\<rparr>)"

definition trap_from_kernel ::
  "usize \<Rightarrow> trap_cause \<Rightarrow> hart \<times> ('h, 'd, 's) kernel \<Rightarrow> (hart \<times> ('h, 'd, 's) kernel) result" where
  "trap_from_kernel tick cause = (\<lambda>(h, k).
     case cause of
       Interrupt SupervisorTimer \<Rightarrow> Inr (h\<lparr>deadline := set_next_trigger tick\<rparr>, kernel_check_timer tick k)
     | _ \<Rightarrow> Inl Explicit_Panic)"

section \<open>Traps from user programs\<close>

text \<open>
  How a trap ends: \<open>__restore\<close> is entered at an address with the user address of the trap context
  and the user's \<open>satp\<close>; or the task waits in a call, was preempted, or is gone.
\<close>

datatype trap_out =
    Return_To_User usize usize usize
  | In_Call wait_call
  | Preempted
  | Task_Exited
  | Powered_Off

type_synonym ('h, 'd, 's) trap_res = "(trap_out \<times> hart \<times> ('h, 'd, 's) kernel) result option"

definition trap_return :: "trap_syms \<Rightarrow> hart \<times> ('h, 'd, 's) kernel \<Rightarrow> ('h, 'd, 's) trap_res" where
  "trap_return S = (\<lambda>(h, k).
     let h = set_user_trap_entry (disable_supervisor_interrupt h) in
     obind (Some (current_trap_cx_user_va k)) (\<lambda>va.
     obind (Some (current_user_token k)) (\<lambda>user_satp.
     oret (Return_To_User (restore S - alltraps S + TRAMPOLINE) va user_satp, h, k))))"

definition enter_times :: "usize \<Rightarrow> ('h, 'd, 's) kernel \<Rightarrow> ('h, 'd, 's) kernel result" where
  "enter_times tick k =
     rbind (current_process k) (\<lambda>p. Inr (upd_proc p (update_process_times_enter_trap tick) k))"

definition leave_times :: "usize \<Rightarrow> ('h, 'd, 's) kernel \<Rightarrow> ('h, 'd, 's) kernel result" where
  "leave_times tick k =
     rbind (current_process k) (\<lambda>p. Inr (upd_proc p (update_process_times_leave_trap tick) k))"

text \<open>The end of \<open>trap_handler\<close>: accounting, signals, return.\<close>

definition trap_leave :: "trap_syms \<Rightarrow> usize \<Rightarrow> hart \<times> ('h, 'd, 's) kernel \<Rightarrow> ('h, 'd, 's) trap_res" where
  "trap_leave S tick = (\<lambda>(h, k).
     obind (Some (leave_times tick k)) (\<lambda>k.
     obind (Some (check_signals_of_current k)) (\<lambda>err.
     case err of
       Some (errno, msg) \<Rightarrow>
         obind (Some (exit_current_and_run_next errno k)) (\<lambda>k'.
         case k' of None \<Rightarrow> oret (Powered_Off, h, k) | Some k \<Rightarrow> oret (Task_Exited, h, k))
     | None \<Rightarrow> trap_return S (h, k))))"

definition set_result :: "isize \<Rightarrow> ('h, 'd, 's) kernel \<Rightarrow> ('h, 'd, 's) kernel result" where
  "set_result v k =
     rbind (current_trap_cx k) (\<lambda>cx. Inr (put_mem (write_u64 (mm_mem (k_mm k)) (reg_addr cx reg_a0) v) k))"

definition after_syscall ::
  "trap_syms \<Rightarrow> usize \<Rightarrow> hart \<Rightarrow> sys_out \<times> ('h, 'd, 's) kernel \<Rightarrow> ('h, 'd, 's) trap_res" where
  "after_syscall S tick h = (\<lambda>(out, k).
     case out of
       Ret v \<Rightarrow> obind (Some (set_result v k)) (\<lambda>k. trap_leave S tick (h, k))
     | Wait w \<Rightarrow> oret (In_Call w, h, k)
     | Exited \<Rightarrow> oret (Task_Exited, h, k)
     | Shut_Down \<Rightarrow> oret (Powered_Off, h, k))"

definition reg_a7 :: nat where "reg_a7 = 17"

text \<open>The program counter is moved over the instruction \<open>ecall\<close>; a7 and a0 to a5 are read.\<close>

definition advance_sepc :: "usize \<Rightarrow> ('h, 'd, 's) kernel \<Rightarrow> ('h, 'd, 's) kernel" where
  "advance_sepc cx k =
     put_mem (write_u64 (mm_mem (k_mm k)) (sepc_addr cx) (read_u64 (mm_mem (k_mm k)) (sepc_addr cx) + 4)) k"

definition syscall_args :: "usize \<Rightarrow> ('h, 'd, 's) kernel \<Rightarrow> usize list" where
  "syscall_args cx k = map (\<lambda>i. read_u64 (mm_mem (k_mm k)) (reg_addr cx (reg_a0 + i))) [0..<6]"

definition trap_handler ::
  "('h, 'd, 's) kenv \<Rightarrow> trap_syms \<Rightarrow> usize \<Rightarrow> usize \<Rightarrow> usize \<Rightarrow> u8 list \<Rightarrow> (nat \<Rightarrow> nat) \<Rightarrow> trap_cause
     \<Rightarrow> hart \<times> ('h, 'd, 's) kernel \<Rightarrow> ('h, 'd, 's) trap_res" where
  "trap_handler E S tick_in tick_call tick_out padding held cause = (\<lambda>(h, k).
     let h = set_kernel_trap_entry S h in
     obind (Some (enter_times tick_in k)) (\<lambda>k.
     case cause of
       Exception e \<Rightarrow>
         (case e of
            UserEnvCall \<Rightarrow>
              obind (Some (current_trap_cx k)) (\<lambda>cx.
              let k = advance_sepc cx k;
                  h = enable_supervisor_interrupt h
              in obind (syscall E tick_call padding held (read_u64 (mm_mem (k_mm k)) (reg_addr cx reg_a7))
                          (syscall_args cx k) k)
                   (after_syscall S tick_out h))
          | IllegalInstruction \<Rightarrow>
              obind (Some (current_add_signal SIGILL k)) (\<lambda>k. trap_leave S tick_out (h, k))
          | Other_Exception \<Rightarrow> Some (Inl Explicit_Panic)
          | _ \<Rightarrow> obind (Some (current_add_signal SIGSEGV k)) (\<lambda>k. trap_leave S tick_out (h, k)))
     | Interrupt SupervisorTimer \<Rightarrow>
         obind (Some (suspend_current_and_run_next (kernel_check_timer tick_call k))) (\<lambda>k.
         oret (Preempted, h\<lparr>deadline := set_next_trigger tick_call\<rparr>, k))
     | Interrupt _ \<Rightarrow> Some (Inl Explicit_Panic)))"

text \<open>The rest of the trap of a task that runs again.\<close>

definition trap_resume ::
  "('h, 'd, 's) kenv \<Rightarrow> trap_syms \<Rightarrow> usize \<Rightarrow> usize \<Rightarrow> (nat \<Rightarrow> nat) \<Rightarrow> wait_call option
     \<Rightarrow> hart \<times> ('h, 'd, 's) kernel \<Rightarrow> ('h, 'd, 's) trap_res" where
  "trap_resume E S tick_call tick_out held w = (\<lambda>(h, k).
     case w of
       None \<Rightarrow> trap_leave S tick_out (h, k)
     | Some w \<Rightarrow> obind (sys_resume E tick_call held w k) (after_syscall S tick_out h))"

end
