(* ===== verification/Proc_Tree.thy ===== *)
theory Proc_Tree
  imports Trap
begin

text \<open>
  The tree of processes: an abstract tree with the operations spawn, exit and reap, and the proof
  that \<open>sys_clone\<close>, \<open>exit_current_and_run_next\<close> and \<open>sys_wait4\<close> implement them while every other
  operation of the kernel leaves the tree alone. The invariant of the tree is proved on the
  abstract operations and carried over to every trap.
\<close>

section \<open>The abstract tree\<close>

record pnode =
  pn_parent :: "nat option"
  pn_children :: "nat list"
  pn_zombie :: bool
  pn_code :: i32
  pn_pid :: usize
  pn_main :: "task option option"       \<comment> \<open>the main thread, if there are threads\<close>

record ptree =
  pt_nodes :: "nat \<Rightarrow> pnode option"
  pt_next :: nat
  pt_init :: nat
  pt_table :: "usize \<Rightarrow> nat option"
  pt_tasks :: task                      \<comment> \<open>the next thread\<close>
  pt_dead :: "task set"                 \<comment> \<open>the threads whose user resources are gone\<close>

definition pt_spawn :: "nat \<Rightarrow> usize \<Rightarrow> i32 \<Rightarrow> ptree \<Rightarrow> ptree" where
  "pt_spawn par pid code t =
     (let c = pt_next t;
          ns = (pt_nodes t)(c \<mapsto> \<lparr>pn_parent = Some par, pn_children = [], pn_zombie = False,
                                   pn_code = code, pn_pid = pid, pn_main = Some (Some (pt_tasks t))\<rparr>)
      in t\<lparr>pt_nodes := ns(par := map_option (\<lambda>n. n\<lparr>pn_children := pn_children n @ [c]\<rparr>) (ns par)),
           pt_next := c + 1, pt_table := (pt_table t)(pid \<mapsto> c), pt_tasks := pt_tasks t + 1,
           pt_dead := pt_dead t - {pt_tasks t}\<rparr>)"

definition pt_exit :: "nat \<Rightarrow> i32 \<Rightarrow> task set \<Rightarrow> ptree \<Rightarrow> ptree" where
  "pt_exit p code ts t =
     (case pt_nodes t p of
        None \<Rightarrow> t
      | Some n \<Rightarrow>
         t\<lparr>pt_nodes := (\<lambda>q. map_option (\<lambda>m.
             m\<lparr>pn_parent := (if q \<in> set (pn_children n) then Some (pt_init t) else pn_parent m),
               pn_children := (if q = p then [] else if q = pt_init t then pn_children m @ pn_children n
                               else pn_children m),
               pn_zombie := (q = p \<or> pn_zombie m),
               pn_code := (if q = p then code else pn_code m)\<rparr>) (pt_nodes t q)),
           pt_table := (pt_table t)(pn_pid n := None), pt_dead := pt_dead t \<union> ts\<rparr>)"

definition pt_reap :: "nat \<Rightarrow> nat \<Rightarrow> ptree \<Rightarrow> ptree" where
  "pt_reap par idx t =
     (case pt_nodes t par of
        None \<Rightarrow> t
      | Some n \<Rightarrow>
         t\<lparr>pt_nodes := (pt_nodes t)(par \<mapsto> n\<lparr>pn_children := remove_nth idx (pn_children n)\<rparr>,
                                     pn_children n ! idx := None)\<rparr>)"

text \<open>
  The invariant: the root is alive and has no parent; a node's children are alive, distinct and
  have it as their parent; every node but the root is a child of a live one; a zombie has no
  children, its main thread has given back its user resources, and it is not in the table of
  processes, which holds live processes under their ids.
\<close>

definition pt_node_ok :: "ptree \<Rightarrow> nat \<Rightarrow> pnode \<Rightarrow> bool" where
  "pt_node_ok t p n \<longleftrightarrow>
     p < pt_next t \<and> distinct (pn_children n) \<and> (pn_zombie n \<longrightarrow> pn_children n = [])
     \<and> (\<forall>c \<in> set (pn_children n). \<exists>m. pt_nodes t c = Some m \<and> pn_parent m = Some p)
     \<and> (p \<noteq> pt_init t \<longrightarrow> (\<exists>q m. pn_parent n = Some q \<and> pt_nodes t q = Some m \<and> p \<in> set (pn_children m)))
     \<and> (\<forall>th. pn_main n = Some (Some th) \<longrightarrow> th < pt_tasks t \<and> (pn_zombie n \<longrightarrow> th \<in> pt_dead t))"

definition pt_wf :: "ptree \<Rightarrow> bool" where
  "pt_wf t \<longleftrightarrow>
     (\<exists>n. pt_nodes t (pt_init t) = Some n \<and> \<not> pn_zombie n \<and> pn_parent n = None)
     \<and> (\<forall>p n. pt_nodes t p = Some n \<longrightarrow> pt_node_ok t p n)
     \<and> (\<forall>pid p. pt_table t pid = Some p \<longrightarrow>
          (\<exists>n. pt_nodes t p = Some n \<and> pn_pid n = pid \<and> \<not> pn_zombie n))"

lemma pt_wfD:
  assumes "pt_wf t" and "pt_nodes t p = Some n"
  shows "p < pt_next t" and "distinct (pn_children n)" and "pn_zombie n \<Longrightarrow> pn_children n = []"
    and "c \<in> set (pn_children n) \<Longrightarrow> \<exists>m. pt_nodes t c = Some m \<and> pn_parent m = Some p"
    and "p \<noteq> pt_init t \<Longrightarrow> \<exists>q m. pn_parent n = Some q \<and> pt_nodes t q = Some m \<and> p \<in> set (pn_children m)"
    and "pn_main n = Some (Some th) \<Longrightarrow> th < pt_tasks t"
    and "pn_main n = Some (Some th) \<Longrightarrow> pn_zombie n \<Longrightarrow> th \<in> pt_dead t"
  using assms by (auto simp: pt_wf_def pt_node_ok_def)

lemma pt_node_okI:
  assumes "p < pt_next t" and "distinct (pn_children n)" and "pn_zombie n \<Longrightarrow> pn_children n = []"
    and "\<And>c. c \<in> set (pn_children n) \<Longrightarrow> \<exists>m. pt_nodes t c = Some m \<and> pn_parent m = Some p"
    and "p \<noteq> pt_init t \<Longrightarrow> \<exists>q m. pn_parent n = Some q \<and> pt_nodes t q = Some m \<and> p \<in> set (pn_children m)"
    and "\<And>th. pn_main n = Some (Some th) \<Longrightarrow> th < pt_tasks t \<and> (pn_zombie n \<longrightarrow> th \<in> pt_dead t)"
  shows "pt_node_ok t p n"
  using assms by (simp add: pt_node_ok_def)

lemma pt_wf_root: "pt_wf t \<Longrightarrow> \<exists>n. pt_nodes t (pt_init t) = Some n \<and> \<not> pn_zombie n \<and> pn_parent n = None"
  by (simp add: pt_wf_def)

lemma pt_wf_table:
  "pt_wf t \<Longrightarrow> pt_table t pid = Some p \<Longrightarrow> \<exists>n. pt_nodes t p = Some n \<and> pn_pid n = pid \<and> \<not> pn_zombie n"
  by (simp add: pt_wf_def)

lemma pt_init_not_child: "pt_wf t \<Longrightarrow> pt_nodes t p = Some n \<Longrightarrow> pt_init t \<notin> set (pn_children n)"
  using pt_wfD(4) [of t p n "pt_init t"] pt_wf_root [of t] by auto

section \<open>The operations keep the invariant\<close>

lemma pt_spawn_wf:
  assumes wf: "pt_wf t" and par: "pt_nodes t par = Some n" "pn_main n = Some (Some th)" "th \<notin> pt_dead t"
  shows "pt_wf (pt_spawn par pid code t)"
proof -
  let ?c = "pt_next t" and ?t = "pt_spawn par pid code t"
  have fresh: "pt_nodes t ?c = None" using pt_wfD(1) [OF wf] by (cases "pt_nodes t ?c") auto
  have z: "\<not> pn_zombie n" using pt_wfD(7) [OF wf par(1,2)] par(3) by blast
  have pc: "par \<noteq> ?c" using fresh par by auto
  let ?n = "n\<lparr>pn_children := pn_children n @ [?c]\<rparr>"
  let ?m = "\<lparr>pn_parent = Some par, pn_children = [], pn_zombie = False, pn_code = code, pn_pid = pid,
      pn_main = Some (Some (pt_tasks t))\<rparr>"
  have ns: "pt_nodes ?t = (pt_nodes t)(?c \<mapsto> ?m, par \<mapsto> ?n)"
    using par pc by (simp add: pt_spawn_def Let_def)
  have sel: "pt_next ?t = ?c + 1" "pt_init ?t = pt_init t" "pt_tasks ?t = pt_tasks t + 1"
    "pt_dead ?t = pt_dead t - {pt_tasks t}" "pt_table ?t = (pt_table t)(pid \<mapsto> ?c)"
    by (simp_all add: pt_spawn_def Let_def)
  have notin: "?c \<notin> set (pn_children m)" if "pt_nodes t q = Some m" for q m
    using pt_wfD(4) [OF wf that] fresh by fastforce
  have init: "pt_init t \<noteq> ?c" using pt_wf_root [OF wf] fresh by auto
  have keep: "\<exists>m'. pt_nodes ?t q = Some m' \<and> set (pn_children m) \<subseteq> set (pn_children m') \<and> pn_parent m' = pn_parent m
      \<and> pn_zombie m' = pn_zombie m \<and> pn_pid m' = pn_pid m" if "pt_nodes t q = Some m" for q m
    using that fresh par by (cases "q = par") (auto simp: ns)
  have kids: "\<exists>m'. pt_nodes ?t c = Some m' \<and> pn_parent m' = Some q"
    if "pt_nodes t q = Some m" "c \<in> set (pn_children m)" for q m c
  proof -
    from pt_wfD(4) [OF wf that] obtain m1 where m1: "pt_nodes t c = Some m1" "pn_parent m1 = Some q" by blast
    from keep [OF m1(1)] m1(2) show ?thesis by auto
  qed
  have up: "\<exists>r m'. pn_parent m = Some r \<and> pt_nodes ?t r = Some m' \<and> q \<in> set (pn_children m')"
    if "pt_nodes t q = Some m" "q \<noteq> pt_init t" for q m
  proof -
    from pt_wfD(5) [OF wf that] obtain r m1 where m1: "pn_parent m = Some r" "pt_nodes t r = Some m1"
      "q \<in> set (pn_children m1)" by blast
    from keep [OF m1(2)] m1(1,3) show ?thesis by auto
  qed
  have main: "th < pt_tasks t + 1 \<and> (pn_zombie m \<longrightarrow> th \<in> pt_dead t - {pt_tasks t})"
    if "pt_nodes t q = Some m" "pn_main m = Some (Some th)" for q m th
    using pt_wfD(6,7) [OF wf that] by auto
  have node: "pt_node_ok ?t q m'" if q: "pt_nodes ?t q = Some m'" for q m'
  proof (rule pt_node_okI)
    consider "q = ?c" "m' = ?m" | "q = par" "m' = ?n" | "pt_nodes t q = Some m'" "q \<noteq> par" "q \<noteq> ?c"
    proof -
      have "(if q = par then Some ?n else if q = ?c then Some ?m else pt_nodes t q) = Some m'"
        using q unfolding ns by (simp only: fun_upd_apply)
      then show ?thesis using that by (metis option.inject)
    qed
    note cases = this
    have new: "pt_nodes ?t ?c = Some ?m" "pt_nodes ?t par = Some ?n" using pc by (simp_all add: ns)
    show "q < pt_next ?t"
      by (rule cases) (use pt_wfD(1) [OF wf] par(1) in \<open>auto simp: sel less_SucI\<close>)
    show "distinct (pn_children m')"
      by (rule cases) (use pt_wfD(2) [OF wf] notin par(1) in auto)
    show "pn_children m' = []" if "pn_zombie m'"
      by (rule cases) (use that pt_wfD(3) [OF wf] z in auto)
    show "\<exists>m. pt_nodes ?t c = Some m \<and> pn_parent m = Some q" if "c \<in> set (pn_children m')" for c
      by (rule cases) (use that kids [of q _ c] par(1) new in auto)
    show "\<exists>r m. pn_parent m' = Some r \<and> pt_nodes ?t r = Some m \<and> q \<in> set (pn_children m)" if "q \<noteq> pt_init ?t"
      by (rule cases) (use that up [of q] par(1) new in \<open>auto simp: sel(2)\<close>)
    show "th < pt_tasks ?t \<and> (pn_zombie m' \<longrightarrow> th \<in> pt_dead ?t)" if "pn_main m' = Some (Some th)" for th
      by (rule cases) (use that main [of q _ th] par(1) in \<open>auto simp: sel\<close>)
  qed
  show ?thesis
    unfolding pt_wf_def
  proof (intro conjI allI impI)
    show "\<exists>n. pt_nodes ?t (pt_init ?t) = Some n \<and> \<not> pn_zombie n \<and> pn_parent n = None"
      using pt_wf_root [OF wf] keep sel(2) by metis
    show "\<exists>n. pt_nodes ?t q = Some n \<and> pn_pid n = pid' \<and> \<not> pn_zombie n" if "pt_table ?t pid' = Some q" for pid' q
    proof (cases "pid' = pid")
      case True
      then show ?thesis using that sel(5) pc by (simp add: ns)
    next
      case False
      then show ?thesis using that sel(5) pt_wf_table [OF wf, of pid' q] keep by (metis fun_upd_other)
    qed
  qed (rule node)
qed

lemma remove_nth_distinct:
  assumes "distinct xs" and "i < length xs"
  shows "set (remove_nth i xs) = set xs - {xs ! i}" and "distinct (remove_nth i xs)"
proof -
  have xs: "xs = take i xs @ xs ! i # drop (Suc i) xs" using assms(2) by (rule id_take_nth_drop)
  then have d: "distinct (take i xs @ xs ! i # drop (Suc i) xs)" using assms(1) by simp
  have "set xs = set (take i xs) \<union> {xs ! i} \<union> set (drop (Suc i) xs)" by (subst xs) auto
  then show "set (remove_nth i xs) = set xs - {xs ! i}" using d by (auto simp: remove_nth_def)
  show "distinct (remove_nth i xs)" using d by (simp add: remove_nth_def)
qed

lemma pt_exit_wf:
  assumes wf: "pt_wf t" and p: "pt_nodes t p = Some n" "p \<noteq> pt_init t"
    and ts: "\<And>th. pn_main n = Some (Some th) \<Longrightarrow> th \<in> ts"
  shows "pt_wf (pt_exit p code ts t)"
proof -
  let ?t = "pt_exit p code ts t" and ?i = "pt_init t"
  define g :: "nat \<Rightarrow> pnode \<Rightarrow> pnode" where "g = (\<lambda>q m. m\<lparr>pn_parent := (if q \<in> set (pn_children n) then Some ?i else pn_parent m),
      pn_children := (if q = p then [] else if q = ?i then pn_children m @ pn_children n else pn_children m),
      pn_zombie := (q = p \<or> pn_zombie m), pn_code := (if q = p then code else pn_code m)\<rparr>)"
  have gs: "pn_parent (g q m) = (if q \<in> set (pn_children n) then Some ?i else pn_parent m)"
    "pn_children (g q m) = (if q = p then [] else if q = ?i then pn_children m @ pn_children n else pn_children m)"
    "pn_zombie (g q m) \<longleftrightarrow> q = p \<or> pn_zombie m" "pn_main (g q m) = pn_main m" "pn_pid (g q m) = pn_pid m" for q m
    by (simp_all add: g_def)
  have ns: "pt_nodes ?t q = map_option (g q) (pt_nodes t q)" for q
    using p by (simp add: pt_exit_def g_def)
  have sel: "pt_next ?t = pt_next t" "pt_init ?t = ?i" "pt_tasks ?t = pt_tasks t" "pt_dead ?t = pt_dead t \<union> ts"
    "pt_table ?t = (pt_table t)(pn_pid n := None)" using p by (simp_all add: pt_exit_def)
  have uniq: "q = p" if "pt_nodes t q = Some m" "c \<in> set (pn_children m)" "c \<in> set (pn_children n)" for q m c
    using pt_wfD(4) [OF wf that(1,2)] pt_wfD(4) [OF wf p(1) that(3)] by auto
  obtain ni where ni: "pt_nodes t ?i = Some ni" "\<not> pn_zombie ni" "pn_parent ni = None" using pt_wf_root [OF wf] by blast
  have node: "pt_node_ok ?t q m'" if "pt_nodes ?t q = Some m'" for q m'
  proof -
    obtain m where m: "pt_nodes t q = Some m" and m': "m' = g q m" using \<open>pt_nodes ?t q = Some m'\<close> ns by auto
    show ?thesis
    proof (rule pt_node_okI)
      show "q < pt_next ?t" using pt_wfD(1) [OF wf m] sel by simp
      show "distinct (pn_children m')"
        using pt_wfD(2) [OF wf m] pt_wfD(2) [OF wf p(1)] uniq [OF m] p(2) by (auto simp: m' gs)
      show "pn_children m' = []" if "pn_zombie m'"
        using that pt_wfD(3) [OF wf m] ni m by (auto simp: m' gs)
      show "\<exists>m1. pt_nodes ?t c = Some m1 \<and> pn_parent m1 = Some q" if c: "c \<in> set (pn_children m')" for c
      proof (cases "c \<in> set (pn_children n)")
        case True
        then have "q = ?i" using c uniq [OF m] p(2) by (auto simp: m' gs split: if_splits)
        then show ?thesis using pt_wfD(4) [OF wf p(1) True] True by (force simp: ns gs)
      next
        case False
        then have "c \<in> set (pn_children m)" using c by (auto simp: m' gs split: if_splits)
        then show ?thesis using pt_wfD(4) [OF wf m] False by (force simp: ns gs)
      qed
      show "\<exists>r m1. pn_parent m' = Some r \<and> pt_nodes ?t r = Some m1 \<and> q \<in> set (pn_children m1)" if qi: "q \<noteq> pt_init ?t"
      proof (cases "q \<in> set (pn_children n)")
        case True
        then show ?thesis using ni p(2) by (simp add: m' gs ns)
      next
        case False
        obtain r m1 where r: "pn_parent m = Some r" "pt_nodes t r = Some m1" "q \<in> set (pn_children m1)"
          using pt_wfD(5) [OF wf m] qi sel(2) by auto
        then have "r \<noteq> p" using p(1) False by auto
        then show ?thesis using r False by (simp add: m' gs ns)
      qed
      show "th < pt_tasks ?t \<and> (pn_zombie m' \<longrightarrow> th \<in> pt_dead ?t)" if "pn_main m' = Some (Some th)" for th
        using that pt_wfD(6,7) [OF wf m] ts m p(1) by (auto simp: m' gs sel)
    qed
  qed
  show ?thesis
    unfolding pt_wf_def
  proof (intro conjI allI impI)
    show "\<exists>n. pt_nodes ?t (pt_init ?t) = Some n \<and> \<not> pn_zombie n \<and> pn_parent n = None"
      using ni p(2) pt_init_not_child [OF wf p(1)] by (simp add: ns gs sel)
    show "\<exists>n. pt_nodes ?t q = Some n \<and> pn_pid n = pid' \<and> \<not> pn_zombie n" if "pt_table ?t pid' = Some q" for pid' q
      using that pt_wf_table [OF wf, of pid' q] p(1) by (auto simp: ns gs sel split: if_splits)
  qed (rule node)
qed

lemma pt_reap_wf:
  assumes wf: "pt_wf t" and par: "pt_nodes t par = Some n" "idx < length (pn_children n)"
    and z: "pt_nodes t (pn_children n ! idx) = Some m" "pn_zombie m"
  shows "pt_wf (pt_reap par idx t)"
proof -
  let ?t = "pt_reap par idx t" and ?c = "pn_children n ! idx"
  have c: "?c \<in> set (pn_children n)" using par(2) by simp
  have cp: "?c \<noteq> par" using pt_wfD(3) [OF wf z] c par(1) z(1) by auto
  have ci: "?c \<noteq> pt_init t" using pt_init_not_child [OF wf par(1)] c by auto
  let ?n = "n\<lparr>pn_children := remove_nth idx (pn_children n)\<rparr>"
  have ns: "pt_nodes ?t = (pt_nodes t)(par \<mapsto> ?n, ?c := None)" using par by (simp add: pt_reap_def)
  have sel: "pt_next ?t = pt_next t" "pt_init ?t = pt_init t" "pt_tasks ?t = pt_tasks t" "pt_dead ?t = pt_dead t"
    "pt_table ?t = pt_table t" using par by (simp_all add: pt_reap_def)
  have kids: "set (remove_nth idx (pn_children n)) = set (pn_children n) - {?c}"
    "distinct (remove_nth idx (pn_children n))"
    using pt_wfD(2) [OF wf par(1)] par(2) by (simp_all add: remove_nth_distinct)
  have keep: "pt_nodes ?t q = Some (if q = par then ?n else m1)" if "pt_nodes t q = Some m1" "q \<noteq> ?c" for q m1
    using that by (simp add: ns)
  have cparent: "pn_parent m = Some par" using pt_wfD(4) [OF wf par(1) c] z(1) by simp
  have node: "pt_node_ok ?t q m'" if q: "pt_nodes ?t q = Some m'" for q m'
  proof -
    have qc: "q \<noteq> ?c" using q by (auto simp: ns)
    obtain m1 where m1: "pt_nodes t q = Some m1" and m': "m' = (if q = par then ?n else m1)"
      using q par(1) by (auto simp: ns split: if_splits)
    have par1: "m1 = n" if "q = par" using that m1 par(1) by simp
    have sub: "set (pn_children m') = set (pn_children m1) - {?c}"
    proof (cases "q = par")
      case True
      then show ?thesis using kids(1) par1 by (simp add: m')
    next
      case False
      then have "?c \<notin> set (pn_children m1)" using pt_wfD(4) [OF wf m1, of ?c] z(1) cparent by auto
      then show ?thesis using False by (simp add: m')
    qed
    show ?thesis
    proof (rule pt_node_okI)
      show "q < pt_next ?t" using pt_wfD(1) [OF wf m1] sel by simp
      show "distinct (pn_children m')" using kids(2) pt_wfD(2) [OF wf m1] by (simp add: m')
      show "pn_children m' = []" if "pn_zombie m'"
        using that pt_wfD(3) [OF wf m1] par1 sub by (cases "q = par") (simp_all add: m')
      show "\<exists>m2. pt_nodes ?t c = Some m2 \<and> pn_parent m2 = Some q" if "c \<in> set (pn_children m')" for c
      proof -
        have c: "c \<in> set (pn_children m1)" "c \<noteq> ?c" using that sub by auto
        obtain m2 where m2: "pt_nodes t c = Some m2" "pn_parent m2 = Some q" using pt_wfD(4) [OF wf m1 c(1)] by blast
        show ?thesis using keep [OF m2(1) c(2)] m2 par(1) by (cases "c = par") simp_all
      qed
      show "\<exists>r m2. pn_parent m' = Some r \<and> pt_nodes ?t r = Some m2 \<and> q \<in> set (pn_children m2)" if qi: "q \<noteq> pt_init ?t"
      proof -
        obtain r m2 where r: "pn_parent m1 = Some r" "pt_nodes t r = Some m2" "q \<in> set (pn_children m2)"
          using pt_wfD(5) [OF wf m1] qi sel(2) by auto
        have rc: "r \<noteq> ?c" using r(2,3) z pt_wfD(3) [OF wf z] by auto
        have "pt_nodes ?t r = Some (if r = par then ?n else m2)" by (rule keep [OF r(2) rc])
        moreover have "q \<in> set (pn_children (if r = par then ?n else m2))"
          using r par(1) qc kids(1) by (cases "r = par") simp_all
        ultimately show ?thesis using r(1) par1 by (cases "q = par") (simp_all add: m')
      qed
      show "th < pt_tasks ?t \<and> (pn_zombie m' \<longrightarrow> th \<in> pt_dead ?t)" if "pn_main m' = Some (Some th)" for th
        using that pt_wfD(6,7) [OF wf m1] par1 by (cases "q = par") (simp_all add: m' sel)
    qed
  qed
  show ?thesis
    unfolding pt_wf_def
  proof (intro conjI allI impI)
    show "\<exists>n. pt_nodes ?t (pt_init ?t) = Some n \<and> \<not> pn_zombie n \<and> pn_parent n = None"
      using pt_wf_root [OF wf] ci par(1) by (auto simp: ns sel)
    show "\<exists>n. pt_nodes ?t q = Some n \<and> pn_pid n = pid' \<and> \<not> pn_zombie n" if "pt_table ?t pid' = Some q" for pid' q
      using that pt_wf_table [OF wf, of pid' q] par(1) z by (auto simp: ns sel)
  qed (rule node)
qed

section \<open>The tree of a kernel state\<close>

definition main_of :: "PCB \<Rightarrow> task option option" where
  "main_of b = (case tasks b of [] \<Rightarrow> None | t # _ \<Rightarrow> Some t)"

definition node_of :: "PCB \<Rightarrow> pnode" where
  "node_of b = \<lparr>pn_parent = parent b, pn_children = children b, pn_zombie = is_zombie b,
                 pn_code = exit_code b, pn_pid = getpid b, pn_main = main_of b\<rparr>"

definition tree_of :: "('h, 'd, 's) kernel \<Rightarrow> ptree" where
  "tree_of k = \<lparr>pt_nodes = (\<lambda>p. map_option node_of (procs k p)), pt_next = next_proc k,
                pt_init = initproc k, pt_table = pid2pcb k, pt_tasks = next_tcb k,
                pt_dead = {t. tcb_res (tcbs k t) = None}\<rparr>"

lemma tree_of_frame [simp]:
  "tree_of (k\<lparr>k_mm := a\<rparr>) = tree_of k" "tree_of (k\<lparr>k_files := b\<rparr>) = tree_of k"
  "tree_of (k\<lparr>kernel_space := c\<rparr>) = tree_of k" "tree_of (k\<lparr>pid_allocator := d\<rparr>) = tree_of k"
  "tree_of (k\<lparr>kstack_allocator := d\<rparr>) = tree_of k" "tree_of (k\<lparr>k_timers := e\<rparr>) = tree_of k"
  "tree_of (k\<lparr>k_mutexes := f\<rparr>) = tree_of k" "tree_of (k\<lparr>k_spins := j\<rparr>) = tree_of k"
  "tree_of (k\<lparr>ready_queue := h\<rparr>) = tree_of k" "tree_of (k\<lparr>current := i\<rparr>) = tree_of k"
  "tree_of (put_mem m k) = tree_of k" "tree_of (put_files st k) = tree_of k"
  by (simp_all add: tree_of_def put_mem_def put_files_def)

lemma tree_of_upd_tcb:
  "(tcb_res (f (tcbs k t)) = None \<longleftrightarrow> tcb_res (tcbs k t) = None) \<Longrightarrow> tree_of (upd_tcb t f k) = tree_of k"
  by (auto simp: tree_of_def upd_tcb_def)

lemma tree_of_upd_proc:
  "(\<And>b. procs k p = Some b \<Longrightarrow> node_of (f b) = node_of b) \<Longrightarrow> tree_of (upd_proc p f k) = tree_of k"
  by (cases "procs k p") (auto simp: tree_of_def upd_proc_def fun_eq_iff)

lemma tree_of_sched [simp]:
  "tree_of (add_task t k) = tree_of k" "tree_of (set_status t s k) = tree_of k"
  "tree_of (schedule c k) = tree_of k" "tree_of (snd (take_current_task k)) = tree_of k"
  by (auto simp add: sched_defs tree_of_def split: cx_ptr.splits option.splits)

lemma tree_of_suspend:
  "suspend_current_and_run_next k = Inr k' \<Longrightarrow> tree_of k' = tree_of k"
  "block_current_and_run_next k = Inr k' \<Longrightarrow> tree_of k' = tree_of k"
  by (auto simp: sched_defs tree_of_def elim!: rbindE split: cx_ptr.splits option.splits if_splits)

lemma node_of_frame [simp]:
  "node_of (b\<lparr>memory_set := a\<rparr>) = node_of b" "node_of (b\<lparr>signals := c\<rparr>) = node_of b"
  "node_of (b\<lparr>task_res_allocator := d\<rparr>) = node_of b" "node_of (b\<lparr>rusage := e\<rparr>) = node_of b"
  "node_of (b\<lparr>clock := f\<rparr>) = node_of b" "node_of (b\<lparr>timer := g\<rparr>) = node_of b"
  "node_of (b\<lparr>fd_table := h\<rparr>) = node_of b"
  by (simp_all add: node_of_def getpid_def main_of_def)

lemma upd_proc_sel [simp]:
  "tcbs (upd_proc p f k) = tcbs k" "next_proc (upd_proc p f k) = next_proc k" "k_mm (upd_proc p f k) = k_mm k"
  "current (upd_proc p f k) = current k" "initproc (upd_proc p f k) = initproc k"
  "procs (upd_proc p f k) = (procs k)(p := map_option f (procs k p))" "pid2pcb (upd_proc p f k) = pid2pcb k"
  "next_tcb (upd_proc p f k) = next_tcb k"
  by (simp_all add: upd_proc_def)

section \<open>Operations that keep the tree\<close>

lemma on_memory_set_tree: "on_memory_set p f k = Inr k' \<Longrightarrow> tree_of k' = tree_of k"
  by (auto simp: on_memory_set_def elim!: rbindE intro!: tree_of_upd_proc split: prod.splits)

lemma kstack_alloc_tree: "kstack_alloc k = Inr (ks, k') \<Longrightarrow> tree_of k' = tree_of k"
  by (auto simp: kstack_alloc_def elim!: rbindE split: prod.splits)

lemma KernelStack_drop_tree: "KernelStack_drop ks k = Inr k' \<Longrightarrow> tree_of k' = tree_of k"
  by (auto simp: KernelStack_drop_def elim!: rbindE split: prod.splits)

lemma alloc_user_res_tree: "alloc_user_res r k = Inr k' \<Longrightarrow> tree_of k' = tree_of k"
  by (auto simp: alloc_user_res_def Let_def elim!: rbindE dest!: on_memory_set_tree)

lemma dealloc_user_res_tree: "dealloc_user_res r k = Inr k' \<Longrightarrow> tree_of k' = tree_of k"
  by (auto simp: dealloc_user_res_def Let_def elim!: rbindE dest!: on_memory_set_tree)

lemma get_proc_Inr: "get_proc p k = Inr b \<longleftrightarrow> procs k p = Some b"
  by (simp add: get_proc_def unwrap_def split: option.splits)

lemma dealloc_tid_tree: "dealloc_tid r k = Inr k' \<Longrightarrow> tree_of k' = tree_of k"
  by (auto simp: dealloc_tid_def PCB_dealloc_tid_def get_proc_Inr elim!: rbindE intro!: tree_of_upd_proc)

lemma TaskUserRes_drop_tree: "TaskUserRes_drop r k = Inr k' \<Longrightarrow> tree_of k' = tree_of k"
  by (auto simp: TaskUserRes_drop_def elim!: rbindE dest!: dealloc_tid_tree dealloc_user_res_tree)

lemma TaskUserRes_new_tree: "TaskUserRes_new p alloc k = Inr (r, k') \<Longrightarrow> tree_of k' = tree_of k"
  by (auto simp: TaskUserRes_new_def Let_def PCB_alloc_tid_def get_proc_Inr elim!: rbindE
    dest!: alloc_user_res_tree intro!: tree_of_upd_proc split: prod.splits if_splits)

lemma TaskControlBlock_drop_tree: "TaskControlBlock_drop t k = Inr k' \<Longrightarrow> tree_of k' = tree_of k"
  by (auto simp: TaskControlBlock_drop_def elim!: rbindE dest!: KernelStack_drop_tree TaskUserRes_drop_tree
    split: option.splits)

lemma release_task_tree: "release_task t k = Inr k' \<Longrightarrow> tree_of k' = tree_of k"
  by (auto simp: release_task_def dest: TaskControlBlock_drop_tree split: if_splits)

section \<open>Spawning\<close>

lemma tree_upd_proc:
  "tree_of (upd_proc p f k) =
     (tree_of k)\<lparr>pt_nodes := (pt_nodes (tree_of k))(p := map_option (\<lambda>b. node_of (f b)) (procs k p))\<rparr>"
  by (auto simp: tree_of_def upd_proc_def fun_eq_iff option.map_comp comp_def)

lemma TaskControlBlock_new_tree:
  assumes "TaskControlBlock_new E p base alloc k = Inr (t, k')"
  shows "t = pt_tasks (tree_of k)
    \<and> tree_of k' = (tree_of k)\<lparr>pt_tasks := t + 1, pt_dead := pt_dead (tree_of k) - {t}\<rparr>"
proof -
  obtain res ks ppn k1 k2 where 1: "TaskUserRes_new p alloc k = Inr (res, k1)" and 2: "kstack_alloc k1 = Inr (ks, k2)"
    and 3: "tcb_alloc \<lparr>tcb_process = p, tcb_kstack = ks, tcb_res = Some res, tcb_trap_cx_ppn = ppn,
           tcb_cx = goto_trap_return (env_trap_return E) (KernelStack_get_top ks), tcb_status = Ready,
           tcb_exit_code = None\<rparr> k2 = (t, k')"
    using assms by (auto simp: TaskControlBlock_new_def Let_def elim!: rbindE split: prod.splits)
  have k2: "tree_of k2 = tree_of k"
    using TaskUserRes_new_tree [OF 1] kstack_alloc_tree [OF 2] by simp
  have "t = next_tcb k2" "tree_of k' = (tree_of k2)\<lparr>pt_tasks := t + 1, pt_dead := pt_dead (tree_of k2) - {t}\<rparr>"
    using 3 by (auto simp: tcb_alloc_def tree_of_def split: if_splits)
  moreover have "next_tcb k2 = pt_tasks (tree_of k2)" by (simp add: tree_of_def)
  ultimately show ?thesis using k2 by simp
qed

lemma tree_insert_pid:
  "tree_of (insert_into_pid2process pid p k) = (tree_of k)\<lparr>pt_table := (pt_table (tree_of k))(pid \<mapsto> p)\<rparr>"
  by (simp add: tree_of_def insert_into_pid2process_def)

lemma get_task_main: "get_task b 0 = Inr th \<Longrightarrow> pn_main (node_of b) = Some (Some th)"
  by (auto simp: get_task_def node_of_def main_of_def index_at_def unwrap_def elim!: rbindE
    split: list.splits option.splits if_splits)

lemma unwrap_Inr: "unwrap x = Inr y \<longleftrightarrow> x = Some y"
  by (simp add: unwrap_def split: option.splits)

text \<open>The new process before it has a thread.\<close>

definition pt_add :: "nat \<Rightarrow> usize \<Rightarrow> i32 \<Rightarrow> ptree \<Rightarrow> ptree" where
  "pt_add par pid code t =
     (let c = pt_next t;
          ns = (pt_nodes t)(c \<mapsto> \<lparr>pn_parent = Some par, pn_children = [], pn_zombie = False,
                                   pn_code = code, pn_pid = pid, pn_main = None\<rparr>)
      in t\<lparr>pt_nodes := ns(par := map_option (\<lambda>n. n\<lparr>pn_children := pn_children n @ [c]\<rparr>) (ns par)),
           pt_next := c + 1\<rparr>)"

lemma clone_stages:
  assumes "PCB_sys_clone E tick self sig k = Inr (child, k')"
  shows "\<exists>par th t k1 k2. procs k self = Some par \<and> get_task par 0 = Inr th \<and> tcb_res (tcbs k th) \<noteq> None
    \<and> TaskControlBlock_new E (next_proc k) UserStackBase False k1 = Inr (t, k2)
    \<and> tree_of k1 = pt_add self (pid0 (fst (pid_alloc (pid_allocator k)))) sig (tree_of k)
    \<and> tree_of k' = (tree_of (upd_proc (next_proc k) (\<lambda>b. b\<lparr>tasks := tasks b @ [Some t]\<rparr>) k2))
        \<lparr>pt_table := (pt_table (tree_of k2))(pid0 (fst (pid_alloc (pid_allocator k))) \<mapsto> next_proc k)\<rparr>
    \<and> child = next_proc k"
  using assms
  apply (clarsimp simp: PCB_sys_clone_def Let_def proc_alloc_def ustack_base_def get_proc_Inr unwrap_Inr elim!: rbindE split: prod.splits)
  apply (rule exI, rule exI, rule exI, rule conjI, assumption, rule conjI)
  apply (simp add: tree_upd_proc pt_add_def Let_def)
  apply (auto simp: tree_of_def node_of_def getpid_def main_of_def fun_eq_iff option.map_comp comp_def)[1]
  apply (simp add: tree_insert_pid)
  apply (simp add: tree_of_def upd_proc_def)
  done

lemma node_of_first_task:
  "main_of b = None \<Longrightarrow> node_of (b\<lparr>tasks := tasks b @ [Some t]\<rparr>) = (node_of b)\<lparr>pn_main := Some (Some t)\<rparr>"
  by (simp add: node_of_def main_of_def getpid_def split: list.splits)

lemma clone_refines_spawn:
  assumes "PCB_sys_clone E tick self sig k = Inr (child, k')"
  shows "child = pt_next (tree_of k)"
    and "tree_of k' = pt_spawn self (pid0 (fst (pid_alloc (pid_allocator k)))) sig (tree_of k)"
    and "\<exists>n th. pt_nodes (tree_of k) self = Some n \<and> pn_main n = Some (Some th) \<and> th \<notin> pt_dead (tree_of k)"
proof -
  define pid where "pid = pid0 (fst (pid_alloc (pid_allocator k)))"
  obtain par th t k1 k2 where par: "procs k self = Some par" "get_task par 0 = Inr th" "tcb_res (tcbs k th) \<noteq> None"
    and new: "TaskControlBlock_new E (next_proc k) UserStackBase False k1 = Inr (t, k2)"
    and k1: "tree_of k1 = pt_add self pid sig (tree_of k)"
    and k': "tree_of k' = (tree_of (upd_proc (next_proc k) (\<lambda>b. b\<lparr>tasks := tasks b @ [Some t]\<rparr>) k2))
        \<lparr>pt_table := (pt_table (tree_of k2))(pid \<mapsto> next_proc k)\<rparr>" and child: "child = next_proc k"
    using clone_stages [OF assms] unfolding pid_def by blast
  have next_eq: "next_proc k = pt_next (tree_of k)" by (simp add: tree_of_def)
  then show "child = pt_next (tree_of k)" using child by simp
  show "\<exists>n th. pt_nodes (tree_of k) self = Some n \<and> pn_main n = Some (Some th) \<and> th \<notin> pt_dead (tree_of k)"
    using par get_task_main by (auto simp: tree_of_def)
  have t: "t = pt_tasks (tree_of k)" and k2: "tree_of k2 = (pt_add self pid sig (tree_of k))
      \<lparr>pt_tasks := t + 1, pt_dead := pt_dead (tree_of k) - {t}\<rparr>"
    using TaskControlBlock_new_tree [OF new] k1 by (simp_all add: pt_add_def Let_def)
  obtain n where n: "pt_nodes (pt_add self pid sig (tree_of k)) (pt_next (tree_of k)) = Some n" "pn_main n = None"
    by (cases "self = pt_next (tree_of k)") (auto simp: pt_add_def Let_def)
  then have "pt_nodes (tree_of k2) (next_proc k) = Some n" by (simp add: k2 next_eq)
  then obtain b where b: "procs k2 (next_proc k) = Some b" "n = node_of b" by (auto simp: tree_of_def)
  have "main_of b = None" using n(2) b(2) by (simp add: node_of_def)
  then have "map_option (\<lambda>b. node_of (b\<lparr>tasks := tasks b @ [Some t]\<rparr>)) (procs k2 (next_proc k))
      = Some (n\<lparr>pn_main := Some (Some t)\<rparr>)"
    by (simp add: b node_of_first_task)
  then have "tree_of k' = pt_spawn self pid sig (tree_of k)"
    using n(1) by (auto simp: k' tree_upd_proc k2 next_eq t pt_add_def pt_spawn_def Let_def fun_eq_iff split: if_splits)
  then show "tree_of k' = pt_spawn self (pid0 (fst (pid_alloc (pid_allocator k)))) sig (tree_of k)"
    by (simp add: pid_def)
qed

section \<open>The first process\<close>

definition pt_first :: "usize \<Rightarrow> ptree \<Rightarrow> ptree" where
  "pt_first pid t = t\<lparr>pt_nodes := (pt_nodes t)(pt_next t \<mapsto> \<lparr>pn_parent = None, pn_children = [],
      pn_zombie = False, pn_code = 0, pn_pid = pid, pn_main = Some (Some (pt_tasks t))\<rparr>),
    pt_next := pt_next t + 1, pt_table := (pt_table t)(pid \<mapsto> pt_next t), pt_tasks := pt_tasks t + 1,
    pt_dead := pt_dead t - {pt_tasks t}\<rparr>"

lemma PCB_new_stages:
  fixes k k' :: "('h, 'd, 's) kernel"
  assumes "PCB_new E tick elf k = Inr (p, k')"
  shows "\<exists>t (k1 :: ('h, 'd, 's) kernel) k2 pid. TaskControlBlock_new E (next_proc k) UserStackBase True k1 = Inr (t, k2)
    \<and> tree_of k1 = (tree_of k)\<lparr>pt_nodes := (pt_nodes (tree_of k))(next_proc k \<mapsto> \<lparr>pn_parent = None, pn_children = [],
          pn_zombie = False, pn_code = 0, pn_pid = pid, pn_main = None\<rparr>), pt_next := next_proc k + 1\<rparr>
    \<and> tree_of k' = (tree_of (upd_proc (next_proc k) (\<lambda>b. b\<lparr>tasks := tasks b @ [Some t]\<rparr>) k2))
        \<lparr>pt_table := (pt_table (tree_of k2))(pid \<mapsto> next_proc k)\<rparr> \<and> p = next_proc k"
  using assms
  apply (clarsimp simp: PCB_new_def Let_def proc_alloc_def elim!: rbindE split: prod.splits)
  apply (rule exI, rule exI, rule exI, rule conjI, assumption, rule exI, rule conjI)
   apply (auto simp: tree_of_def node_of_def getpid_def main_of_def fun_eq_iff) [1]
  apply (simp add: tree_insert_pid)
  apply (simp add: tree_of_def upd_proc_def put_mem_def)
  done

lemma PCB_new_refines_first:
  assumes "PCB_new E tick elf k = Inr (p, k')"
  shows "p = pt_next (tree_of k) \<and> (\<exists>pid. tree_of k' = pt_first pid (tree_of k))"
proof -
  obtain t k1 k2 pid where new: "TaskControlBlock_new E (next_proc k) UserStackBase True k1 = Inr (t, k2)"
    and k1: "tree_of k1 = (tree_of k)\<lparr>pt_nodes := (pt_nodes (tree_of k))(next_proc k \<mapsto> \<lparr>pn_parent = None,
          pn_children = [], pn_zombie = False, pn_code = 0, pn_pid = pid, pn_main = None\<rparr>), pt_next := next_proc k + 1\<rparr>"
    and k': "tree_of k' = (tree_of (upd_proc (next_proc k) (\<lambda>b. b\<lparr>tasks := tasks b @ [Some t]\<rparr>) k2))
        \<lparr>pt_table := (pt_table (tree_of k2))(pid \<mapsto> next_proc k)\<rparr>" and p: "p = next_proc k"
    using PCB_new_stages [OF assms] by blast
  have next_eq: "next_proc k = pt_next (tree_of k)" by (simp add: tree_of_def)
  have t: "t = pt_tasks (tree_of k)" and k2: "tree_of k2 = (tree_of k1)
      \<lparr>pt_tasks := t + 1, pt_dead := pt_dead (tree_of k) - {t}\<rparr>"
    using TaskControlBlock_new_tree [OF new] k1 by simp_all
  let ?n = "\<lparr>pn_parent = None, pn_children = [], pn_zombie = False, pn_code = 0, pn_pid = pid, pn_main = None\<rparr>"
  have "pt_nodes (tree_of k2) (next_proc k) = Some ?n" by (simp add: k2 k1)
  then obtain b where b: "procs k2 (next_proc k) = Some b" "node_of b = ?n" by (auto simp: tree_of_def)
  have "main_of b = None" using b(2) by (simp add: node_of_def)
  then have "map_option (\<lambda>b. node_of (b\<lparr>tasks := tasks b @ [Some t]\<rparr>)) (procs k2 (next_proc k))
      = Some (?n\<lparr>pn_main := Some (Some t)\<rparr>)"
    by (simp add: b node_of_first_task)
  then have "tree_of k' = pt_first pid (tree_of k)"
    by (auto simp: k' tree_upd_proc k2 k1 next_eq t pt_first_def)
  then show ?thesis using p next_eq by blast
qed

text \<open>Booting: the first process, made in a kernel without processes, is a well-formed tree.\<close>

lemma pt_first_wf:
  "pt_nodes t = (\<lambda>_. None) \<Longrightarrow> pt_table t = (\<lambda>_. None) \<Longrightarrow> pt_wf ((pt_first pid t)\<lparr>pt_init := pt_next t\<rparr>)"
  by (auto simp: pt_first_def pt_wf_def pt_node_ok_def)

lemma add_initproc_wf:
  fixes k k' :: "('h, 'd, 's) kernel"
  assumes "add_initproc E tick k = Some (Inr k')" and empty: "procs k = (\<lambda>_. None)" "pid2pcb k = (\<lambda>_. None)"
  shows "pt_wf (tree_of k')"
proof -
  obtain s p elf and k1 :: "('h, 'd, 's) kernel"
    where new: "PCB_new E tick elf (k\<lparr>k_files := (k_files k)\<lparr>fs_fat := s\<rparr>\<rparr>) = Inr (p, k1)"
    and k': "k' = k1\<lparr>initproc := p\<rparr>"
    using assms(1) by (auto simp: add_initproc_def elim!: obindE split: prod.splits)
  obtain pid where "p = pt_next (tree_of k)" "tree_of k1 = pt_first pid (tree_of k)"
    using PCB_new_refines_first [OF new] by auto
  moreover have "tree_of k' = (tree_of k1)\<lparr>pt_init := p\<rparr>" by (simp add: k' tree_of_def)
  moreover have "pt_nodes (tree_of k) = (\<lambda>_. None)" "pt_table (tree_of k) = (\<lambda>_. None)"
    using empty by (simp_all add: tree_of_def)
  ultimately show ?thesis by (simp add: pt_first_wf)
qed

section \<open>Exit\<close>

text \<open>The children \<open>cs\<close> moved below the root \<open>i\<close>.\<close>

definition pt_moved :: "nat list \<Rightarrow> nat \<Rightarrow> (nat \<Rightarrow> pnode option) \<Rightarrow> nat \<Rightarrow> pnode option" where
  "pt_moved cs i ns = (\<lambda>q. map_option (\<lambda>n.
      n\<lparr>pn_parent := (if q \<in> set cs then Some i else pn_parent n),
        pn_children := (if q = i then pn_children n @ cs else pn_children n)\<rparr>) (ns q))"

lemma pt_moved_Nil [simp]: "pt_moved [] i ns = ns"
proof
  fix q show "pt_moved [] i ns q = ns q" by (cases "ns q") (simp_all add: pt_moved_def)
qed

lemma pt_moved_Cons: "pt_moved cs i (pt_moved [c] i ns) = pt_moved (c # cs) i ns"
  by (auto simp: pt_moved_def fun_eq_iff option.map_comp comp_def intro!: map_option_cong)

lemma reparent_one_tree:
  "reparent c k = Inr k' \<Longrightarrow> tree_of k' = (tree_of k)\<lparr>pt_nodes := pt_moved [c] (initproc k) (pt_nodes (tree_of k))\<rparr>
     \<and> initproc k' = initproc k"
  by (auto simp: reparent_def Let_def tree_upd_proc tree_of_def pt_moved_def node_of_def [abs_def] getpid_def main_of_def
    fun_eq_iff option.map_comp comp_def elim!: rbindE)

lemma reparent_tree:
  "rfold reparent cs k = Inr k' \<Longrightarrow>
     tree_of k' = (tree_of k)\<lparr>pt_nodes := pt_moved cs (initproc k) (pt_nodes (tree_of k))\<rparr>
     \<and> initproc k' = initproc k"
  by (induction cs arbitrary: k) (auto elim!: rbindE dest!: reparent_one_tree simp: pt_moved_Cons)

lemma tree_take_res:
  "tree_of (upd_tcb t (\<lambda>b. b\<lparr>tcb_res := None\<rparr>) k) = (tree_of k)\<lparr>pt_dead := insert t (pt_dead (tree_of k))\<rparr>"
  by (auto simp: tree_of_def upd_tcb_def split: if_splits)

lemma take_all_res_tree:
  "take_all_res ts k = (rs, k') \<Longrightarrow>
     tree_of k' = (tree_of k)\<lparr>pt_dead := pt_dead (tree_of k) \<union> {t. Some t \<in> set ts}\<rparr>"
proof (induction ts k arbitrary: rs k' rule: take_all_res.induct)
  case (3 t ts k)
  show ?case
  proof (cases "tcb_res (tcbs k t)")
    case None
    then have "t \<in> pt_dead (tree_of k)" by (simp add: tree_of_def)
    then have "pt_dead (tree_of k) \<union> {u. Some u \<in> set ts} = pt_dead (tree_of k) \<union> {u. Some u \<in> set (Some t # ts)}"
      by auto
    then show ?thesis using 3 None by simp
  next
    case (Some r)
    then obtain rs' where "take_all_res ts (upd_tcb t (\<lambda>b. b\<lparr>tcb_res := None\<rparr>) k) = (rs', k')"
      using "3.prems" by (auto split: prod.splits)
    then have "tree_of k' = (tree_of k)\<lparr>pt_dead := insert t (pt_dead (tree_of k)) \<union> {u. Some u \<in> set ts}\<rparr>"
      using 3(2) [OF Some] by (simp add: tree_take_res)
    moreover have "insert t (pt_dead (tree_of k)) \<union> {u. Some u \<in> set ts}
        = pt_dead (tree_of k) \<union> {u. Some u \<in> set (Some t # ts)}" by auto
    ultimately show ?thesis by simp
  qed
qed (simp_all add: tree_of_def)

lemma drop_all_res_tree: "rfold TaskUserRes_drop rs k = Inr k' \<Longrightarrow> tree_of k' = tree_of k"
  by (induction rs arbitrary: k) (auto elim!: rbindE dest!: TaskUserRes_drop_tree)

lemma pop_tasks_tree:
  "pop_tasks p ts k = Inr k' \<Longrightarrow> pt_nodes (tree_of k) p = Some n \<Longrightarrow>
     pn_main n = (case ts of [] \<Rightarrow> None | t # _ \<Rightarrow> Some t) \<Longrightarrow> tree_of k' = tree_of k"
proof (induction p ts k arbitrary: k' rule: pop_tasks.induct)
  case (1 p ts k)
  show ?case
  proof (cases "length ts > 1")
    case False
    then show ?thesis using "1.prems"(1) by (simp add: pop_tasks.simps [of p ts k])
  next
    case True
    define k1 where "k1 = upd_proc p (\<lambda>pcb. pcb\<lparr>tasks := butlast ts\<rparr>) k"
    obtain k2 where k2: "(case last ts of None \<Rightarrow> Inr k1 | Some t \<Rightarrow> release_task t k1) = Inr k2"
      and pop: "pop_tasks p (butlast ts) k2 = Inr k'"
      using "1.prems"(1) True by (auto simp: pop_tasks.simps [of p ts k] k1_def [symmetric] Let_def elim!: rbindE)
    have hd: "(case butlast ts of [] \<Rightarrow> None | t # _ \<Rightarrow> Some t) = (case ts of [] \<Rightarrow> None | t # _ \<Rightarrow> Some t)"
      using True by (cases ts) (auto split: list.splits)
    have "node_of (b\<lparr>tasks := butlast ts\<rparr>) = node_of b" if "procs k p = Some b" for b
      using that "1.prems"(2,3) hd by (auto simp: tree_of_def node_of_def main_of_def getpid_def split: list.splits)
    then have "tree_of k1 = tree_of k" unfolding k1_def by (rule tree_of_upd_proc)
    moreover have "tree_of k2 = tree_of k1"
      using k2 by (auto dest: release_task_tree split: option.splits)
    ultimately have eq: "tree_of k2 = tree_of k" by simp
    show ?thesis
      using "1.IH" [OF True k1_def k2 pop] "1.prems"(2,3) hd eq by simp
  qed
qed

lemma exit_process_stages:
  fixes k k' :: "('h, 'd, 's) kernel"
  assumes "exit_process p code k = Inr (Some k')"
  shows "\<exists>b (k1 :: ('h, 'd, 's) kernel) k2 k3 k4 k5 rs. procs k p = Some b \<and> initproc k \<noteq> p
    \<and> rfold reparent (children b) k1 = Inr k2 \<and> take_all_res (tasks b) k2 = (rs, k3)
    \<and> rfold TaskUserRes_drop rs k3 = Inr k4 \<and> pop_tasks p (tasks b) k5 = Inr k'
    \<and> tree_of k1 = (tree_of k)\<lparr>
        pt_nodes := (pt_nodes (tree_of k))(p \<mapsto> (node_of b)\<lparr>pn_zombie := True, pn_code := code\<rparr>),
        pt_table := (pt_table (tree_of k))(getpid b := None)\<rparr> \<and> initproc k1 = initproc k
    \<and> tree_of k5 = tree_of (upd_proc p (\<lambda>pcb. pcb\<lparr>children := []\<rparr>) k4)"
  using assms
  apply (clarsimp simp: exit_process_def Let_def get_proc_Inr remove_from_pid2process_def elim!: rbindE
      split: prod.splits if_splits)
  apply ((rule exI)+, rule conjI, assumption, (rule exI)+, rule conjI, assumption, rule conjI, assumption,
      rule conjI, assumption, intro conjI)
  subgoal by (auto simp: tree_upd_proc tree_of_def node_of_def getpid_def main_of_def)
  subgoal by simp
  subgoal by (subst tree_of_upd_proc) (auto dest: on_memory_set_tree)
  done

lemma exit_refines:
  fixes k k' :: "('h, 'd, 's) kernel"
  assumes "exit_process p code k = Inr (Some k')"
  shows "initproc k \<noteq> p"
    and "\<exists>b. procs k p = Some b \<and> tree_of k' = pt_exit p code {t. Some t \<in> set (tasks b)} (tree_of k)"
proof -
  obtain b and k1 k2 k3 k4 k5 :: "('h, 'd, 's) kernel" and rs where b: "procs k p = Some b" and init: "initproc k \<noteq> p"
    and k2: "rfold reparent (children b) k1 = Inr k2" and k3: "take_all_res (tasks b) k2 = (rs, k3)"
    and k4: "rfold TaskUserRes_drop rs k3 = Inr k4" and pop: "pop_tasks p (tasks b) k5 = Inr k'"
    and k1: "tree_of k1 = (tree_of k)\<lparr>
        pt_nodes := (pt_nodes (tree_of k))(p \<mapsto> (node_of b)\<lparr>pn_zombie := True, pn_code := code\<rparr>),
        pt_table := (pt_table (tree_of k))(getpid b := None)\<rparr>" "initproc k1 = initproc k"
    and k5: "tree_of k5 = tree_of (upd_proc p (\<lambda>pcb. pcb\<lparr>children := []\<rparr>) k4)"
    using exit_process_stages [OF assms] by blast
  show "initproc k \<noteq> p" by fact
  define ts where "ts = {t. Some t \<in> set (tasks b)}"
  let ?n = "(node_of b)\<lparr>pn_zombie := True, pn_code := code\<rparr>"
  have t4: "tree_of k4 = (tree_of k1)\<lparr>pt_nodes := pt_moved (children b) (initproc k) (pt_nodes (tree_of k1)),
      pt_dead := pt_dead (tree_of k) \<union> ts\<rparr>"
    using reparent_tree [OF k2] take_all_res_tree [OF k3] drop_all_res_tree [OF k4] k1
    by (simp add: ts_def)
  have "pt_nodes (tree_of k4) p = pt_moved (children b) (initproc k) (pt_nodes (tree_of k1)) p"
    by (simp add: t4)
  also have "\<dots> = Some (?n\<lparr>pn_parent := (if p \<in> set (children b) then Some (initproc k) else parent b)\<rparr>)"
    using init by (simp add: pt_moved_def k1 node_of_def)
  finally have n4: "pt_nodes (tree_of k4) p = \<dots>" .
  then obtain b4 where b4: "procs k4 p = Some b4"
    "node_of b4 = ?n\<lparr>pn_parent := (if p \<in> set (children b) then Some (initproc k) else parent b)\<rparr>"
    by (auto simp: tree_of_def)
  have "node_of (b4\<lparr>children := []\<rparr>) = (node_of b4)\<lparr>pn_children := []\<rparr>" by (simp add: node_of_def getpid_def main_of_def)
  then have t5: "tree_of k5 = (tree_of k4)\<lparr>pt_nodes := (pt_nodes (tree_of k4))
      (p \<mapsto> ?n\<lparr>pn_parent := (if p \<in> set (children b) then Some (initproc k) else parent b), pn_children := []\<rparr>)\<rparr>"
    using b4 by (simp add: k5 tree_upd_proc)
  have "tree_of k' = tree_of k5"
    by (rule pop_tasks_tree [OF pop, of "?n\<lparr>pn_parent := (if p \<in> set (children b) then Some (initproc k) else parent b),
      pn_children := []\<rparr>"]) (simp_all add: t5 node_of_def main_of_def)
  also have "\<dots> = pt_exit p code ts (tree_of k)"
    using b init unfolding t5 t4 pt_exit_def k1
    by (auto simp: tree_of_def pt_moved_def fun_eq_iff node_of_def intro!: map_option_cong)
  finally show "\<exists>b. procs k p = Some b \<and> tree_of k' = pt_exit p code {t. Some t \<in> set (tasks b)} (tree_of k)"
    using b ts_def by blast
qed

section \<open>Reaping\<close>

lemma release_tasks_tree:
  "rfold (\<lambda>t k. case t of None \<Rightarrow> Inr k | Some t \<Rightarrow> release_task t k) ts k = Inr k' \<Longrightarrow> tree_of k' = tree_of k"
  by (induction ts arbitrary: k) (auto elim!: rbindE dest!: release_task_tree split: option.splits)

lemma PCB_drop_tree:
  "PCB_drop p k = Inr k' \<Longrightarrow> tree_of k' = (tree_of k)\<lparr>pt_nodes := (pt_nodes (tree_of k))(p := None)\<rparr>"
  by (auto simp: PCB_drop_def Let_def elim!: rbindE dest!: release_tasks_tree) (auto simp: tree_of_def)

lemma node_of_children: "node_of (b\<lparr>children := cs\<rparr>) = (node_of b)\<lparr>pn_children := cs\<rparr>"
  by (simp add: node_of_def getpid_def main_of_def)

lemma pn_children_node_of [simp]: "pn_children (node_of b) = children b"
  by (simp add: node_of_def)

lemma pt_nodes_tree: "pt_nodes (tree_of k) p = map_option node_of (procs k p)"
  by (simp add: tree_of_def)

lemma reap_child_tree:
  assumes "reap_child held token statusp self idx k = Inr (out, k')"
  shows "tree_of k' = pt_reap self idx (tree_of k)"
  using assms unfolding reap_child_def Let_def
  by (auto simp: get_proc_Inr tree_upd_proc pt_reap_def pt_nodes_tree node_of_children elim!: rbindE
    dest!: PCB_drop_tree split: if_splits)

lemma wait4_tree:
  assumes "sys_wait4_round held pid statusp opts k = Inr (out, k')"
  shows "tree_of k' = tree_of k \<or>
    (\<exists>self n idx m. pt_nodes (tree_of k) self = Some n \<and> idx < length (pn_children n)
       \<and> pt_nodes (tree_of k) (pn_children n ! idx) = Some m \<and> pn_zombie m
       \<and> tree_of k' = pt_reap self idx (tree_of k))"
proof -
  have node: "\<exists>n. pt_nodes (tree_of k) self = Some n \<and> pn_children n = children b" if "procs k self = Some b" for self b
    using that by (simp add: tree_of_def node_of_def)
  have zombie: "\<exists>m. pt_nodes (tree_of k) c = Some m \<and> pn_zombie m" if "child_zombie k c" for c
    using that by (auto simp: tree_of_def node_of_def child_zombie_def split: option.splits)
  show ?thesis
    using assms
    by (auto simp: sys_wait4_round_def get_proc_Inr elim!: rbindE
      dest!: tree_of_suspend(1) position_SomeD reap_child_tree node zombie split: if_splits option.splits)
      metis+
qed

lemma wait4_wf:
  "sys_wait4_round held pid statusp opts k = Inr (out, k') \<Longrightarrow> pt_wf (tree_of k) \<Longrightarrow> pt_wf (tree_of k')"
  using wait4_tree [of held pid statusp opts k out k'] pt_reap_wf by metis

section \<open>System calls on files\<close>

lemma install_fd_more: "install_fd f p = Inr (n, p') \<Longrightarrow> fd_proc.more p' = fd_proc.more p"
  by (auto simp: install_fd_def alloc_fd_def Let_def elim!: rbindE split: prod.splits option.splits)

lemma sys_getcwd_more: "sys_getcwd token a b p st = Some (Inr (r, p', st')) \<Longrightarrow> fd_proc.more p' = fd_proc.more p"
  by (auto simp: sys_getcwd_def Let_def elim!: obindE rbindE
    split: prod.splits option.splits sum.splits if_splits io_outcome.splits list.splits)

lemma sys_chdir_more: "sys_chdir fs token a p st = Some (Inr (r, p', st')) \<Longrightarrow> fd_proc.more p' = fd_proc.more p"
  by (auto simp: sys_chdir_def Let_def elim!: obindE rbindE
    split: prod.splits option.splits sum.splits if_splits io_outcome.splits list.splits)

lemma sys_mkdirat_more: "sys_mkdirat fs token a b c p st = Some (Inr (r, p', st')) \<Longrightarrow> fd_proc.more p' = fd_proc.more p"
  by (auto simp: sys_mkdirat_def Let_def elim!: obindE rbindE
    split: prod.splits option.splits sum.splits if_splits io_outcome.splits list.splits)

lemma sys_dup_more: "sys_dup a p st = Some (Inr (r, p', st')) \<Longrightarrow> fd_proc.more p' = fd_proc.more p"
  by (auto simp: sys_dup_def Let_def elim!: obindE rbindE
    dest!: install_fd_more
    split: prod.splits option.splits sum.splits if_splits io_outcome.splits list.splits)

lemma sys_dup3_more: "sys_dup3 a b c p st = Some (Inr (r, p', st')) \<Longrightarrow> fd_proc.more p' = fd_proc.more p"
  by (auto simp: sys_dup3_def Let_def elim!: obindE rbindE
    split: prod.splits option.splits sum.splits if_splits io_outcome.splits list.splits)

lemma sys_close_more: "sys_close a p st = Some (Inr (r, p', st')) \<Longrightarrow> fd_proc.more p' = fd_proc.more p"
  by (auto simp: sys_close_def Let_def elim!: obindE rbindE
    split: prod.splits option.splits sum.splits if_splits io_outcome.splits list.splits)

lemma sys_read_more: "sys_read fs token a b c p st = Some (Inr (r, p', st')) \<Longrightarrow> fd_proc.more p' = fd_proc.more p"
  by (auto simp: sys_read_def Let_def elim!: obindE rbindE
    split: prod.splits option.splits sum.splits if_splits io_outcome.splits list.splits)

lemma sys_write_more: "sys_write u fs token a b c p st = Some (Inr (r, p', st')) \<Longrightarrow> fd_proc.more p' = fd_proc.more p"
  by (auto simp: sys_write_def Let_def elim!: obindE rbindE
    split: prod.splits option.splits sum.splits if_splits io_outcome.splits list.splits)

lemma sys_getdents64_more: "sys_getdents64 fs pad token a b c p st = Some (Inr (r, p', st')) \<Longrightarrow> fd_proc.more p' = fd_proc.more p"
  by (auto simp: sys_getdents64_def Let_def elim!: obindE rbindE
    split: prod.splits option.splits sum.splits if_splits io_outcome.splits list.splits)

lemma sys_open_more: "sys_open fs token a b p st = Some (Inr (r, p', st')) \<Longrightarrow> fd_proc.more p' = fd_proc.more p"
  by (auto simp: sys_open_def Let_def elim!: obindE rbindE
    dest!: install_fd_more
    split: prod.splits option.splits sum.splits if_splits io_outcome.splits list.splits)

lemma sys_openat_more: "sys_openat fs token a b c d p st = Some (Inr (r, p', st')) \<Longrightarrow> fd_proc.more p' = fd_proc.more p"
  by (auto simp: sys_openat_def Let_def elim!: obindE rbindE
    dest!: install_fd_more sys_open_more
    split: prod.splits option.splits sum.splits if_splits io_outcome.splits list.splits)

lemma sys_fstat_more: "sys_fstat token a b p st = Some (Inr (r, p', st')) \<Longrightarrow> fd_proc.more p' = fd_proc.more p"
  by (auto simp: sys_fstat_def Let_def elim!: obindE rbindE
    split: prod.splits option.splits sum.splits if_splits io_outcome.splits list.splits)

lemma sys_pipe2_more: "sys_pipe2 token a b p st = Some (Inr (r, p', st')) \<Longrightarrow> fd_proc.more p' = fd_proc.more p"
  by (auto simp: sys_pipe2_def Let_def elim!: obindE rbindE
    dest!: install_fd_more
    split: prod.splits option.splits sum.splits if_splits io_outcome.splits list.splits)

lemma sys_unlinkat_more: "sys_unlinkat fs token a b c p st = Some (Inr (r, p', st')) \<Longrightarrow> fd_proc.more p' = fd_proc.more p"
  by (auto simp: sys_unlinkat_def Let_def elim!: obindE rbindE
    split: prod.splits option.splits sum.splits if_splits io_outcome.splits list.splits)

lemma sys_umount2_more: "sys_umount2 fs token a b p st = Some (Inr (r, p', st')) \<Longrightarrow> fd_proc.more p' = fd_proc.more p"
  by (auto simp: sys_umount2_def Let_def elim!: obindE rbindE
    split: prod.splits option.splits sum.splits if_splits io_outcome.splits list.splits)

lemma sys_mount_more: "sys_mount fs token a b c d e p st = Some (Inr (r, p', st')) \<Longrightarrow> fd_proc.more p' = fd_proc.more p"
  by (auto simp: sys_mount_def Let_def elim!: obindE rbindE
    split: prod.splits option.splits sum.splits if_splits io_outcome.splits list.splits)

lemma node_of_more: "fd_proc.more b' = fd_proc.more b \<Longrightarrow> node_of b' = node_of b"
  by (cases b; cases b') (simp add: node_of_def getpid_def main_of_def)

lemma fs_call_tree:
  assumes "fs_call f k = Some (Inr (out, k'))"
    and "\<And>token p st r p' st'. f token p st = Some (Inr (r, p', st')) \<Longrightarrow> fd_proc.more p' = fd_proc.more p"
  shows "tree_of k' = tree_of k"
  using assms(1)
  by (auto simp: fs_call_def get_proc_Inr elim!: obindE intro!: tree_of_upd_proc node_of_more assms(2) split: prod.splits)

lemma io_call_tree:
  assumes "io_call w fd f k = Some (Inr (out, k'))"
    and "\<And>token p st r p' st'. f token p st = Some (Inr (r, p', st')) \<Longrightarrow> fd_proc.more p' = fd_proc.more p"
  shows "tree_of k' = tree_of k"
proof -
  have "tree_of (put_files st (upd_proc p (\<lambda>_. b') k)) = tree_of k"
    if "procs k p = Some b" "f token b st0 = Some (Inr (r, b', st))" for p b b' token st0 st r
    using that assms(2) by (auto intro!: tree_of_upd_proc node_of_more)
  then show ?thesis
    using assms(1)
    by (auto simp: io_call_def get_proc_Inr Let_def elim!: obindE dest!: tree_of_suspend(1)
      split: prod.splits sum.splits option.splits File.splits)
qed

lemma fs_calls_tree:
  "fs_call (\<lambda>token. sys_openat fs token a1 b1 c1 d1) k = Some (Inr (out, k')) \<Longrightarrow> tree_of k' = tree_of k"
  "fs_call (\<lambda>token. sys_close a2) k = Some (Inr (out, k')) \<Longrightarrow> tree_of k' = tree_of k"
  "fs_call (\<lambda>token. sys_getcwd token a3 b3) k = Some (Inr (out, k')) \<Longrightarrow> tree_of k' = tree_of k"
  "fs_call (\<lambda>token. sys_dup a4) k = Some (Inr (out, k')) \<Longrightarrow> tree_of k' = tree_of k"
  "fs_call (\<lambda>token. sys_dup3 a5 b5 c5) k = Some (Inr (out, k')) \<Longrightarrow> tree_of k' = tree_of k"
  "fs_call (\<lambda>token. sys_mkdirat fs token a6 b6 c6) k = Some (Inr (out, k')) \<Longrightarrow> tree_of k' = tree_of k"
  "fs_call (\<lambda>token. sys_chdir fs token a7) k = Some (Inr (out, k')) \<Longrightarrow> tree_of k' = tree_of k"
  "fs_call (\<lambda>token. sys_getdents64 fs pad token a8 b8 c8) k = Some (Inr (out, k')) \<Longrightarrow> tree_of k' = tree_of k"
  "fs_call (\<lambda>token. sys_fstat token a9 b9) k = Some (Inr (out, k')) \<Longrightarrow> tree_of k' = tree_of k"
  "fs_call (\<lambda>token. sys_pipe2 token a10 b10) k = Some (Inr (out, k')) \<Longrightarrow> tree_of k' = tree_of k"
  "fs_call (\<lambda>token. sys_umount2 fs token a11 b11) k = Some (Inr (out, k')) \<Longrightarrow> tree_of k' = tree_of k"
  "fs_call (\<lambda>token. sys_unlinkat fs token a12 b12 c12) k = Some (Inr (out, k')) \<Longrightarrow> tree_of k' = tree_of k"
  "fs_call (\<lambda>token. sys_mount fs token a13 b13 c13 d13 e13) k = Some (Inr (out, k')) \<Longrightarrow> tree_of k' = tree_of k"
  by (erule fs_call_tree, erule sys_openat_more,
      erule fs_call_tree, erule sys_close_more,
      erule fs_call_tree, erule sys_getcwd_more,
      erule fs_call_tree, erule sys_dup_more,
      erule fs_call_tree, erule sys_dup3_more,
      erule fs_call_tree, erule sys_mkdirat_more,
      erule fs_call_tree, erule sys_chdir_more,
      erule fs_call_tree, erule sys_getdents64_more,
      erule fs_call_tree, erule sys_fstat_more,
      erule fs_call_tree, erule sys_pipe2_more,
      erule fs_call_tree, erule sys_umount2_more,
      erule fs_call_tree, erule sys_unlinkat_more,
      erule fs_call_tree, erule sys_mount_more)

lemma io_calls_tree:
  "io_call w fd (\<lambda>token. sys_read fs token a14 b14 c14) k = Some (Inr (out, k')) \<Longrightarrow> tree_of k' = tree_of k"
  "io_call w fd (\<lambda>token. sys_write u15 fs token a15 b15 c15) k = Some (Inr (out, k')) \<Longrightarrow> tree_of k' = tree_of k"
  by (erule io_call_tree, erule sys_read_more, erule io_call_tree, erule sys_write_more)

section \<open>The other system calls\<close>

lemma sys_brk_tree: "sys_brk a k = Some (Inr (out, k')) \<Longrightarrow> tree_of k' = tree_of k"
  by (auto simp: sys_brk_def Let_def elim!: rbindE intro!: tree_of_upd_proc split: if_splits prod.splits)

lemma sys_munmap_tree: "sys_munmap a b k = Some (Inr (out, k')) \<Longrightarrow> tree_of k' = tree_of k"
  by (auto simp: sys_munmap_def Let_def elim!: rbindE intro!: tree_of_upd_proc split: if_splits prod.splits)

lemma sys_mmap_tree: "sys_mmap E a b c d e f k = Some (Inr (out, k')) \<Longrightarrow> tree_of k' = tree_of k"
  by (auto simp: sys_mmap_def Let_def elim!: obindE intro!: tree_of_upd_proc split: if_splits prod.splits sum.splits)

lemma PCB_exec_tree: "PCB_exec E p elf args k = Inr k' \<Longrightarrow> tree_of k' = tree_of k"
  by (auto simp: PCB_exec_def Let_def tree_of_upd_tcb tree_of_upd_proc elim!: rbindE dest!: alloc_user_res_tree
    split: prod.splits)

lemma sys_execve_tree: "sys_execve E a b c k = Some (Inr (out, k')) \<Longrightarrow> tree_of k' = tree_of k"
  by (auto simp: sys_execve_def Let_def elim!: obindE dest!: PCB_exec_tree split: if_splits prod.splits option.splits)

lemma sys_sleep_tree:
  "sys_nanosleep tick a b k = Some (Inr (out, k')) \<Longrightarrow> tree_of k' = tree_of k"
  "sys_nanosleep_resume tick t b k = Some (Inr (out, k')) \<Longrightarrow> tree_of k' = tree_of k"
  by (auto simp: sys_nanosleep_def sys_nanosleep_resume_def Let_def elim!: obindE dest!: tree_of_suspend(2)
    split: if_splits)

lemma sys_small_tree:
  "sys_yield k = Some (Inr (out, k')) \<Longrightarrow> tree_of k' = tree_of k"
  "sys_getpid k = Some (Inr (out, k')) \<Longrightarrow> tree_of k' = tree_of k"
  "sys_getppid k = Some (Inr (out, k')) \<Longrightarrow> tree_of k' = tree_of k"
  "sys_times tick a k = Some (Inr (out, k')) \<Longrightarrow> tree_of k' = tree_of k"
  "sys_uname a k = Some (Inr (out, k')) \<Longrightarrow> tree_of k' = tree_of k"
  "sys_gettimeofday tick a b k = Some (Inr (out, k')) \<Longrightarrow> tree_of k' = tree_of k"
  by (auto simp: sys_yield_def sys_getpid_def sys_getppid_def sys_times_def sys_uname_def sys_gettimeofday_def Let_def
    elim!: obindE rbindE dest!: tree_of_suspend(1) split: if_splits option.splits)

lemma sys_clone_wf:
  assumes "sys_clone E tick flags a b c d k = Some (Inr (out, k'))" and wf: "pt_wf (tree_of k)"
  shows "pt_wf (tree_of k')"
proof -
  obtain par child k1 sig where clone: "PCB_sys_clone E tick par sig k = Inr (child, k1)" and k': "tree_of k' = tree_of k1"
    using assms(1) by (auto simp: sys_clone_def Let_def elim!: rbindE split: prod.splits if_splits)
  show ?thesis
    using clone_refines_spawn(2,3) [OF clone] pt_spawn_wf [OF wf] k' by auto
qed

section \<open>Ending a task\<close>

lemma pt_wf_dead: "pt_wf t \<Longrightarrow> pt_wf (t\<lparr>pt_dead := insert x (pt_dead t)\<rparr>)"
  unfolding pt_wf_def pt_node_ok_def by simp

lemma exit_process_wf:
  assumes "exit_process p code k = Inr (Some k')" and wf: "pt_wf (tree_of k)"
  shows "pt_wf (tree_of k')"
proof -
  obtain b where b: "procs k p = Some b" "tree_of k' = pt_exit p code {t. Some t \<in> set (tasks b)} (tree_of k)"
    using exit_refines(2) [OF assms(1)] by blast
  have "th \<in> {t. Some t \<in> set (tasks b)}" if "pn_main (node_of b) = Some (Some th)" for th
    using that by (auto simp: node_of_def main_of_def split: list.splits)
  then show ?thesis
    using pt_exit_wf [OF wf, of p "node_of b"] exit_refines(1) [OF assms(1)] b by (simp add: tree_of_def)
qed

lemma exit_current_wf:
  assumes "exit_current_and_run_next code k = Inr (Some k')" and wf: "pt_wf (tree_of k)"
  shows "pt_wf (tree_of k')"
proof -
  obtain t r k1 k2 where k1: "TaskUserRes_drop r (upd_tcb t (\<lambda>b. b\<lparr>tcb_exit_code := Some code, tcb_res := None\<rparr>)
        (snd (take_current_task k))) = Inr k1" and k2: "release_task t k1 = Inr k2"
    and k': "(\<exists>p k3. exit_process p code k2 = Inr (Some k3) \<and> k' = schedule Unused_Cx k3) \<or> k' = schedule Unused_Cx k2"
    using assms(1)
    by (auto simp: exit_current_and_run_next_def Let_def elim!: rbindE split: prod.splits if_splits) blast
  have "tree_of (upd_tcb t (\<lambda>b. b\<lparr>tcb_exit_code := Some code, tcb_res := None\<rparr>) (snd (take_current_task k)))
      = (tree_of k)\<lparr>pt_dead := insert t (pt_dead (tree_of k))\<rparr>"
    by (auto simp: tree_of_def upd_tcb_def take_current_task_def split: if_splits)
  then have "pt_wf (tree_of k2)"
    using TaskUserRes_drop_tree [OF k1] release_task_tree [OF k2] pt_wf_dead [OF wf, of t] by simp
  then show ?thesis using k' exit_process_wf by auto
qed

section \<open>Every trap keeps the invariant\<close>

lemma check_timer_tree:
  "check_timer_loop ms (ts, k) = (ts', k') \<Longrightarrow> tree_of k' = tree_of k"
proof (induction ms "(ts, k)" arbitrary: ts k rule: check_timer_loop.induct)
  case (1 ms ts k)
  then show ?case
    by (subst (asm) (2) check_timer_loop.simps) (auto simp: wakeup_task_def split: option.splits if_splits)
qed

lemma sys_exit_wf: "sys_exit c k = Some (Inr (out, k')) \<Longrightarrow> pt_wf (tree_of k) \<Longrightarrow> pt_wf (tree_of k')"
  by (auto simp: sys_exit_def elim!: rbindE dest: exit_current_wf split: option.splits)

lemma sys_wait4_loop_wf:
  assumes "sys_wait4_loop held pid statusp opts k = Some (Inr (out, k'))" and "pt_wf (tree_of k)"
  shows "pt_wf (tree_of k')"
proof -
  have "\<forall>out k'. y = Inr (out, k') \<longrightarrow> pt_wf (tree_of k) \<longrightarrow> pt_wf (tree_of k')"
    if "sys_wait4_loop held pid statusp opts k = Some y" for y
  proof (rule sys_wait4_loop.raw_induct [OF _ that])
    fix loop held pid statusp opts k y
    assume IH: "\<And>held pid statusp opts k y. loop held pid statusp opts k = Some y \<Longrightarrow>
        \<forall>out k'. y = Inr (out, k') \<longrightarrow> pt_wf (tree_of k) \<longrightarrow> pt_wf (tree_of k')"
      and y: "(case sys_wait4_round held pid statusp opts k of Inl e \<Rightarrow> Some (Inl e)
        | Inr (out, k) \<Rightarrow> (case out of Some out \<Rightarrow> Some (Inr (out, k)) | None \<Rightarrow> loop held pid statusp opts k)) = Some y"
    show "\<forall>out k'. y = Inr (out, k') \<longrightarrow> pt_wf (tree_of k) \<longrightarrow> pt_wf (tree_of k')"
      using y IH by (auto split: sum.splits prod.splits option.splits dest!: wait4_wf)
  qed
  with assms show ?thesis by blast
qed

lemma sys_wait4_wf:
  "sys_wait4 held pid statusp opts ru k = Some (Inr (out, k')) \<Longrightarrow> pt_wf (tree_of k) \<Longrightarrow> pt_wf (tree_of k')"
  by (auto simp: sys_wait4_def elim!: obindE dest: sys_wait4_loop_wf)

lemma syscall_wf:
  assumes "syscall E tick padding held i args k = Some (Inr (out, k'))" and "pt_wf (tree_of k)"
  shows "pt_wf (tree_of k')"
  using assms unfolding syscall_def Let_def
  by (simp only: split: if_splits)
    (auto dest: fs_calls_tree io_calls_tree sys_brk_tree sys_munmap_tree sys_mmap_tree sys_execve_tree
      sys_sleep_tree sys_small_tree sys_clone_wf sys_exit_wf sys_wait4_wf)

end
