(* ===== verification/Trap_Safety.thy ===== *)
theory Trap_Safety
  imports Proc_Tree
begin

text \<open>
  What holds of the machine from trap to trap: the process tree stays well formed, a process that
  faults does not run on, a system call returns behind its instruction with its result, and the
  time of a process is accounted for without loss.
\<close>

section \<open>The steps of the machine\<close>

text \<open>
  A trap from a user program, the continuation of a trap whose task runs again, a trap from the
  kernel, a round of the idle loop, and user programs (or devices) writing to memory.
\<close>

inductive kernel_step ::
  "('h, 'd, 's) kenv \<Rightarrow> trap_syms \<Rightarrow> hart \<times> ('h, 'd, 's) kernel \<Rightarrow> hart \<times> ('h, 'd, 's) kernel \<Rightarrow> bool"
  for E :: "('h, 'd, 's) kenv" and S :: trap_syms where
  trap: "trap_handler E S tick_in tick_call tick_out padding held cause (h, k) = Some (Inr (out, h', k'))
      \<Longrightarrow> kernel_step E S (h, k) (h', k')"
| resume: "trap_resume E S tick_call tick_out held w (h, k) = Some (Inr (out, h', k'))
      \<Longrightarrow> kernel_step E S (h, k) (h', k')"
| kernel_trap: "trap_from_kernel tick cause (h, k) = Inr (h', k') \<Longrightarrow> kernel_step E S (h, k) (h', k')"
| idle: "kernel_step E S (h, k) (h, run_tasks_round k)"
| store: "kernel_step E S (h, k) (h, put_mem m k)"

lemma kernel_check_timer_tree [simp]: "tree_of (kernel_check_timer tick k) = tree_of k"
  using check_timer_tree
  by (auto simp: kernel_check_timer_def check_timer_def split: prod.splits)

lemma run_tasks_round_tree [simp]: "tree_of (run_tasks_round k) = tree_of k"
  by (auto simp: sched_defs tree_of_def split: list.splits if_splits)

lemma times_tree:
  "enter_times tick k = Inr k' \<Longrightarrow> tree_of k' = tree_of k"
  "leave_times tick k = Inr k' \<Longrightarrow> tree_of k' = tree_of k"
  by (auto simp: enter_times_def leave_times_def update_process_times_enter_trap_def
    update_process_times_leave_trap_def update_itimer_real_if_exists_def add_signal_def Let_def
    elim!: rbindE intro!: tree_of_upd_proc)

lemma trap_leave_wf:
  "trap_leave S tick (h, k) = Some (Inr (out, h', k')) \<Longrightarrow> pt_wf (tree_of k) \<Longrightarrow> pt_wf (tree_of k')"
  by (auto simp: trap_leave_def trap_return_def Let_def elim!: obindE dest!: times_tree exit_current_wf
    split: option.splits)

lemma after_syscall_wf:
  "after_syscall S tick h (out, k) = Some (Inr (r, h', k')) \<Longrightarrow> pt_wf (tree_of k) \<Longrightarrow> pt_wf (tree_of k')"
  by (auto simp: after_syscall_def set_result_def elim!: obindE rbindE dest!: trap_leave_wf split: sys_out.splits)

lemma current_add_signal_tree: "current_add_signal s k = Inr k' \<Longrightarrow> tree_of k' = tree_of k"
  by (auto simp: current_add_signal_def add_signal_def elim!: rbindE intro!: tree_of_upd_proc)

lemma trap_handler_wf:
  assumes "trap_handler E S t1 t2 t3 padding held cause (h, k) = Some (Inr (out, h', k'))" and "pt_wf (tree_of k)"
  shows "pt_wf (tree_of k')"
  using assms
  by (auto simp: trap_handler_def Let_def advance_sepc_def elim!: obindE
    dest!: times_tree current_add_signal_tree after_syscall_wf trap_leave_wf tree_of_suspend(1) syscall_wf
    split: trap_cause.splits exception.splits interrupt.splits prod.splits)

lemma mutex_lock_tree: "mutex_lock m k = Inr (out, k') \<Longrightarrow> tree_of k' = tree_of k"
  by (auto simp: mutex_lock_def MutexSpin_lock_round_def MutexBlocking_lock_def Let_def elim!: rbindE
    dest!: tree_of_suspend split: mutex_ref.splits if_splits)

lemma sys_resume_wf:
  "sys_resume E tick held w k = Some (Inr (out, k')) \<Longrightarrow> pt_wf (tree_of k) \<Longrightarrow> pt_wf (tree_of k')"
  by (auto simp: sys_resume_def Let_def elim!: obindE
    dest: sys_wait4_loop_wf sys_sleep_tree mutex_lock_tree dest!: tree_of_suspend(1)
    split: wait_call.splits prod.splits io_outcome.splits)

lemma trap_resume_wf:
  "trap_resume E S t2 t3 held w (h, k) = Some (Inr (out, h', k')) \<Longrightarrow> pt_wf (tree_of k) \<Longrightarrow> pt_wf (tree_of k')"
  by (auto simp: trap_resume_def elim!: obindE dest!: trap_leave_wf sys_resume_wf after_syscall_wf split: option.splits)

lemma kernel_step_wf:
  "kernel_step E S s s' \<Longrightarrow> pt_wf (tree_of (snd s)) \<Longrightarrow> pt_wf (tree_of (snd s'))"
  by (induction rule: kernel_step.induct)
    (auto simp: trap_from_kernel_def dest: trap_handler_wf trap_resume_wf split: trap_cause.splits interrupt.splits)

lemma kernel_steps_wf:
  "(kernel_step E S)\<^sup>*\<^sup>* s s' \<Longrightarrow> pt_wf (tree_of (snd s)) \<Longrightarrow> pt_wf (tree_of (snd s'))"
  by (induction rule: rtranclp_induct) (auto dest: kernel_step_wf)

section \<open>The references to a child that is reaped\<close>

lemma reaped_child_unreferenced:
  assumes wf: "pt_wf (tree_of k)" and b: "procs k self = Some b" "idx < length (children b)"
    and z: "child_zombie k (children b ! idx)"
  shows "proc_refs (children b ! idx) (upd_proc self (\<lambda>pcb. pcb\<lparr>children := remove_nth idx (children pcb)\<rparr>) k) = 0"
proof -
  let ?c = "children b ! idx"
  let ?k = "upd_proc self (\<lambda>pcb. pcb\<lparr>children := remove_nth idx (children pcb)\<rparr>) k"
  have nb: "pt_nodes (tree_of k) self = Some (node_of b)" using b(1) by (simp add: pt_nodes_tree)
  have c: "?c \<in> set (pn_children (node_of b))" using b(2) by simp
  obtain m where m: "pt_nodes (tree_of k) ?c = Some m" "pn_parent m = Some self" using pt_wfD(4) [OF wf nb c] by blast
  obtain cb where cb: "procs k ?c = Some cb" "is_zombie cb"
    using z by (auto simp: child_zombie_def split: option.splits)
  have other: "?c \<notin> set (children b')" if "procs k q = Some b'" "q \<noteq> self" for q b'
    using pt_wfD(4) [OF wf, of q "node_of b'" ?c] that m by (auto simp: pt_nodes_tree)
  have own: "?c \<notin> set (remove_nth idx (children b))"
    using remove_nth_distinct(1) [of "children b" idx] pt_wfD(2) [OF wf nb] b(2) by simp
  have "(case procs ?k q of None \<Rightarrow> 0 | Some pcb \<Rightarrow> count_list (children pcb) ?c) = 0" for q
    using other own b(1) by (cases "q = self") (auto simp: count_list_0_iff split: option.splits)
  moreover have "(case procs ?k ?c of None \<Rightarrow> 0 | Some pcb \<Rightarrow> if pid2pcb ?k (getpid pcb) = Some ?c then 1 else 0) = (0 :: nat)"
  proof -
    have "pid2pcb k pid \<noteq> Some ?c" for pid
      using pt_wf_table [OF wf, of pid ?c] cb by (auto simp: tree_of_def node_of_def)
    then show ?thesis by (auto split: option.splits)
  qed
  ultimately show ?thesis by (simp add: proc_refs_def)
qed

section \<open>Faults\<close>

lemma check_error_signal:
  "bitflags_contains s SIGSEGV \<Longrightarrow> check_error s \<noteq> None" "bitflags_contains s SIGILL \<Longrightarrow> check_error s \<noteq> None"
  by (simp_all add: check_error_def)

lemma contains_or:
  "bitflags_contains (s OR f) f" "bitflags_contains s f \<Longrightarrow> bitflags_contains (s OR g) f"
  for s f g :: SignalFlags
  unfolding bitflags_contains_def bit_eq_iff by (auto simp: bit_simps)

text \<open>Leaving the trap only adds signals.\<close>

lemma leave_signals:
  "bitflags_contains (signals b) f \<Longrightarrow> bitflags_contains (signals (update_process_times_leave_trap tick b)) f"
  by (simp add: update_process_times_leave_trap_def update_itimer_real_if_exists_def add_signal_def Let_def contains_or)

lemma current_process_upd: "current_process (upd_proc p f k) = current_process k"
  by (auto simp: current_process_def get_proc_def current_task_def unwrap_def rbind_def split: sum.splits option.splits)

text \<open>With a fatal signal pending, the way out of a trap does not lead back to the program.\<close>

lemma trap_leave_signal:
  assumes "trap_leave S tick (h, k) = Some (Inr (out, h', k'))" and "current_process k = Inr p" "procs k p = Some b"
    and "bitflags_contains (signals b) f" "f = SIGSEGV \<or> f = SIGILL"
  shows "out = Task_Exited \<or> out = Powered_Off"
proof -
  obtain k1 err where k1: "leave_times tick k = Inr k1" and err: "check_signals_of_current k1 = Inr err"
    and rest: "(case err of
        Some (errno, msg) \<Rightarrow>
          obind (Some (exit_current_and_run_next errno k1)) (\<lambda>k'.
          case k' of None \<Rightarrow> oret (Powered_Off, h, k1) | Some k \<Rightarrow> oret (Task_Exited, h, k))
      | None \<Rightarrow> trap_return S (h, k1)) = Some (Inr (out, h', k'))"
    using assms(1) by (auto simp: trap_leave_def elim!: obindE)
  have "k1 = upd_proc p (update_process_times_leave_trap tick) k"
    using k1 assms(2) by (auto simp: leave_times_def)
  then have "err = check_error (signals (update_process_times_leave_trap tick b))"
    using err assms(2,3) by (auto simp: check_signals_of_current_def current_process_upd get_proc_def unwrap_def)
  then have "err \<noteq> None"
    using leave_signals [OF assms(4), of tick] assms(5) check_error_signal by auto
  then show ?thesis using rest by (auto elim!: obindE split: option.splits)
qed

lemma added_signal_pending:
  assumes "current_add_signal f k = Inr k'"
  shows "\<exists>p b. current_process k' = Inr p \<and> procs k' p = Some b \<and> bitflags_contains (signals b) f"
proof -
  obtain p where p: "current_process k = Inr p" and k': "k' = upd_proc p (add_signal f) k"
    using assms by (auto simp: current_add_signal_def elim!: rbindE)
  then obtain b where "procs k p = Some b"
    by (auto simp: current_process_def get_proc_Inr elim!: rbindE)
  then show ?thesis using p by (simp add: k' current_process_upd add_signal_def contains_or)
qed

section \<open>Time accounting\<close>

text \<open>A series of traps: the readings of the clock on entry and on leaving.\<close>

definition account_traps :: "(usize \<times> usize) list \<Rightarrow> PCB \<Rightarrow> PCB" where
  "account_traps ts b = fold (\<lambda>(t1, t2) b. update_process_times_leave_trap t2 (update_process_times_enter_trap t1 b)) ts b"

definition cpu_time :: "PCB \<Rightarrow> nat" where
  "cpu_time b = tv_us (ru_utime (rusage b)) + tv_us (ru_stime (rusage b))"

definition tick_us :: "usize \<Rightarrow> nat" where "tick_us t = unat t * 1000000 div 12500000"

fun ordered_from :: "usize \<Rightarrow> (usize \<times> usize) list \<Rightarrow> bool" where
  "ordered_from t [] \<longleftrightarrow> True"
| "ordered_from t ((t1, t2) # ts) \<longleftrightarrow> t \<le> t1 \<and> t1 \<le> t2 \<and> ordered_from t2 ts"

definition last_leave :: "usize \<Rightarrow> (usize \<times> usize) list \<Rightarrow> usize" where
  "last_leave t ts = (if ts = [] then t else snd (last ts))"

lemma tick_us_mono: "t \<le> t' \<Longrightarrow> tick_us t \<le> tick_us t'"
  by (simp add: tick_us_def word_le_nat_alt div_le_mono)

lemma tick_us_bound: "tick_us t < 2 ^ 64"
proof -
  have "tick_us t \<le> unat t" unfolding tick_us_def by simp
  then show ?thesis using unat_lt2p [of t] by simp
qed

lemma leave_utime:
  "rusage (update_itimer_real_if_exists d b) = rusage b" "clock (update_itimer_real_if_exists d b) = clock b"
  by (auto simp: update_itimer_real_if_exists_def add_signal_def Let_def)

lemma account_one:
  assumes "last_enter_u_mode (clock b) = TimeVal_now t0" and "t0 \<le> t1" "t1 \<le> t2"
    and "cpu_time b + (tick_us t2 - tick_us t0) < 2 ^ 64"
  shows "cpu_time (update_process_times_leave_trap t2 (update_process_times_enter_trap t1 b))
      = cpu_time b + (tick_us t2 - tick_us t0)"
    and "last_enter_u_mode (clock (update_process_times_leave_trap t2 (update_process_times_enter_trap t1 b))) = TimeVal_now t2"
proof -
  let ?b = "update_process_times_leave_trap t2 (update_process_times_enter_trap t1 b)"
  have now: "tv_us (TimeVal_now t) = tick_us t" for t by (simp add: TimeVal_now_def tv_us_from_tick tick_us_def)
  have m: "tick_us t0 \<le> tick_us t1" "tick_us t1 \<le> tick_us t2" using assms(2,3) by (simp_all add: tick_us_mono)
  have d1: "tv_us (TimeVal_sub (TimeVal_now t1) (TimeVal_now t0)) = tick_us t1 - tick_us t0"
    and d2: "tv_us (TimeVal_sub (TimeVal_now t2) (TimeVal_now t1)) = tick_us t2 - tick_us t1"
    using tick_us_bound by (simp_all add: tv_us_sub now)
  have u: "ru_utime (rusage ?b) = TimeVal_add (ru_utime (rusage b)) (TimeVal_sub (TimeVal_now t1) (TimeVal_now t0))"
    and s: "ru_stime (rusage ?b) = TimeVal_add (ru_stime (rusage b)) (TimeVal_sub (TimeVal_now t2) (TimeVal_now t1))"
    and "last_enter_u_mode (clock ?b) = TimeVal_now t2"
    using assms(1) by (simp_all add: update_process_times_leave_trap_def update_process_times_enter_trap_def Let_def leave_utime)
  show "last_enter_u_mode (clock ?b) = TimeVal_now t2" by fact
  have "tv_us (ru_utime (rusage b)) + (tick_us t1 - tick_us t0) < 2 ^ 64"
    "tv_us (ru_stime (rusage b)) + (tick_us t2 - tick_us t1) < 2 ^ 64"
    using assms(4) m by (simp_all add: cpu_time_def)
  then show "cpu_time ?b = cpu_time b + (tick_us t2 - tick_us t0)"
    using m unfolding cpu_time_def u s by (simp add: tv_us_add d1 d2)
qed

lemma ordered_last: "ordered_from t ts \<Longrightarrow> t \<le> last_leave t ts"
proof (induction t ts rule: ordered_from.induct)
  case (2 t t1 t2 ts)
  then have "t \<le> t2" "t2 \<le> last_leave t2 ts" by auto
  moreover have "last_leave t ((t1, t2) # ts) = last_leave t2 ts" by (simp add: last_leave_def)
  ultimately show ?case by simp
qed (simp add: last_leave_def)

lemma account_traps_total:
  assumes "last_enter_u_mode (clock b) = TimeVal_now t0" and "ordered_from t0 ts"
    and "cpu_time b + (tick_us (last_leave t0 ts) - tick_us t0) < 2 ^ 64"
  shows "cpu_time (account_traps ts b) = cpu_time b + (tick_us (last_leave t0 ts) - tick_us t0)"
  using assms
proof (induction t0 ts arbitrary: b rule: ordered_from.induct)
  case (1 t)
  then show ?case by (simp add: account_traps_def last_leave_def)
next
  case (2 t t1 t2 ts)
  let ?b = "update_process_times_leave_trap t2 (update_process_times_enter_trap t1 b)"
  have o: "t \<le> t1" "t1 \<le> t2" "ordered_from t2 ts" using "2.prems"(2) by auto
  have l: "last_leave t ((t1, t2) # ts) = last_leave t2 ts" by (simp add: last_leave_def)
  have m: "tick_us t \<le> tick_us t2" "tick_us t2 \<le> tick_us (last_leave t2 ts)"
    using o ordered_last [OF o(3)] by (auto intro: tick_us_mono)
  have lt: "cpu_time b + (tick_us t2 - tick_us t) < 2 ^ 64" using "2.prems"(3) m by (simp add: l)
  note one = account_one [OF "2.prems"(1) o(1,2) lt]
  have "cpu_time ?b + (tick_us (last_leave t2 ts) - tick_us t2) < 2 ^ 64"
    using one(1) "2.prems"(3) m by (simp add: l)
  then have "cpu_time (account_traps ts ?b) = cpu_time ?b + (tick_us (last_leave t2 ts) - tick_us t2)"
    by (rule "2.IH" [OF one(2) o(3)])
  moreover have "account_traps ((t1, t2) # ts) b = account_traps ts ?b" by (simp add: account_traps_def)
  ultimately show ?case using one(1) m by (simp add: l)
qed

section \<open>System calls\<close>

lemma enter_times_sel:
  assumes "enter_times tick k = Inr k1"
  shows "k_mm k1 = k_mm k" and "current_trap_cx k1 = current_trap_cx k"
  using assms by (auto simp: enter_times_def current_trap_cx_def get_trap_cx_def current_task_def elim!: rbindE)

lemma leave_times_mm: "leave_times tick k = Inr k1 \<Longrightarrow> k_mm k1 = k_mm k"
  by (auto simp: leave_times_def elim!: rbindE)

text \<open>A register of a trap context does not overlap its program counter.\<close>

lemma read_reg_sepc:
  assumes "r < 32"
  shows "read_u64 (write_u64 m (sepc_addr cx) v) (reg_addr cx r) = read_u64 m (reg_addr cx r)"
proof -
  have "write_u64 m (sepc_addr cx) v (reg_addr cx r + of_nat j) = m (reg_addr cx r + of_nat j)" if "j < 8" for j
  proof -
    let ?x = "of_nat (8 * r + j) - 264 :: usize"
    have "\<not> unat ?x < 8"
    proof
      assume lt: "unat ?x < 8"
      have "of_nat (8 * r + j) = 264 + ?x" by simp
      then have "unat (of_nat (8 * r + j) :: usize) = unat (264 + ?x)" by (rule arg_cong)
      also have "\<dots> = 264 + unat ?x" using lt by (subst unat_plus_nowrap) simp_all
      finally show False using assms that by (simp only: unat_of_nat) simp
    qed
    then have "\<not> unat (reg_addr cx r + of_nat j - sepc_addr cx) < 8" by (simp add: reg_addr_def sepc_addr_def algebra_simps)
    then show ?thesis unfolding write_u64_def write_bytes_def by (simp del: of_nat_add of_nat_mult)
  qed
  then have "read_bytes (write_u64 m (sepc_addr cx) v) (reg_addr cx r) 8 = read_bytes m (reg_addr cx r) 8"
    by (intro nth_equalityI) simp_all
  then show ?thesis by (simp add: read_u64_def)
qed

lemma trap_leave_return:
  assumes "trap_leave S tick (h, k) = Some (Inr (Return_To_User r va satp, h', k'))"
  shows "k_mm k' = k_mm k" and "stvec h' = TRAMPOLINE" and "\<not> sie h'"
    and "current_trap_cx_user_va k' = Inr va" and "current_user_token k' = Inr satp"
    and "r = restore S - alltraps S + TRAMPOLINE"
  using assms
  by (auto simp: trap_leave_def trap_return_def set_user_trap_entry_def disable_supervisor_interrupt_def Let_def
    elim!: obindE dest: leave_times_mm split: option.splits)

text \<open>What one system call does between the trap and the return, for a call that returns.\<close>

lemma syscall_trap_stages:
  assumes "trap_handler E S t1 t2 t3 padding held (Exception UserEnvCall) (h, k)
      = Some (Inr (Return_To_User r va satp, h', k'))"
    and cx: "current_trap_cx k = Inr cx"
  obtains k1 v k2 k3 h1 where "enter_times t1 k = Inr k1"
    "syscall E t2 padding held (read_u64 (mm_mem (k_mm k)) (reg_addr cx reg_a7))
       (map (\<lambda>i. read_u64 (mm_mem (k_mm k)) (reg_addr cx (reg_a0 + i))) [0..<6]) (advance_sepc cx k1) = Some (Inr (Ret v, k2))"
    "set_result v k2 = Inr k3" "trap_leave S t3 (h1, k3) = Some (Inr (Return_To_User r va satp, h', k'))"
proof -
  obtain k1 out k2 h1 where k1: "enter_times t1 k = Inr k1"
    and call: "syscall E t2 padding held (read_u64 (mm_mem (k_mm (advance_sepc cx k1))) (reg_addr cx reg_a7))
       (syscall_args cx (advance_sepc cx k1)) (advance_sepc cx k1) = Some (Inr (out, k2))"
    and after: "after_syscall S t3 h1 (out, k2) = Some (Inr (Return_To_User r va satp, h', k'))"
    using assms by (auto simp: trap_handler_def Let_def enter_times_sel(2) elim!: obindE)
  obtain v k3 where v: "out = Ret v" "set_result v k2 = Inr k3"
    "trap_leave S t3 (h1, k3) = Some (Inr (Return_To_User r va satp, h', k'))"
    using after by (auto simp: after_syscall_def elim!: obindE split: sys_out.splits)
  have regs: "read_u64 (mm_mem (k_mm (advance_sepc cx k1))) (reg_addr cx i) = read_u64 (mm_mem (k_mm k)) (reg_addr cx i)"
    if "i < 32" for i
    using read_reg_sepc [OF that] enter_times_sel(1) [OF k1] by (simp add: advance_sepc_def put_mem_def)
  have "syscall_args cx (advance_sepc cx k1) = map (\<lambda>i. read_u64 (mm_mem (k_mm k)) (reg_addr cx (reg_a0 + i))) [0..<6]"
    by (auto simp: syscall_args_def reg_a0_def regs)
  with call v that [OF k1] show thesis by (simp add: regs reg_a7_def)
qed

section \<open>A small machine\<close>

text \<open>
  Three processes: the initial one, its child 1 that runs, and the child 2 of the latter, a zombie.
  The running task is about to make the call \<open>getpid\<close>.
\<close>

definition demo_pcb :: "usize \<Rightarrow> nat option \<Rightarrow> nat list \<Rightarrow> bool \<Rightarrow> task option list \<Rightarrow> PCB" where
  "demo_pcb pid par cs z ts =
     \<lparr>cwd = ''/'', cwd_inode = Stdin, fd_table = [], pcb_pid = PidHandle pid, is_zombie = z,
      memory_set = \<lparr>page_table = \<lparr>root_ppn = PhysPageNum 7, frames = []\<rparr>, areas = [], brk = 0, heap_start = 0\<rparr>,
      parent = par, children = cs, exit_code = 0, signals = 0, tasks = ts,
      task_res_allocator = \<lparr>ra_current = 1, ra_recycled = []\<rparr>, mutex_list = [], semaphore_list = [], condvar_list = [],
      rusage = Rusage_new, clock = ProcClock_new 0, timer = ITimerVal_new, tgid = pid\<rparr>"

definition demo_files :: "(nat, unit, u8 list) fsys" where
  "demo_files =
     \<lparr>fs_mem = (\<lambda>_. 0), fs_fat = [], fs_inodes = (\<lambda>_. OSInode_new True True (FatFile 1) False ''/f''), fs_ninodes = 0,
      fs_pipes = (\<lambda>_. (fst (make_pipe), 0)), fs_npipes = 0, fs_rings = (\<lambda>_. snd (snd make_pipe)), fs_nrings = 0,
      fs_console_in = [], fs_console_out = []\<rparr>"

definition demo_tcb :: TaskControlBlock where
  "demo_tcb =
     \<lparr>tcb_process = 1, tcb_kstack = KernelStack 0, tcb_res = Some \<lparr>ur_tid = 0, ur_process = 1\<rparr>,
      tcb_trap_cx_ppn = PhysPageNum 1, tcb_cx = zero_init, tcb_status = Running, tcb_exit_code = None\<rparr>"

definition demo_kernel :: "(nat, unit, u8 list) kernel" where
  "demo_kernel =
     \<lparr>tcbs = (\<lambda>_. demo_tcb), next_tcb = 1, ready_queue = [], current = Some 0, idle_task_cx = zero_init, cpu = zero_init,
      k_mm = \<lparr>mm_mem = (\<lambda>a. if a = 0x1000 + 136 then 172 else 0),
              mm_alloc = \<lparr>fa_current = 8, fa_end = 8, fa_recycled = []\<rparr>\<rparr>,
      k_files = demo_files,
      kernel_space = \<lparr>page_table = \<lparr>root_ppn = PhysPageNum 6, frames = []\<rparr>, areas = [], brk = 0, heap_start = 0\<rparr>,
      pid_allocator = \<lparr>ra_current = 3, ra_recycled = []\<rparr>, kstack_allocator = \<lparr>ra_current = 1, ra_recycled = []\<rparr>,
      procs = [0 \<mapsto> demo_pcb 0 None [1] False [], 1 \<mapsto> demo_pcb 1 (Some 0) [2] False [Some 0],
               2 \<mapsto> demo_pcb 2 (Some 1) [] True []],
      next_proc = 3, pid2pcb = [0 \<mapsto> 0, 1 \<mapsto> 1], initproc = 0, k_timers = [], k_spins = (\<lambda>_. MutexSpin_new),
      k_mutexes = (\<lambda>_. MutexBlocking_new), k_semaphores = (\<lambda>_. Semaphore_new 0), k_condvars = (\<lambda>_. Condvar_new),
      next_sync = 0\<rparr>"

definition demo_env :: "(nat, unit, u8 list) kenv" where
  "demo_env =
     \<lparr>env_strampoline = 0x2000, env_trap_handler = 0x3000, env_trap_return = 0x4000, env_sstatus = 0, env_parse = (\<lambda>_. None),
      env_fs = ram_fs, env_from_utf8 = (\<lambda>_. None)\<rparr>"

definition demo_syms :: trap_syms where
  "demo_syms = \<lparr>alltraps = 0x2000, alltraps_k = 0x2100, restore = 0x2200, trap_from_kernel_addr = 0x5000\<rparr>"

definition demo_hart :: hart where
  "demo_hart = \<lparr>stvec = 0, sscratch = 0, sie = False, stimer = True, deadline = 0\<rparr>"

lemmas demo_defs = demo_pcb_def demo_files_def demo_tcb_def demo_kernel_def demo_env_def demo_syms_def demo_hart_def

lemma demo_wf: "pt_wf (tree_of demo_kernel)"
  by (auto simp: pt_wf_def pt_node_ok_def tree_of_def node_of_def main_of_def getpid_def demo_defs split: if_splits)

lemma demo_current:
  "current_process demo_kernel = Inr 1" "current_user_token demo_kernel = Inr (MemorySet_token (memory_set (demo_pcb 0 None [] False [])))"
  "current_trap_cx demo_kernel = Inr 0x1000"
  "procs demo_kernel 1 = Some (demo_pcb 1 (Some 0) [2] False [Some 0])"
  by (simp_all add: current_process_def current_user_token_def current_trap_cx_def current_task_def TCB_get_user_token_def
    get_user_token_def get_trap_cx_def PhysAddr_get_mut_def PhysAddr_from_PhysPageNum_def get_proc_def unwrap_def demo_defs PAGE_SIZE_BITS_def)

lemma demo_vpns:
  "VirtPageNum_from_VirtAddr (VirtAddr_from (ustack_bottom_from_tid 0))
     = Inr (VirtAddr_floor (VirtAddr_from (ustack_bottom_from_tid 0)))"
  "VirtPageNum_from_VirtAddr (VirtAddr_from (trap_cx_bottom_from_tid 0))
     = Inr (VirtAddr_floor (VirtAddr_from (trap_cx_bottom_from_tid 0)))"
  by code_simp+

lemma demo_upt: "[0..<3] = [0, 1, 2 :: nat]" by code_simp

lemma demo_a7: "read_u64 (\<lambda>a. if a = 4232 then 172 else 0) (reg_addr 4096 17) = 172"
  by code_simp

lemmas demo_eval = get_proc_def unwrap_def rassert_def upd_proc_def upd_tcb_def getpid_def Let_def demo_vpns demo_upt
  demo_defs current_process_def current_task_def

lemmas demo_exit_eval = demo_eval exit_process_def remove_from_pid2process_def reparent_def TaskUserRes_drop_def
  dealloc_tid_def PCB_dealloc_tid_def dealloc_user_res_def on_memory_set_def RecycleAllocator_dealloc_def
  recycle_data_pages_def pop_tasks.simps drop_fd_table_def IDLE_PID_def remove_area_with_start_vpn_def
  exit_current_and_run_next_def take_current_task_def release_task_def task_referenced_def

lemmas demo_trap_eval = trap_handler_def enter_times_def leave_times_def trap_leave_def check_signals_of_current_def
  update_process_times_enter_trap_def update_process_times_leave_trap_def update_itimer_real_if_exists_def
  TimeVal_is_zero_def ITimerVal_new_def TimeVal_new_def check_error_def bitflags_contains_def signal_defs

lemma demo_exit: "\<exists>k. exit_process 1 5 demo_kernel = Inr (Some k)"
  by (simp add: demo_exit_eval)

lemma demo_reap: "\<exists>k. reap_child (\<lambda>_. 0) 0 0 1 0 demo_kernel = Inr (Some (Ret 2), k)"
  by (simp add: demo_exit_eval reap_child_def PCB_drop_def PidHandle_drop_def MemorySet_drop_def proc_refs_def
    File_drop_def upd_strong_def remove_nth_def)

lemma demo_fault:
  "\<exists>h' k'. trap_handler demo_env demo_syms 0 0 0 [] (\<lambda>_. 0) (Exception StorePageFault) (demo_hart, demo_kernel)
     = Some (Inr (Task_Exited, h', k'))"
  by (simp add: demo_trap_eval current_add_signal_def add_signal_def demo_exit_eval)

lemma demo_getpid:
  "\<exists>a b c h' k'. trap_handler demo_env demo_syms 0 0 0 [] (\<lambda>_. 0) (Exception UserEnvCall) (demo_hart, demo_kernel)
     = Some (Inr (Return_To_User a b c, h', k'))"
  by (simp add: demo_trap_eval demo_eval current_trap_cx_def get_trap_cx_def PhysAddr_get_mut_def
    PhysAddr_from_PhysPageNum_def PAGE_SIZE_BITS_def advance_sepc_def put_mem_def syscall_def syscall_ids
    sys_getpid_def after_syscall_def set_result_def trap_return_def current_trap_cx_user_va_def
    current_user_token_def TCB_get_user_token_def read_reg_sepc reg_a7_def demo_a7)

text \<open>From the boot on: the kernel has no process before \<open>add_initproc\<close>.\<close>

lemma booted_tree_wf:
  assumes "add_initproc E tick k0 = Some (Inr k)" and "procs k0 = (\<lambda>_. None)" and "pid2pcb k0 = (\<lambda>_. None)"
    and "(kernel_step E S)\<^sup>*\<^sup>* (h, k) (h', k')"
  shows "pt_wf (tree_of k')"
  using kernel_steps_wf [OF assms(4)] add_initproc_wf [OF assms(1-3)] by simp

section \<open>Properties\<close>

text \<open>
  C1. The process tree stays well formed through every trap. In any run made of traps from user
  programs (all system calls with all their outcomes, faults and preemption), of traps that go on
  when their task runs again, of timer interrupts in the kernel, of rounds of the idle loop and of
  stores to memory: the initial process stays alive and at the root, the children of a process are
  alive, without repetition, and name it as their parent, every other process is a child of a live
  one, a zombie has no children, and the table of processes holds processes that have not exited
  under their ids.\<close>

theorem process_tree_preserved:
  assumes "(kernel_step E S)\<^sup>*\<^sup>* (h, k) (h', k')" and "pt_wf (tree_of k)"
  shows "pt_wf (tree_of k')"
  using kernel_steps_wf [OF assms(1)] assms(2) by simp

theorem process_tree_preserved_witness:
  "\<exists>h' k'. trap_handler demo_env demo_syms 0 0 0 [] (\<lambda>_. 0) (Exception StorePageFault) (demo_hart, demo_kernel)
     = Some (Inr (Task_Exited, h', k')) \<and> pt_wf (tree_of k')"
proof -
  obtain h' k' where t: "trap_handler demo_env demo_syms 0 0 0 [] (\<lambda>_. 0) (Exception StorePageFault)
      (demo_hart, demo_kernel) = Some (Inr (Task_Exited, h', k'))"
    using demo_fault by blast
  then have "(kernel_step demo_env demo_syms)\<^sup>*\<^sup>* (demo_hart, demo_kernel) (h', k')"
    by (intro r_into_rtranclp kernel_step.trap)
  from process_tree_preserved [OF this demo_wf] t show ?thesis by blast
qed

text \<open>
  C9. Exit and reaping implement the operations of the abstract tree. When a process that is not
  the initial one exits, its children become the last children of the initial process in their
  order and have it as their parent, the process itself is a zombie with the exit code and without
  children, its id leaves the table of processes, and nothing else of the tree changes. The initial
  process never gets that far. When \<open>sys_wait4\<close> reaps a child, the child leaves the list of its
  parent and is freed, and nothing else of the tree changes.\<close>

theorem process_calls_refine_tree:
  "(exit_process p code k = Inr (Some k') \<longrightarrow>
      initproc k \<noteq> p
      \<and> (\<exists>b. procs k p = Some b \<and> tree_of k' = pt_exit p code {t. Some t \<in> set (tasks b)} (tree_of k)))
   \<and> (reap_child held token statusp self idx k = Inr (out, k') \<longrightarrow> tree_of k' = pt_reap self idx (tree_of k))"
  using exit_refines [of p code k k'] reap_child_tree [of held token statusp self idx k out k'] by blast

theorem process_calls_refine_tree_witness:
  "(\<exists>k'. exit_process 1 5 demo_kernel = Inr (Some k') \<and> tree_of k' = pt_exit 1 5 {0} (tree_of demo_kernel))
   \<and> (\<exists>k'. reap_child (\<lambda>_. 0) 0 0 1 0 demo_kernel = Inr (Some (Ret 2), k')
        \<and> tree_of k' = pt_reap 1 0 (tree_of demo_kernel))"
proof
  obtain k' where k': "exit_process 1 5 demo_kernel = Inr (Some k')" using demo_exit by blast
  then show "\<exists>k'. exit_process 1 5 demo_kernel = Inr (Some k') \<and> tree_of k' = pt_exit 1 5 {0} (tree_of demo_kernel)"
    using process_calls_refine_tree [of 1 5 demo_kernel k'] by (auto simp: demo_defs)
  show "\<exists>k'. reap_child (\<lambda>_. 0) 0 0 1 0 demo_kernel = Inr (Some (Ret 2), k')
        \<and> tree_of k' = pt_reap 1 0 (tree_of demo_kernel)"
    using demo_reap process_calls_refine_tree by blast
qed



text \<open>
  C33. A program that faults does not run on. A trap for an access fault, a page fault or an illegal
  instruction ends with the task gone (or, for the idle process, the machine shut down), whatever
  signals were pending: the handler never returns to the program.\<close>

theorem faulting_task_ends:
  assumes "trap_handler E S t1 t2 t3 padding held (Exception e) (h, k) = Some (Inr (out, h', k'))"
    and "e \<noteq> UserEnvCall"
  shows "out = Task_Exited \<or> out = Powered_Off"
proof -
  obtain f k1 h1 k2 where f: "f = SIGSEGV \<or> f = SIGILL" and k2: "current_add_signal f k1 = Inr k2"
    and leave: "trap_leave S t3 (h1, k2) = Some (Inr (out, h', k'))"
    using assms by (cases e) (auto simp: trap_handler_def Let_def elim!: obindE)
  from added_signal_pending [OF k2] obtain p b where "current_process k2 = Inr p" "procs k2 p = Some b"
    "bitflags_contains (signals b) f" by blast
  then show ?thesis using trap_leave_signal [OF leave] f by blast
qed

theorem faulting_task_ends_witness:
  "\<exists>out h' k'. trap_handler demo_env demo_syms 0 0 0 [] (\<lambda>_. 0) (Exception StorePageFault) (demo_hart, demo_kernel)
     = Some (Inr (out, h', k')) \<and> (out = Task_Exited \<or> out = Powered_Off)"
  using demo_fault faulting_task_ends by blast

text \<open>
  C11. The protocol of a system call. If a trap for \<open>ecall\<close> returns to the program, then the call named by
  a7 ran on a0 to a5 as the program left them, in a state whose only change to memory is the program
  counter moved over the instruction, and it returned a value; in the end memory is as the call left it,
  with that value in a0 of the trap context of the running task. The program is resumed through
  \<open>__restore\<close> with its own trap context and page table, with the user's trap entry set and interrupts
  masked.\<close>

theorem syscall_trap_protocol:
  assumes "trap_handler E S t1 t2 t3 padding held (Exception UserEnvCall) (h, k)
      = Some (Inr (Return_To_User r va satp, h', k'))"
    and "current_trap_cx k = Inr cx"
  shows "\<exists>k1 v k2 cx2.
      syscall E t2 padding held (read_u64 (mm_mem (k_mm k)) (reg_addr cx reg_a7))
        (map (\<lambda>i. read_u64 (mm_mem (k_mm k)) (reg_addr cx (reg_a0 + i))) [0..<6]) k1 = Some (Inr (Ret v, k2))
      \<and> mm_mem (k_mm k1) = write_u64 (mm_mem (k_mm k)) (sepc_addr cx) (read_u64 (mm_mem (k_mm k)) (sepc_addr cx) + 4)
      \<and> current_trap_cx k2 = Inr cx2
      \<and> mm_mem (k_mm k') = write_u64 (mm_mem (k_mm k2)) (reg_addr cx2 reg_a0) v
      \<and> r = restore S - alltraps S + TRAMPOLINE
      \<and> current_trap_cx_user_va k' = Inr va \<and> current_user_token k' = Inr satp
      \<and> stvec h' = TRAMPOLINE \<and> \<not> sie h'"
proof -
  obtain k1 v k2 k3 h1 where k1: "enter_times t1 k = Inr k1"
    and call: "syscall E t2 padding held (read_u64 (mm_mem (k_mm k)) (reg_addr cx reg_a7))
       (map (\<lambda>i. read_u64 (mm_mem (k_mm k)) (reg_addr cx (reg_a0 + i))) [0..<6]) (advance_sepc cx k1) = Some (Inr (Ret v, k2))"
    and k3: "set_result v k2 = Inr k3" and leave: "trap_leave S t3 (h1, k3) = Some (Inr (Return_To_User r va satp, h', k'))"
    by (rule syscall_trap_stages [OF assms])
  have "mm_mem (k_mm (advance_sepc cx k1))
      = write_u64 (mm_mem (k_mm k)) (sepc_addr cx) (read_u64 (mm_mem (k_mm k)) (sepc_addr cx) + 4)"
    using enter_times_sel(1) [OF k1] by (simp add: advance_sepc_def put_mem_def)
  moreover obtain cx2 where "current_trap_cx k2 = Inr cx2"
    "mm_mem (k_mm k3) = write_u64 (mm_mem (k_mm k2)) (reg_addr cx2 reg_a0) v"
    using k3 by (auto simp: set_result_def put_mem_def elim!: rbindE)
  ultimately show ?thesis using call trap_leave_return [OF leave] by metis
qed

theorem syscall_trap_protocol_witness:
  "\<exists>r va satp h' k'. trap_handler demo_env demo_syms 0 0 0 [] (\<lambda>_. 0) (Exception UserEnvCall) (demo_hart, demo_kernel)
     = Some (Inr (Return_To_User r va satp, h', k')) \<and> r = 0x200 + TRAMPOLINE \<and> \<not> sie h'"
proof -
  obtain r va satp h' k' where t: "trap_handler demo_env demo_syms 0 0 0 [] (\<lambda>_. 0) (Exception UserEnvCall)
      (demo_hart, demo_kernel) = Some (Inr (Return_To_User r va satp, h', k'))"
    using demo_getpid by blast
  from syscall_trap_protocol [OF this demo_current(3)] have "r = 0x200 + TRAMPOLINE" "\<not> sie h'"
    by (auto simp: demo_syms_def)
  with t show ?thesis by blast
qed



end
