(* ===== verification/Exec_Args.thy ===== *)
theory Exec_Args
  imports Proc_Syscalls
begin

text \<open>
  The arguments of a new program: what \<open>ProcessControlBlock::exec\<close> leaves on the user stack is what
  the loop of \<open>sys_execve\<close> over an argument vector reads back.
\<close>

section \<open>User memory seen through the page table\<close>

text \<open>Memory that differs from \<open>m0\<close> only in the bytes of a user range, and a byte of that range.\<close>

definition agrees :: "SV39PageTable \<Rightarrow> memory \<Rightarrow> nat \<Rightarrow> nat \<Rightarrow> memory \<Rightarrow> bool" where
  "agrees pt m0 lo hi m \<longleftrightarrow> (\<forall>x. x \<notin> set (user_pas pt m0 lo hi) \<longrightarrow> m x = m0 x)"

definition user_byte :: "SV39PageTable \<Rightarrow> memory \<Rightarrow> memory \<Rightarrow> nat \<Rightarrow> u8" where
  "user_byte pt m0 m k = m (user_pa pt m0 (of_nat k))"

lemma agrees_refl [simp]: "agrees pt m0 lo hi m0" by (simp add: agrees_def)

lemma user_pa_inj:
  assumes "user_data pt m0 T lo hi" and "j \<in> {lo..<hi}" "k \<in> {lo..<hi}"
  shows "user_pa pt m0 (of_nat j) = user_pa pt m0 (of_nat k) \<longleftrightarrow> j = k"
proof -
  have "distinct (user_pas pt m0 lo hi)" using assms(1) by (simp only: user_data_def simp_thms)
  then have "inj_on (\<lambda>k. user_pa pt m0 (of_nat k)) {lo..<hi}" by (simp add: distinct_map)
  then show ?thesis using assms(2,3) by (auto dest: inj_onD)
qed

lemma agrees_ref:
  assumes data: "user_data (SV39_from_token token) m0 T lo hi" and m: "agrees (SV39_from_token token) m0 lo hi m"
    and k: "k \<in> {lo..<hi}"
  shows "translated_refmut m token (of_nat k) = Inr (user_pa (SV39_from_token token) m0 (of_nat k))"
    and "translated_ref m token (of_nat k) = Inr (user_pa (SV39_from_token token) m0 (of_nat k))"
proof -
  let ?pt = "SV39_from_token token"
  have out: "\<And>x. x \<notin> set (user_pas ?pt m0 lo hi) \<Longrightarrow> m x = m0 x" using m unfolding agrees_def by blast
  have pa: "user_pa ?pt m x = user_pa ?pt m0 x" for x by (rule user_data_translate(2) [OF data out])
  have "user_range ?pt m lo hi" by (rule user_data_translate(3) [OF data out])
  then have range: "user_range ?pt m k hi" using k by (auto simp: user_range_def)
  have "0 \<notin> set (user_pas ?pt m0 lo hi)" using data by (simp only: user_data_def simp_thms)
  then have "0 \<notin> set (user_pas ?pt m k hi)" using k by (auto simp: pa)
  from translated_ref_ok [OF range _ this HOL.refl] k
  show "translated_refmut m token (of_nat k) = Inr (user_pa ?pt m0 (of_nat k))"
    and "translated_ref m token (of_nat k) = Inr (user_pa ?pt m0 (of_nat k))"
    by (simp_all add: pa)
qed

lemma agrees_set_byte:
  assumes "user_data pt m0 T lo hi" and "agrees pt m0 lo hi m" and "k \<in> {lo..<hi}"
  shows "agrees pt m0 lo hi (m(user_pa pt m0 (of_nat k) := c))"
    and "j \<in> {lo..<hi} \<Longrightarrow> user_byte pt m0 (m(user_pa pt m0 (of_nat k) := c)) j = (if j = k then c else user_byte pt m0 m j)"
  using assms user_pa_inj [OF assms(1) _ assms(3)] by (auto simp: agrees_def user_byte_def)

text \<open>An aligned word lies within a page, so its bytes follow one another in physical memory.\<close>

lemma user_pa_word:
  assumes "user_data pt m0 T lo hi" and "8 dvd a" "lo \<le> a" "a + 8 \<le> hi" "i < 8"
  shows "user_pa pt m0 (of_nat (a + i)) = user_pa pt m0 (of_nat a) + of_nat i"
proof -
  have range: "user_range pt m0 a (a + 8)"
    using assms by (auto simp: user_data_def user_range_def)
  have "(a + 7) div 4096 = a div 4096"
  proof -
    obtain q where q: "a = 8 * q" using assms(2) by blast
    have "(8 * q + 7) div 8 div 512 = 8 * q div 8 div 512" by simp
    then show ?thesis unfolding q by (simp only: div_mult2_eq [symmetric]) simp
  qed
  then have "slice_addrs \<lparr>sl_addr = user_pa pt m0 (of_nat a), sl_len = a + 8 - a\<rparr> = user_pas pt m0 a (a + 8)"
    by (intro one_page_slice(1) [OF range]) simp_all
  then have "slice_addrs \<lparr>sl_addr = user_pa pt m0 (of_nat a), sl_len = 8\<rparr> ! i = user_pas pt m0 a (a + 8) ! i" by simp
  then show ?thesis using assms(5) by simp
qed

lemma agrees_set_word:
  assumes data: "user_data pt m0 T lo hi" and m: "agrees pt m0 lo hi m"
    and a: "8 dvd a" "lo \<le> a" "a + 8 \<le> hi"
  shows "agrees pt m0 lo hi (write_u64 m (user_pa pt m0 (of_nat a)) v)"
    and "j \<in> {lo..<hi} \<Longrightarrow> user_byte pt m0 (write_u64 m (user_pa pt m0 (of_nat a)) v) j
      = (if a \<le> j \<and> j < a + 8 then to_le_bytes v ! (j - a) else user_byte pt m0 m j)"
    and "read_u64 m (user_pa pt m0 (of_nat a)) = from_le_bytes (map (user_byte pt m0 m) [a..<a + 8])"
proof -
  let ?p = "user_pa pt m0 (of_nat a)"
  have pa: "user_pa pt m0 (of_nat (a + i)) = ?p + of_nat i" if "i < 8" for i
    using user_pa_word [OF data a that] .
  have hit: "\<exists>i < 8. x = user_pa pt m0 (of_nat (a + i)) \<and> unat (x - ?p) = i" if "unat (x - ?p) < 8" for x
    using that pa [OF that] by (intro exI [of _ "unat (x - ?p)"]) simp
  show "agrees pt m0 lo hi (write_u64 m ?p v)"
    unfolding agrees_def
  proof (intro allI impI)
    fix x assume x: "x \<notin> set (user_pas pt m0 lo hi)"
    have "\<not> unat (x - ?p) < 8"
    proof
      assume "unat (x - ?p) < 8"
      then obtain i where "i < 8" "x = user_pa pt m0 (of_nat (a + i))" using hit by blast
      then show False using x a by (auto simp del: of_nat_add)
    qed
    then show "write_u64 m ?p v x = m0 x" using m x by (simp add: write_u64_def write_bytes_def agrees_def)
  qed
  show "user_byte pt m0 (write_u64 m ?p v) j
      = (if a \<le> j \<and> j < a + 8 then to_le_bytes v ! (j - a) else user_byte pt m0 m j)" if j: "j \<in> {lo..<hi}"
  proof (cases "a \<le> j \<and> j < a + 8")
    case True
    then have lt: "j - a < 8" by linarith
    from pa [OF this] have "user_pa pt m0 (of_nat j) = ?p + of_nat (j - a)" using True by simp
    moreover have "unat (of_nat (j - a) :: usize) = j - a" using lt by (simp only: unat_of_nat) simp
    ultimately show ?thesis using True lt by (simp add: user_byte_def write_u64_def write_bytes_def)
  next
    case False
    have "\<not> unat (user_pa pt m0 (of_nat j) - ?p) < 8"
    proof
      assume "unat (user_pa pt m0 (of_nat j) - ?p) < 8"
      then obtain i where i: "i < 8" "user_pa pt m0 (of_nat j) = user_pa pt m0 (of_nat (a + i))" using hit by blast
      then have "j = a + i" using user_pa_inj [OF data j, of "a + i"] a by simp
      with False i show False by simp
    qed
    then show ?thesis using False by (auto simp: user_byte_def write_u64_def write_bytes_def)
  qed
  show "read_u64 m ?p = from_le_bytes (map (user_byte pt m0 m) [a..<a + 8])"
  proof -
    have "read_bytes m ?p 8 = map (user_byte pt m0 m) [a..<a + 8]"
      by (intro nth_equalityI) (simp_all add: user_byte_def pa del: of_nat_add)
    then show ?thesis by (simp add: read_u64_def)
  qed
qed

section \<open>Pushing the arguments\<close>

text \<open>A word and a string terminated by zero in user memory.\<close>

definition user_word :: "SV39PageTable \<Rightarrow> memory \<Rightarrow> memory \<Rightarrow> nat \<Rightarrow> usize" where
  "user_word pt m0 m a = from_le_bytes (map (user_byte pt m0 m) [a..<a + 8])"

definition user_string :: "SV39PageTable \<Rightarrow> memory \<Rightarrow> memory \<Rightarrow> nat \<Rightarrow> u8 list \<Rightarrow> bool" where
  "user_string pt m0 m p cs \<longleftrightarrow> map (user_byte pt m0 m) [p..<p + length cs + 1] = cs @ [0]"

text \<open>The room the strings take, each with its terminating zero.\<close>

definition room :: "u8 list list \<Rightarrow> nat" where "room args = (\<Sum>s \<leftarrow> args. length s + 1)"

lemma room_simps [simp]: "room [] = 0" "room (s # args) = length s + 1 + room args"
  by (simp_all add: room_def)

lemma push_arg_bytes_ok:
  assumes data: "user_data (SV39_from_token token) m0 T lo hi" and "agrees (SV39_from_token token) m0 lo hi m"
    and "lo \<le> p" "p + length cs < hi"
  shows "\<exists>m'. push_arg_bytes token (of_nat p) cs m = Inr m' \<and> agrees (SV39_from_token token) m0 lo hi m'
    \<and> (\<forall>j \<in> {lo..<hi}. user_byte (SV39_from_token token) m0 m' j
          = (if p \<le> j \<and> j \<le> p + length cs then (cs @ [0]) ! (j - p) else user_byte (SV39_from_token token) m0 m j))"
  using assms(2-)
proof (induction cs arbitrary: p m)
  case Nil
  then have p: "p \<in> {lo..<hi}" by simp
  show ?case
    using agrees_set_byte [OF data Nil(1) p, where c = 0] agrees_ref(1) [OF data Nil(1) p] by auto
next
  case (Cons c cs)
  let ?pt = "SV39_from_token token"
  have p: "p \<in> {lo..<hi}" using Cons.prems by simp
  define m1 where "m1 = m(user_pa ?pt m0 (of_nat p) := c)"
  have m1: "agrees ?pt m0 lo hi m1"
    "\<And>j. j \<in> {lo..<hi} \<Longrightarrow> user_byte ?pt m0 m1 j = (if j = p then c else user_byte ?pt m0 m j)"
    unfolding m1_def using agrees_set_byte [OF data Cons.prems(1) p, where c = c] by auto
  obtain m' where m': "push_arg_bytes token (of_nat (p + 1)) cs m1 = Inr m'" "agrees ?pt m0 lo hi m'"
    "\<And>j. j \<in> {lo..<hi} \<Longrightarrow> user_byte ?pt m0 m' j
      = (if p + 1 \<le> j \<and> j \<le> p + 1 + length cs then (cs @ [0]) ! (j - (p + 1)) else user_byte ?pt m0 m1 j)"
    using Cons.IH [OF m1(1), of "p + 1"] Cons.prems by auto
  have "push_arg_bytes token (of_nat p) (c # cs) m = Inr m'"
    using m'(1) agrees_ref(1) [OF data Cons.prems(1) p] by (simp add: m1_def add.commute)
  moreover have "user_byte ?pt m0 m' j
      = (if p \<le> j \<and> j \<le> p + length (c # cs) then ((c # cs) @ [0]) ! (j - p) else user_byte ?pt m0 m j)"
    if j: "j \<in> {lo..<hi}" for j
  proof (cases "p + 1 \<le> j")
    case True
    then have "j - p = Suc (j - (p + 1))" by simp
    then show ?thesis using True m'(3) [OF j] m1(2) [OF j] by simp
  next
    case False
    then show ?thesis using m'(3) [OF j] m1(2) [OF j] by auto
  qed
  ultimately show ?case using m'(2) by blast
qed

lemma push_args_ok:
  assumes data: "user_data (SV39_from_token token) m0 T lo hi" and b: "8 dvd b"
    and "agrees (SV39_from_token token) m0 lo hi m" and "lo + room args \<le> sp" "sp \<le> b" "b + 8 * (s + length args) \<le> hi"
  shows "\<exists>m'. push_args token (zip (map (\<lambda>i. user_pa (SV39_from_token token) m0 (of_nat (b + 8 * i))) [s..<s + length args]) args)
        (of_nat sp) m = Inr (of_nat (sp - room args), m') \<and> agrees (SV39_from_token token) m0 lo hi m'
    \<and> (\<forall>i < length args. user_word (SV39_from_token token) m0 m' (b + 8 * (s + i)) = of_nat (sp - room (take (i + 1) args))
          \<and> user_string (SV39_from_token token) m0 m' (sp - room (take (i + 1) args)) (args ! i))
    \<and> (\<forall>j \<in> {lo..<hi}. sp \<le> j \<and> j < b + 8 * s \<or> b + 8 * (s + length args) \<le> j \<longrightarrow>
          user_byte (SV39_from_token token) m0 m' j = user_byte (SV39_from_token token) m0 m j)"
  using assms(3-)
proof (induction args arbitrary: s sp m)
  case Nil
  then show ?case by simp
next
  case (Cons c args)
  let ?pt = "SV39_from_token token"
  let ?ub = "user_byte ?pt m0"
  define sp1 where "sp1 = sp - (length c + 1)"
  have sp1: "sp = sp1 + length c + 1" "lo + room args \<le> sp1" using Cons.prems(2) by (simp_all add: sp1_def)
  define a where "a = b + 8 * s"
  have a: "8 dvd a" "lo \<le> a" "a + 8 \<le> hi" "sp \<le> a" using b Cons.prems by (auto simp: a_def)
  define m1 where "m1 = write_u64 m (user_pa ?pt m0 (of_nat a)) (of_nat sp1)"
  have m1: "agrees ?pt m0 lo hi m1"
    "\<And>j. j \<in> {lo..<hi} \<Longrightarrow> ?ub m1 j = (if a \<le> j \<and> j < a + 8 then to_le_bytes (of_nat sp1) ! (j - a) else ?ub m j)"
    unfolding m1_def using agrees_set_word [OF data Cons.prems(1) a(1-3)] by auto
  obtain m2 where m2: "push_arg_bytes token (of_nat sp1) c m1 = Inr m2" "agrees ?pt m0 lo hi m2"
    "\<And>j. j \<in> {lo..<hi} \<Longrightarrow> ?ub m2 j = (if sp1 \<le> j \<and> j < sp then (c @ [0]) ! (j - sp1) else ?ub m1 j)"
    using push_arg_bytes_ok [OF data m1(1), of sp1 c] sp1 a Cons.prems by (auto simp: less_Suc_eq_le)
  have pre: "sp1 \<le> b" "b + 8 * (s + 1 + length args) \<le> hi" using Cons.prems sp1 by auto
  from Cons.IH [OF m2(2) sp1(2) pre] obtain m' where
    m': "push_args token (zip (map (\<lambda>i. user_pa ?pt m0 (of_nat (b + 8 * i))) [s + 1..<s + 1 + length args]) args)
        (of_nat sp1) m2 = Inr (of_nat (sp1 - room args), m')" "agrees ?pt m0 lo hi m'"
    and args: "\<forall>i < length args. user_word ?pt m0 m' (b + 8 * (s + 1 + i)) = of_nat (sp1 - room (take (i + 1) args))
          \<and> user_string ?pt m0 m' (sp1 - room (take (i + 1) args)) (args ! i)"
    and same: "\<forall>j \<in> {lo..<hi}. sp1 \<le> j \<and> j < b + 8 * (s + 1) \<or> b + 8 * (s + 1 + length args) \<le> j \<longrightarrow> ?ub m' j = ?ub m2 j"
    by blast
  have same': "?ub m' j = ?ub m2 j" if "lo \<le> j" "j < hi" "sp1 \<le> j" "j < a + 8" for j
    using same that by (simp add: a_def)
  have word0: "user_word ?pt m0 m' a = of_nat sp1"
  proof -
    have "?ub m' j = to_le_bytes (of_nat sp1) ! (j - a)" if "j \<in> {a..<a + 8}" for j
      using that same' [of j] m2(3) [of j] m1(2) [of j] a sp1 by simp
    then have "map (?ub m') [a..<a + 8] = to_le_bytes (of_nat sp1)" by (intro nth_equalityI) simp_all
    then show ?thesis by (simp add: user_word_def)
  qed
  have string0: "user_string ?pt m0 m' sp1 c"
  proof -
    have "?ub m' j = (c @ [0]) ! (j - sp1)" if "j \<in> {sp1..<sp}" for j
      using that same' [of j] m2(3) [of j] a sp1 by simp
    then have "map (?ub m') [sp1..<sp1 + length c + 1] = c @ [0]" using sp1(1)
      by (intro nth_equalityI) (simp_all del: upt_Suc)
    then show ?thesis by (simp add: user_string_def)
  qed
  show ?case
  proof (intro exI conjI allI ballI impI)
    have "of_nat sp - (of_nat (length c) + 1) = (of_nat sp1 :: usize)" by (simp add: sp1(1))
    moreover have "[s..<s + length (c # args)] = s # [s + 1..<s + 1 + length args]"
      by (simp del: upt_Suc add: upt_conv_Cons)
    moreover have "sp - room (c # args) = sp1 - room args" by (simp add: sp1_def)
    ultimately show "push_args token (zip (map (\<lambda>i. user_pa ?pt m0 (of_nat (b + 8 * i))) [s..<s + length (c # args)]) (c # args))
        (of_nat sp) m = Inr (of_nat (sp - room (c # args)), m')"
      using m2(1) m'(1) by (simp only: list.map zip_Cons_Cons push_args.simps Let_def m1_def a_def rbind_simps)
    show "agrees ?pt m0 lo hi m'" by (rule m'(2))
  next
    fix i assume i: "i < length (c # args)"
    show "user_word ?pt m0 m' (b + 8 * (s + i)) = of_nat (sp - room (take (i + 1) (c # args)))"
      using i args word0 by (cases i) (simp_all add: sp1_def a_def add.assoc)
    show "user_string ?pt m0 m' (sp - room (take (i + 1) (c # args))) ((c # args) ! i)"
      using i args string0 by (cases i) (simp_all add: sp1_def)
  next
    fix j assume j: "j \<in> {lo..<hi}" and "sp \<le> j \<and> j < b + 8 * s \<or> b + 8 * (s + length (c # args)) \<le> j"
    then have c: "sp1 \<le> j \<and> j < b + 8 * (s + 1) \<or> b + 8 * (s + 1 + length args) \<le> j"
      "\<not> (sp1 \<le> j \<and> j < sp)" "\<not> (a \<le> j \<and> j < a + 8)" using sp1(1) a(4) by (auto simp: a_def)
    have "?ub m' j = ?ub m2 j" using same j c(1) by blast
    also have "\<dots> = ?ub m1 j" using m2(3) [OF j] c(2) by (simp only: if_False)
    also have "\<dots> = ?ub m j" using m1(2) [OF j] c(3) by (simp only: if_False)
    finally show "?ub m' j = ?ub m j" .
  qed
qed

lemma translate_all_ok:
  assumes data: "user_data (SV39_from_token token) m0 T lo hi" and m: "agrees (SV39_from_token token) m0 lo hi m"
    and "\<And>k. k \<in> set ks \<Longrightarrow> k \<in> {lo..<hi}"
  shows "translate_all token m (map of_nat ks) = Inr (map (\<lambda>k. user_pa (SV39_from_token token) m0 (of_nat k)) ks)"
  using assms(3) by (induction ks) (simp_all add: agrees_ref(1) [OF data m])

text \<open>What is on the stack after the arguments have been pushed.\<close>

lemma exec_push_args_ok:
  assumes data: "user_data (SV39_from_token token) m T lo hi" and top: "8 dvd hi"
    and fits: "lo + room args + 8 * (length args + 1) \<le> hi"
  defines "b \<equiv> hi - 8 * (length args + 1)"
  shows "\<exists>m'. exec_push_args token args (of_nat hi) m
        = Inr (of_nat (b - room args) - of_nat (b - room args) mod 8, of_nat b, m')
    \<and> agrees (SV39_from_token token) m lo hi m'
    \<and> (\<forall>i < length args. user_word (SV39_from_token token) m m' (b + 8 * i) = of_nat (b - room (take (i + 1) args))
          \<and> user_string (SV39_from_token token) m m' (b - room (take (i + 1) args)) (args ! i))
    \<and> user_word (SV39_from_token token) m m' (b + 8 * length args) = 0"
proof -
  let ?pt = "SV39_from_token token" and ?n = "length args"
  have hi: "hi = b + 8 * (?n + 1)" "lo + room args \<le> b" using fits by (auto simp: b_def)
  have b8: "8 dvd b" using top hi(1) by (metis dvd_add_left_iff dvd_triv_left)
  have base: "of_nat hi - (of_nat ?n + 1) * 8 = (of_nat b :: usize)" by (simp add: hi(1))
  have addrs: "map (\<lambda>i. of_nat b + of_nat i * 8) [0..<?n + 1] = map of_nat (map (\<lambda>i. b + 8 * i) [0..<?n + 1])"
    by (simp add: mult.commute)
  have argv: "translate_all token m (map (\<lambda>i. of_nat b + of_nat i * 8) [0..<?n + 1])
      = Inr (map (\<lambda>i. user_pa ?pt m (of_nat (b + 8 * i))) [0..<?n + 1])"
    unfolding addrs using hi by (subst translate_all_ok [OF data agrees_refl]) (auto simp: comp_def)
  let ?a = "b + 8 * ?n"
  have a: "8 dvd ?a" "lo \<le> ?a" "?a + 8 \<le> hi" using b8 hi by auto
  define m1 where "m1 = write_u64 m (user_pa ?pt m (of_nat ?a)) 0"
  have m1: "agrees ?pt m lo hi m1"
    "\<And>j. j \<in> {lo..<hi} \<Longrightarrow> user_byte ?pt m m1 j = (if ?a \<le> j \<and> j < ?a + 8 then to_le_bytes 0 ! (j - ?a) else user_byte ?pt m m j)"
    unfolding m1_def using agrees_set_word [OF data agrees_refl a] by auto
  have fit: "b + 8 * (0 + ?n) \<le> hi" using hi(1) by simp
  from push_args_ok [OF data b8 m1(1) hi(2) order_refl fit] obtain m' where
    m': "push_args token (zip (map (\<lambda>i. user_pa ?pt m (of_nat (b + 8 * i))) [0..<0 + ?n]) args) (of_nat b) m1
        = Inr (of_nat (b - room args), m')" "agrees ?pt m lo hi m'"
    and args: "\<forall>i < ?n. user_word ?pt m m' (b + 8 * (0 + i)) = of_nat (b - room (take (i + 1) args))
          \<and> user_string ?pt m m' (b - room (take (i + 1) args)) (args ! i)"
    and same: "\<forall>j \<in> {lo..<hi}. b \<le> j \<and> j < b + 8 * 0 \<or> b + 8 * (0 + ?n) \<le> j \<longrightarrow> user_byte ?pt m m' j = user_byte ?pt m m1 j"
    by blast
  have zip: "zip (map (\<lambda>i. user_pa ?pt m (of_nat (b + 8 * i))) [0..<?n + 1]) args
      = zip (map (\<lambda>i. user_pa ?pt m (of_nat (b + 8 * i))) [0..<0 + ?n]) args"
    by (simp add: zip_append1)
  have "index_at (map (\<lambda>i. user_pa ?pt m (of_nat (b + 8 * i))) [0..<?n + 1]) ?n = Inr (user_pa ?pt m (of_nat ?a))"
    by (simp add: index_at_def nth_append)
  then have "exec_push_args token args (of_nat hi) m
      = Inr (of_nat (b - room args) - of_nat (b - room args) mod 8, of_nat b, m')"
    unfolding exec_push_args_def Let_def base argv rbind_simps m1_def [symmetric]
    using m'(1) by (simp only: zip rbind_simps m1_def [symmetric] prod.case)
  moreover have "user_word ?pt m m' ?a = 0"
  proof -
    have "user_byte ?pt m m' j = to_le_bytes 0 ! (j - ?a)" if "j \<in> {?a..<?a + 8}" for j
      using that same m1(2) [of j] a by simp
    then have "map (user_byte ?pt m m') [?a..<?a + 8] = to_le_bytes 0" by (intro nth_equalityI) simp_all
    then show ?thesis by (simp add: user_word_def)
  qed
  ultimately show ?thesis using m'(2) args by auto
qed

section \<open>Reading them back\<close>

lemma translated_str_loop_ok:
  assumes data: "user_data (SV39_from_token token) m0 T lo hi" and m: "agrees (SV39_from_token token) m0 lo hi m"
    and "lo \<le> p" "p + length cs < hi" "user_string (SV39_from_token token) m0 m p cs" "0 \<notin> set cs"
  shows "translated_str_loop m (SV39_from_token token) (of_nat p) acc = Some (Inr (acc @ cs))"
  using assms(3-)
proof (induction cs arbitrary: p acc)
  case Nil
  then have "p \<in> {lo..<hi}" "user_byte (SV39_from_token token) m0 m p = 0" by (simp_all add: user_string_def)
  then show ?case
    using agrees_ref(2) [OF data m]
    by (subst translated_str_loop.simps) (simp add: translated_ref_def [symmetric] user_byte_def)
next
  case (Cons c cs)
  let ?ub = "user_byte (SV39_from_token token) m0 m"
  have p: "p \<in> {lo..<hi}" using Cons.prems by simp
  have "map ?ub (p # [p + 1..<p + 1 + length cs + 1]) = c # cs @ [0]"
    using Cons.prems(3) unfolding user_string_def by (simp del: upt_Suc add: upt_conv_Cons)
  then have c: "?ub p = c" "user_string (SV39_from_token token) m0 m (p + 1) cs" "c \<noteq> 0"
    using Cons.prems(4) by (simp_all del: upt_Suc add: user_string_def)
  have "translated_str_loop m (SV39_from_token token) (of_nat (p + 1)) (acc @ [c]) = Some (Inr ((acc @ [c]) @ cs))"
    by (rule Cons.IH) (use Cons.prems c in auto)
  then show ?case
    using agrees_ref(2) [OF data m p] c(1,3)
    by (subst translated_str_loop.simps) (simp add: translated_ref_def [symmetric] user_byte_def add.commute)
qed

lemma read_str_vec_ok:
  assumes data: "user_data (SV39_from_token token) m0 T lo hi" and m: "agrees (SV39_from_token token) m0 lo hi m"
    and b: "8 dvd b" "lo \<le> b" "b + 8 * (length args + 1) \<le> hi" and z: "\<forall>s \<in> set args. 0 \<notin> set s"
    and args: "\<forall>i < length args. user_word (SV39_from_token token) m0 m (b + 8 * i) = of_nat (p i)
          \<and> user_string (SV39_from_token token) m0 m (p i) (args ! i)"
    and p: "\<forall>i < length args. 0 < p i \<and> lo \<le> p i \<and> p i + length (args ! i) < hi"
    and last0: "user_word (SV39_from_token token) m0 m (b + 8 * length args) = 0"
    and "i \<le> length args"
  shows "read_str_vec m token (of_nat (b + 8 * i)) (take i args) = Some (Inr args)"
  using assms(10)
proof (induction "length args - i" arbitrary: i)
  case 0
  then have i: "i = length args" by simp
  have "translated_ref m token (of_nat (b + 8 * i)) = Inr (user_pa (SV39_from_token token) m0 (of_nat (b + 8 * i)))"
    by (rule agrees_ref(2) [OF data m]) (use b i in simp)
  moreover have "read_u64 m (user_pa (SV39_from_token token) m0 (of_nat (b + 8 * i))) = 0"
    using agrees_set_word(3) [OF data m, of "b + 8 * i"] b last0 i by (simp add: user_word_def)
  ultimately show ?case using i by (subst read_str_vec.simps) (simp del: of_nat_add of_nat_mult)
next
  case (Suc d)
  then have i: "i < length args" by simp
  let ?p = "user_pa (SV39_from_token token) m0 (of_nat (b + 8 * i))"
  have ref: "translated_ref m token (of_nat (b + 8 * i)) = Inr ?p"
    by (rule agrees_ref(2) [OF data m]) (use b i in simp)
  have ptr: "read_u64 m ?p = of_nat (p i)"
    using agrees_set_word(3) [OF data m, of "b + 8 * i"] b args i by (simp add: user_word_def)
  have "p i < 2 ^ 38" using p i data by (fastforce simp: user_data_def user_range_def)
  then have nz: "(of_nat (p i) :: usize) \<noteq> 0" using p i low_addr(2) [of "p i"] by (metis unat_0 less_irrefl)
  have str: "translated_str m token (of_nat (p i)) = Some (Inr (args ! i))"
    unfolding translated_str_def
    using translated_str_loop_ok [OF data m, of "p i" "args ! i" "[]"] p args z i by simp
  have "read_str_vec m token (of_nat (b + 8 * (i + 1))) (take (i + 1) args) = Some (Inr args)"
    by (rule Suc.hyps(1)) (use Suc.hyps(2) i in simp_all)
  moreover have "of_nat (b + 8 * i) + 8 = (of_nat (b + 8 * (i + 1)) :: usize)" by simp
  moreover have "take i args @ [args ! i] = take (i + 1) args" using i by (simp add: take_Suc_conv_app_nth)
  ultimately show ?case
    using ref ptr nz str by (subst read_str_vec.simps) (simp del: of_nat_add of_nat_mult)
qed

lemma room_take: "i < length args \<Longrightarrow> length (args ! i) + 1 \<le> room (take (i + 1) args) \<and> room (take (i + 1) args) \<le> room args"
proof (induction args arbitrary: i)
  case (Cons s args)
  show ?case
  proof (cases i)
    case (Suc j)
    then have "length (args ! j) + 1 \<le> room (take (j + 1) args) \<and> room (take (j + 1) args) \<le> room args"
      using Cons.IH [of j] Cons.prems by simp
    then show ?thesis using Suc by simp
  qed simp
qed simp

lemma align_down_stack:
  assumes "x \<le> b" "b < 2 ^ 38"
  shows "((of_nat x :: usize) - of_nat x mod 8) mod 8 = 0" and "(of_nat x :: usize) - of_nat x mod 8 \<le> of_nat b"
proof -
  have x: "unat (of_nat x :: usize) = x" and b: "unat (of_nat b :: usize) = b"
    using low_addr(2) [of x] low_addr(2) [OF assms(2)] assms by auto
  have d: "unat ((of_nat x :: usize) - of_nat x mod 8) = x - x mod 8"
    by (subst unat_sub) (simp_all add: word_le_nat_alt unat_mod x)
  have "(x - x mod 8) mod 8 = 0" by (metis minus_mod_eq_mult_div mod_mult_self1_is_0)
  then show "((of_nat x :: usize) - of_nat x mod 8) mod 8 = 0"
    by (simp add: word_unat_eq_iff unat_mod d)
  show "(of_nat x :: usize) - of_nat x mod 8 \<le> of_nat b"
    using assms(1) by (simp add: word_le_nat_alt d b)
qed

section \<open>Property\<close>


lemma example_stack:
  assumes "0x5000 \<le> lo" "hi \<le> 0x6000"
  obtains token m T where "user_data (SV39_from_token token) m T lo hi"
proof -
  obtain token m T where e: "SV39_translate (SV39_from_token token) (VirtPageNum 5) m
      = Some (PageTableEntry_new (PhysPageNum 0x80200) 3)"
    "pt_tree m (root_ppn (SV39_from_token token)) T" "\<And>q. q \<in> T \<Longrightarrow> ppn_ok q \<and> 0x80400 \<le> ppn0 q"
    by (rule example_token) blast
  let ?pt = "SV39_from_token token" and ?p = "PhysPageNum 0x80200"
  have k5: "k div 4096 = 5" "k mod 4096 = k - 0x5000" "k - 0x5000 < 4096" if "k \<in> {lo..<hi}" for k :: nat
  proof -
    have k: "0x5000 \<le> k" "k < 0x6000" using that assms by auto
    then show d: "k div 4096 = 5" by (intro div_nat_eqI) simp_all
    show "k mod 4096 = k - 0x5000" using minus_mult_div_eq_mod [of k 4096] d by simp
    show "k - 0x5000 < 4096" using k by simp
  qed
  have pa: "user_pa ?pt m (of_nat k) = page_addr ?p (k - 0x5000)" if "k \<in> {lo..<hi}" for k
    using user_pa_page [of k ?pt m] e(1) k5 [OF that] that assms by (simp add: ppn_ok_def)
  have ok: "ppn_ok ?p" by (simp add: ppn_ok_def)
  have "inj_on (\<lambda>k. user_pa ?pt m (of_nat k)) {lo..<hi}"
  proof (rule inj_onI)
    fix j k assume jk: "j \<in> {lo..<hi}" "k \<in> {lo..<hi}" "user_pa ?pt m (of_nat j) = user_pa ?pt m (of_nat k)"
    then have "j - 0x5000 = k - 0x5000"
      using page_addr_eq_iff [OF ok ok k5(3) [OF jk(1)] k5(3) [OF jk(2)]] pa by simp
    then show "j = k" using jk(1,2) assms by auto
  qed
  then have d: "distinct (user_pas ?pt m lo hi)" by (simp only: distinct_map distinct_upt set_upt simp_thms)
  have unat_pa: "unat (page_addr ?p off) \<noteq> 0" if "off < 4096" for off
    using unat_page_addr [OF ok that] by simp
  have z: "0 \<notin> set (user_pas ?pt m lo hi)"
  proof
    assume "0 \<in> set (user_pas ?pt m lo hi)"
    then obtain k where "k \<in> {lo..<hi}" "0 = user_pa ?pt m (of_nat k)" by auto
    then show False using pa unat_pa k5(3) by (metis unat_0)
  qed
  have disj: "page_addr q off \<noteq> page_addr ?p l" if "q \<in> T" "off < 4096" "l < 4096" for q off l
    using e(3) [OF that(1)] that(2,3) page_addr_eq_iff [of q ?p off l] by (auto simp: ppn_ok_def)
  have t: "\<forall>q \<in> T. \<forall>off < 4096. page_addr q off \<notin> set (user_pas ?pt m lo hi)"
  proof (intro ballI allI impI notI)
    fix q off assume q: "q \<in> T" "off < 4096" and "page_addr q off \<in> set (user_pas ?pt m lo hi)"
    then obtain k where "k \<in> {lo..<hi}" "page_addr q off = user_pa ?pt m (of_nat k)" by auto
    then show False using pa k5(3) disj [OF q] by metis
  qed
  have "user_range ?pt m lo hi" using e(1) k5(1) assms by (auto simp: user_range_def)
  then show ?thesis
    using that e(2,3) d z t unfolding user_data_def by blast
qed


end
