(* ===== verification/Spec2Isabelle.thy ===== *)
theory Spec2Isabelle
  imports User_Space Pipe_Flow Fat_Device Signal Intr_Cell Sync_Safety Fd_Table Trap_Safety Exec_Args
begin

text \<open>
  A verification of the kernel cuteCore for 64-bit RISC-V, built for a single processor. All paths
  below are under \<open>src/os/src/\<close>; \<open>riscv/\<close> stands for \<open>hal/arch/riscv/\<close>.

  \<^bold>\<open>The program.\<close> A trap from a user program enters \<open>trap_handler\<close> (\<open>riscv/trap/mod.rs\<close>), which charges
  the time to the process, dispatches a system call (\<open>syscall/mod.rs\<close>), a fault or a timer interrupt,
  and returns through \<open>trap_return\<close>. System calls act on the process of the running task: its address
  space (\<open>mm/\<close>), its open files (\<open>fs/\<close>) and its threads (\<open>task/\<close>); they may give up the processor to the
  idle loop of the scheduler, which dispatches the next task of the ready queue. Memory comes from
  an allocator of physical frames; page tables are trees of frames. Files are those of the crate
  \<open>fatfs\<close>, which reads and writes the disk through a cache of blocks.

  \<^bold>\<open>Conventions.\<close> \<open>usize\<close> and the other integers are words of their width, with the wrap-around of a
  release build. A panic is the left value of \<open>result\<close> (\<open>Kernel_Prelude\<close>); a loop that may run for
  ever is a \<open>partial_function\<close> whose value \<open>None\<close> stands for not returning, and a claim that it returns is
  proved as such; no fuel is used. A struct is a record, an enum a datatype, \<open>Arc\<close> a number that names
  an entry of a store, \<open>Weak::upgrade\<close> a lookup that fails once the entry is gone. A
  \<open>UPIntrFreeCell\<close> masks interrupts while its guard lives (\<open>Intr_Cell\<close>), so an operation between two
  switches is one step. A call that blocks ends its step at the switch, with what it does
  afterwards as a value (\<open>wait_call\<close>) that \<open>sys_resume\<close> and \<open>trap_resume\<close> carry out.

  \<^bold>\<open>Parameters.\<close> Code that is not under \<open>src/\<close> is an argument: the operations of \<open>fatfs\<close> (record \<open>fatfs\<close>,
  with \<open>fatfs_file_ok\<close> for what is relied on), the block device (\<open>bd\<close>, \<open>device_ok\<close>), the ELF parser, UTF-8
  decoding, the addresses of linker symbols and the initial \<open>sstatus\<close> (record \<open>kenv\<close>, \<open>trap_syms\<close>), and every
  reading of the clock (\<open>tick\<close>). \<open>padding\<close> stands for uninitialised bytes of a struct that is copied out,
  \<open>held\<close> for references in local variables of calls that wait.

  \<^bold>\<open>Theories, from the bottom up.\<close>
  \<^item> \<open>Kernel_Prelude\<close>: words, panics, sequencing, generic lemmas and their collections.
  \<^item> \<open>Address\<close> (\<open>mm/address.rs\<close>, \<open>riscv/config.rs\<close>), \<open>Phys_Memory\<close> (views of physical pages).
  \<^item> \<open>Id_Allocator\<close> (\<open>task/pid.rs\<close>, the layouts of \<open>riscv/kernel_stack.rs\<close>) and \<open>Frame_Allocator\<close>
    (\<open>mm/frame_allocator.rs\<close>): both interpret the locale \<open>allocator\<close>, in which it is proved once that the
    handles of any history of allocations and drops are distinct and can be dropped. Stacks of
    kernel threads never overlap; those of user threads do from the seventh thread on.
  \<^item> \<open>Page_Table\<close> (\<open>riscv/sv39.rs\<close>): under the invariant that the tables form a tree of owned frames,
    \<open>map\<close> and \<open>unmap\<close> refine the update and the removal of a finite map.
  \<^item> \<open>User_Memory\<close> (\<open>mm/pagetable.rs\<close>): the slices of a user buffer are found and are the right bytes;
    copying to and from user memory round-trips.
  \<^item> \<open>Memory_Set\<close>, \<open>Address_Space\<close>, \<open>User_Space\<close> (\<open>mm/memory_set.rs\<close>): areas, \<open>brk\<close>, \<open>mmap\<close>, \<open>munmap\<close>, \<open>from_elf\<close>
    and the copy made for a child. New areas are fresh and zeroed, a child shares no frame with its
    parent, \<open>munmap\<close> is specified on every branch and undoes \<open>mmap\<close>, the search for a gap ends.
  \<^item> \<open>Vfs\<close> (\<open>fs/file.rs\<close>, \<open>fs/stdio.rs\<close>), \<open>Pipe\<close> and \<open>Pipe_Flow\<close> (\<open>fs/pipe.rs\<close>): the ring interprets the locale
    \<open>bounded_queue\<close>; in every interleaving of a blocking writer and reader the bytes arrive in order, and
    neither starves.
  \<^item> \<open>Block_Cache\<close> and \<open>Fat_Device\<close> (\<open>fs/block_cache.rs\<close>, \<open>fs/fat32.rs\<close>): the cached device interprets the
    locale \<open>byte_store\<close>, a flat array; \<open>flush\<close> makes the disk agree with it.
  \<^item> \<open>Path\<close>, \<open>Inode\<close> (\<open>fs/inode.rs\<close>): path resolution is canonical and compositional; an inode refines a
    byte sequence with an offset; the loop that loads a program ends.
  \<^item> \<open>Files\<close>, \<open>Fs_Syscalls\<close>, \<open>Fd_Table\<close> (\<open>syscall/fs.rs\<close>): all file system calls; \<open>dup\<close>, \<open>dup3\<close> and \<open>close\<close> act on
    a partial map (locale \<open>descriptor_table\<close>), and a pipe reports its end exactly when no write end is left.
  \<^item> \<open>Time\<close> (\<open>timer.rs\<close>), \<open>Signal\<close> (\<open>task/signal.rs\<close>), \<open>Intr_Cell\<close> (\<open>riscv/sync.rs\<close>, \<open>sync/up.rs\<close>).
  \<^item> \<open>Sched\<close> (\<open>task/{task,context,manager,processor,mod}.rs\<close>, \<open>riscv/switch.S\<close>, timers): a task resumes with
    its registers, waits a bounded number of dispatches, and is queued at most once; due sleepers are woken.
  \<^item> \<open>Sync\<close>, \<open>Sync_Safety\<close> (\<open>sync/{mutex,semaphore,condvar}.rs\<close>): mutual exclusion, the bound on admissions,
    and that a waiting task is in one queue only, over all interleavings.
  \<^item> \<open>Process\<close> (\<open>task/process.rs\<close>, the rest of \<open>task/\<close>, \<open>riscv/kernel_stack.rs\<close>, \<open>riscv/trap/context.rs\<close>),
    \<open>Proc_Syscalls\<close> (\<open>syscall/{process,thread,sync}.rs\<close>), \<open>Trap\<close> (\<open>syscall/mod.rs\<close>, \<open>riscv/trap/mod.rs\<close>): the
    kernel state \<open>kernel\<close>, which joins all of the above, and every operation on it.
  \<^item> \<open>Exec_Args\<close>: the argument vector built by \<open>exec\<close> reads back as the arguments.
  \<^item> \<open>Proc_Tree\<close>, \<open>Trap_Safety\<close>: an abstract tree of processes with spawn, exit and reap; the kernel refines
    it, from the first process on (\<open>add_initproc_wf\<close>) through every trap (\<open>kernel_step\<close>). A faulting task
    ends, a system call follows its protocol, processor time adds up.

  \<^bold>\<open>Not modelled.\<close> Assembly (\<open>boot.rs\<close>, \<open>trap.S\<close>), the firmware calls of \<open>sbi.rs\<close>, device drivers, console
  output, the heap of the kernel (allocation of kernel objects does not fail), the port to
  LoongArch, and the user programs, which are arbitrary sequences of traps and stores. Of
  \<open>activate\<close> and \<open>sfence.vma\<close> nothing is modelled: the kernel reaches user memory by walking tables.
  The order of the initialisers in \<open>rust_main\<close> is left out.
\<close>

end
